(* ===== verification/Prelude.thy ===== *)
theory Prelude
  imports Complex_Main "HOL-Library.AList" "HOL-Library.Multiset"
begin

text \<open>
  Shared vocabulary of the deadpool development.

  \<^item> Python's \<open>str\<close> is a list of code points (\<open>pystr\<close>); \<open>lit\<close> turns an ASCII literal into one.
  \<^item> Python's \<open>bytes\<close> is a list of naturals (each below 256 where the code produces them).
  \<^item> An exception is a value of \<open>exn\<close>; an operation that may raise returns
    \<open>'a result = exn + 'a\<close> with the exception on the left.
  \<^item> A \<open>dict\<close> keeps insertion order, so it is an association list with distinct keys:
    \<open>map_of\<close> reads it, \<open>AList.update\<close> is \<open>d[k] = v\<close> (in place, or appended at the end)
    and \<open>AList.delete\<close> is \<open>d.pop(k, None)\<close>.
  \<^item> \<open>dict_sum\<close> adds a weight over the values of a dict: the accounting invariants of the
    reader, the scheduler and the broker are stated with it.
\<close>

named_theorems dict_simps "reading, writing and summing association-list dictionaries"
named_theorems sched_defs "definitions of the scheduler's operations"

type_synonym pystr = "nat list"
type_synonym bytes = "nat list"
type_synonym ('k, 'v) dict = "('k \<times> 'v) list"

definition lit :: "string \<Rightarrow> pystr" where
  "lit s = map of_char s"

datatype exn =
    IndexError string
  | KeyError
  | ValueError string
  | TypeError string
  | RemoteProtocolError string
  | UnicodeEncodeError
  | StructError
  | EOFError string
  | TimeoutError string
  | OSError string

type_synonym 'a result = "exn + 'a"

text \<open>
  Python numbers and the values the validators test with \<open>isinstance\<close>.  A finite \<open>float\<close> is a
  rational; \<open>bool\<close> is a subclass of \<open>int\<close>, which is why the code tests for it first.
\<close>

datatype pyfloat = Finite rat | PosInf | NegInf | NaN

datatype pyval = VNone | VBool bool | VInt int | VFloat pyfloat | VStr pystr | VOther

fun is_bool :: "pyval \<Rightarrow> bool" where
  "is_bool (VBool _) = True"
| "is_bool _ = False"

fun is_int :: "pyval \<Rightarrow> bool" where
  "is_int (VInt _) = True"
| "is_int (VBool _) = True"
| "is_int _ = False"

fun is_float :: "pyval \<Rightarrow> bool" where
  "is_float (VFloat _) = True"
| "is_float _ = False"

fun float_isfinite :: "pyfloat \<Rightarrow> bool" where
  "float_isfinite (Finite _) = True"
| "float_isfinite _ = False"

text \<open>\<open>value <= 0\<close> and \<open>value < 0\<close> on numbers: every comparison with a NaN is false.\<close>

fun num_le0 :: "pyval \<Rightarrow> bool" where
  "num_le0 (VInt i) = (i \<le> 0)"
| "num_le0 (VBool b) = (\<not> b)"
| "num_le0 (VFloat (Finite r)) = (r \<le> 0)"
| "num_le0 (VFloat NegInf) = True"
| "num_le0 _ = False"

fun num_lt0 :: "pyval \<Rightarrow> bool" where
  "num_lt0 (VInt i) = (i < 0)"
| "num_lt0 (VFloat (Finite r)) = (r < 0)"
| "num_lt0 (VFloat NegInf) = True"
| "num_lt0 _ = False"

fun num_isfinite :: "pyval \<Rightarrow> bool" where
  "num_isfinite (VFloat f) = float_isfinite f"
| "num_isfinite _ = True"

text \<open>\<open>float(value)\<close> of a validated number, as an exact rational.\<close>

fun num_rat :: "pyval \<Rightarrow> rat" where
  "num_rat (VInt i) = of_int i"
| "num_rat (VBool b) = (if b then 1 else 0)"
| "num_rat (VFloat (Finite r)) = r"
| "num_rat _ = 0"

fun int_of :: "pyval \<Rightarrow> int" where
  "int_of (VInt i) = i"
| "int_of (VBool b) = (if b then 1 else 0)"
| "int_of _ = 0"

definition dict_sum :: "('v \<Rightarrow> int) \<Rightarrow> ('k, 'v) dict \<Rightarrow> int" where
  "dict_sum w d = sum_list (map (\<lambda>(k, v). w v) d)"

abbreviation dkeys :: "('k, 'v) dict \<Rightarrow> 'k list" where
  "dkeys d \<equiv> map fst d"

abbreviation wf_dict :: "('k, 'v) dict \<Rightarrow> bool" where
  "wf_dict d \<equiv> distinct (map fst d)"

subsection \<open>Literals\<close>

lemma lit_inject [simp]: "lit s = lit t \<longleftrightarrow> s = t"
proof -
  have "inj (of_char :: char \<Rightarrow> nat)"
    by (rule injI) simp
  then show ?thesis
    by (simp add: lit_def inj_map_eq_map)
qed

lemma length_lit [simp]: "length (lit s) = length s"
  by (simp add: lit_def)

lemma lit_append: "lit (s @ t) = lit s @ lit t"
  by (simp add: lit_def)

subsection \<open>Dictionaries\<close>

text \<open>Dictionaries are read through \<open>map_of\<close>; membership of pairs is rewritten towards it.\<close>

declare map_of_eq_Some_iff [simp del] Some_eq_map_of_iff [simp del]

lemma map_of_update [simp]: "map_of (AList.update k v d) = (map_of d)(k \<mapsto> v)"
  by (simp add: update_conv')

lemma map_of_delete [simp]: "map_of (AList.delete k d) = (map_of d)(k := None)"
  by (simp add: delete_conv')

lemma wf_dict_update [simp]: "wf_dict d \<Longrightarrow> wf_dict (AList.update k v d)"
  by (rule distinct_update)

lemma wf_dict_delete [simp]: "wf_dict d \<Longrightarrow> wf_dict (AList.delete k d)"
  by (rule distinct_delete)

lemma map_of_in_dict: "map_of d k = Some v \<Longrightarrow> (k, v) \<in> set d"
  by (rule map_of_SomeD)

lemma in_dict_map_of: "wf_dict d \<Longrightarrow> (k, v) \<in> set d \<longleftrightarrow> map_of d k = Some v"
  by (auto dest: map_of_SomeD)

lemma dict_ball:
  "wf_dict d \<Longrightarrow> (\<forall>(k, v) \<in> set d. P k v) \<longleftrightarrow> (\<forall>k v. map_of d k = Some v \<longrightarrow> P k v)"
  by (metis (mono_tags, lifting) case_prodD case_prodI2 map_of_SomeD map_of_is_SomeI)

lemma set_dkeys: "set (dkeys d) = dom (map_of d)"
  by (simp add: dom_map_of_conv_image_fst)

lemma dict_update_new: "map_of d k = None \<Longrightarrow> AList.update k v d = d @ [(k, v)]"
  by (induction d) (auto split: if_splits)

lemma dict_delete_absent: "map_of d k = None \<Longrightarrow> AList.delete k d = d"
  by (induction d) (auto split: if_splits)

lemma set_dict_update:
  "wf_dict d \<Longrightarrow> set (AList.update k v d) = {(k', v') \<in> set d. k' \<noteq> k} \<union> {(k, v)}"
  by (induction d) (force split: if_splits)+

lemma set_dict_delete:
  "set (AList.delete k d) = {(k', v') \<in> set d. k' \<noteq> k}"
  by (auto simp: AList.delete_eq)

lemma dict_sum_Nil [simp]: "dict_sum w [] = 0"
  by (simp add: dict_sum_def)

lemma dict_sum_Cons [simp]: "dict_sum w ((k, v) # d) = w v + dict_sum w d"
  by (simp add: dict_sum_def)

lemma dict_sum_append [simp]: "dict_sum w (d @ e) = dict_sum w d + dict_sum w e"
  by (simp add: dict_sum_def)

lemma dict_sum_delete [dict_simps]:
  "wf_dict d \<Longrightarrow> dict_sum w (AList.delete k d) =
     dict_sum w d - (case map_of d k of None \<Rightarrow> 0 | Some v \<Rightarrow> w v)"
proof (induction d)
  case (Cons p d)
  obtain k' v where p: "p = (k', v)" by (cases p)
  show ?case
  proof (cases "k' = k")
    case True
    with Cons.prems p have "map_of d k = None"
      by (auto simp: map_of_eq_None_iff)
    with True p show ?thesis by (simp add: dict_delete_absent)
  next
    case False
    with Cons p show ?thesis by simp
  qed
qed simp

lemma dict_sum_update [dict_simps]:
  "wf_dict d \<Longrightarrow> dict_sum w (AList.update k v d) =
     dict_sum w d + w v - (case map_of d k of None \<Rightarrow> 0 | Some v' \<Rightarrow> w v')"
proof (induction d)
  case (Cons p d)
  obtain k' v' where p: "p = (k', v')" by (cases p)
  then show ?case using Cons by (cases "k' = k") auto
qed simp

lemma dict_sum_zero: "(\<And>k v. (k, v) \<in> set d \<Longrightarrow> w v = 0) \<Longrightarrow> dict_sum w d = 0"
proof (induction d)
  case (Cons p d)
  obtain k v where p: "p = (k, v)" by (cases p)
  have "w v = 0" using Cons.prems p by auto
  moreover have "dict_sum w d = 0" by (rule Cons.IH) (use Cons.prems in auto)
  ultimately show ?case using p by simp
qed simp

lemma dict_sum_nonneg: "(\<And>k v. (k, v) \<in> set d \<Longrightarrow> 0 \<le> w v) \<Longrightarrow> 0 \<le> dict_sum w d"
proof (induction d)
  case (Cons p d)
  obtain k v where p: "p = (k, v)" by (cases p)
  have "0 \<le> w v" using Cons.prems p by auto
  moreover have "0 \<le> dict_sum w d" by (rule Cons.IH) (use Cons.prems in auto)
  ultimately show ?case using p by simp
qed simp

lemma dict_sum_member_le:
  "(\<And>k v. (k, v) \<in> set d \<Longrightarrow> 0 \<le> w v) \<Longrightarrow> (k, v) \<in> set d \<Longrightarrow> w v \<le> dict_sum w d"
proof (induction d)
  case (Cons p d)
  obtain k' v' where p: "p = (k', v')" by (cases p)
  have nn: "0 \<le> dict_sum w d"
    by (rule dict_sum_nonneg) (use Cons.prems(1) in auto)
  have "0 \<le> w v'" using Cons.prems(1) p by auto
  then show ?case using Cons nn p by fastforce
qed simp

lemma length_dict_update: "length (AList.update k v d) = (if map_of d k = None then Suc (length d) else length d)"
  by (induction d) auto

lemma length_dict_delete: "length (AList.delete k d) \<le> length d"
  by (simp add: AList.delete_eq)

lemma dict_update_same: "map_of d k = Some v \<Longrightarrow> AList.update k v d = d"
  by (induction d) (auto split: if_splits)

lemma dict_update_update: "AList.update k v (AList.update k w d) = AList.update k v d"
  by (induction d) auto

lemma dict_delete_update: "AList.delete k (AList.update k v d) = AList.delete k d"
  by (induction d) auto

lemma dict_sum_dom:
  "wf_dict d \<Longrightarrow> dict_sum w d = (\<Sum>k \<in> dom (map_of d). w (the (map_of d k)))"
proof (induction d)
  case (Cons kv d)
  obtain k v where kv: "kv = (k, v)" by (cases kv)
  have fresh: "k \<notin> dom (map_of d)"
    using Cons.prems kv by (simp add: dom_map_of_conv_image_fst)
  have dom: "dom (map_of (kv # d)) = insert k (dom (map_of d))"
    using kv by auto
  have "(\<Sum>x \<in> dom (map_of (kv # d)). w (the (map_of (kv # d) x))) =
      w v + (\<Sum>x \<in> dom (map_of d). w (the (map_of (kv # d) x)))"
    unfolding dom using fresh kv by (simp add: finite_dom_map_of)
  also have "(\<Sum>x \<in> dom (map_of d). w (the (map_of (kv # d) x))) = dict_sum w d"
    using Cons fresh kv by (auto intro!: sum.cong)
  finally show ?case using kv by simp
qed simp

subsection \<open>Evaluation\<close>

text \<open>Heap updates are evaluated at the reference that is read, not under the function.\<close>

lemma fun_upd_eval [code]: "(f(a := v)) x = (if x = a then v else f x)"
  by simp

declare fun_upd_def [code del]

subsection \<open>Step functions\<close>

text \<open>A component that reacts to events one at a time keeps over every run what each of its steps keeps.\<close>

locale stepwise =
  fixes step :: "'event \<Rightarrow> 'state \<Rightarrow> 'state" and kept :: "'state \<Rightarrow> bool"
  assumes step_kept: "kept s \<Longrightarrow> kept (step ev s)"
begin

lemma run_kept: "kept s \<Longrightarrow> kept (fold step evs s)"
  by (induction evs arbitrary: s) (simp_all add: step_kept)

end

end
