(* ===== verification/Heapq.thy ===== *)
theory Heapq
  imports Prelude
begin

text \<open>
  Python's \<open>heapq\<close> as the standard library implements it on a plain list: \<open>_siftdown\<close> moves an
  item towards the root, \<open>_siftup\<close> bubbles the smaller child up to a leaf and then sifts the item
  down again.  The scheduler keeps its priorities in such a list, and \<open>queue.PriorityQueue\<close>
  (the pool's backlog) is one.  The locale \<open>min_heap\<close> is what those clients rely on: the item at
  index 0 is a least one, and the other operations change the multiset of items as documented.
\<close>

definition parent :: "nat \<Rightarrow> nat" where
  "parent p = (p - 1) div 2"

function siftdown_loop :: "'a::linorder list \<Rightarrow> nat \<Rightarrow> nat \<Rightarrow> 'a \<Rightarrow> 'a list" where
  "siftdown_loop h s p x =
     (if s < p \<and> x < h ! parent p
      then siftdown_loop (h[p := h ! parent p]) s (parent p) x
      else h[p := x])"
  by pat_completeness auto
termination
  by (relation "measure (\<lambda>(h, s, p, x). p)") (auto simp: parent_def)

definition siftdown :: "'a::linorder list \<Rightarrow> nat \<Rightarrow> nat \<Rightarrow> 'a list" where
  "siftdown h s p = siftdown_loop h s p (h ! p)"

text \<open>The child \<open>_siftup\<close> moves up: the right one unless the left one is smaller.\<close>

definition small_child :: "'a::linorder list \<Rightarrow> nat \<Rightarrow> nat" where
  "small_child h p =
     (let c = 2 * p + 1 in
      if c + 1 < length h \<and> \<not> h ! c < h ! (c + 1) then c + 1 else c)"

function siftup_loop :: "'a::linorder list \<Rightarrow> nat \<Rightarrow> 'a list \<times> nat" where
  "siftup_loop h p =
     (if 2 * p + 1 < length h
      then siftup_loop (h[p := h ! small_child h p]) (small_child h p)
      else (h, p))"
  by pat_completeness auto
termination
  by (relation "measure (\<lambda>(h, p). length h - p)") (auto simp: small_child_def Let_def)

definition siftup :: "'a::linorder list \<Rightarrow> nat \<Rightarrow> 'a list" where
  "siftup h p = (let x = h ! p; (h', q) = siftup_loop h p in siftdown_loop (h'[q := x]) p q x)"

definition heappush :: "'a::linorder list \<Rightarrow> 'a \<Rightarrow> 'a list" where
  "heappush h x = siftdown (h @ [x]) 0 (length h)"

text \<open>\<open>heap.pop()\<close> on an empty list raises \<open>IndexError\<close>.\<close>

definition heappop :: "'a::linorder list \<Rightarrow> ('a \<times> 'a list) result" where
  "heappop h =
     (if h = [] then Inl (IndexError ''pop from empty list'')
      else let lastelt = last h; rest = butlast h in
        if rest = [] then Inr (lastelt, [])
        else Inr (rest ! 0, siftup (rest[0 := lastelt]) 0))"

fun heapify_loop :: "'a::linorder list \<Rightarrow> nat \<Rightarrow> 'a list" where
  "heapify_loop h 0 = h"
| "heapify_loop h (Suc i) = heapify_loop (siftup h i) i"

definition heapify :: "'a::linorder list \<Rightarrow> 'a list" where
  "heapify h = heapify_loop h (length h div 2)"

text \<open>\<open>heap_from s\<close>: every edge whose upper end is at index \<open>s\<close> or beyond is in order.\<close>

definition heap_from :: "nat \<Rightarrow> 'a::linorder list \<Rightarrow> bool" where
  "heap_from s h \<longleftrightarrow> (\<forall>i < length h. 0 < i \<longrightarrow> s \<le> parent i \<longrightarrow> h ! parent i \<le> h ! i)"

abbreviation is_heap :: "'a::linorder list \<Rightarrow> bool" where
  "is_heap h \<equiv> heap_from 0 h"

declare siftdown_loop.simps [simp del] siftup_loop.simps [simp del]

text \<open>\<open>below s p\<close>: index \<open>p\<close> lies in the subtree rooted at \<open>s\<close>.\<close>

inductive below :: "nat \<Rightarrow> nat \<Rightarrow> bool" where
  below_refl: "below s s"
| below_step: "below s (parent c) \<Longrightarrow> 0 < c \<Longrightarrow> below s c"

text \<open>
  The state of both loops: position \<open>p\<close> is a hole, every other edge below \<open>s\<close> is in order, and
  the parent of the hole is no larger than the hole's children.
\<close>

definition hole :: "nat \<Rightarrow> nat \<Rightarrow> 'a::linorder list \<Rightarrow> bool" where
  "hole s p h \<longleftrightarrow> p < length h \<and> below s p \<and>
     (\<forall>i < length h. 0 < i \<longrightarrow> s \<le> parent i \<longrightarrow> i \<noteq> p \<longrightarrow>
        (if parent i = p then s < p \<longrightarrow> h ! parent p \<le> h ! i else h ! parent i \<le> h ! i))"

subsection \<open>Positions\<close>

lemma parent_less: "0 < p \<Longrightarrow> parent p < p"
  by (simp add: parent_def)

lemma parent_child: "parent (2 * p + 1) = p" "parent (2 * p + 2) = p"
  by (simp_all add: parent_def)

lemma child_cases: "0 < i \<Longrightarrow> parent i = p \<longleftrightarrow> i = 2 * p + 1 \<or> i = 2 * p + 2"
  by (auto simp: parent_def)

lemma below_le: "below s p \<Longrightarrow> s \<le> p"
  by (induction rule: below.induct) (auto dest: parent_less)

lemma below_up: "below s p \<Longrightarrow> s < p \<Longrightarrow> 0 < p \<and> below s (parent p) \<and> s \<le> parent p"
  by (cases rule: below.cases) (auto dest: below_le)

lemma small_child:
  assumes "2 * p + 1 < length h"
  shows "small_child h p < length h" "0 < small_child h p" "parent (small_child h p) = p"
    and "\<And>i. 0 < i \<Longrightarrow> i < length h \<Longrightarrow> parent i = p \<Longrightarrow> h ! small_child h p \<le> h ! i"
  using assms by (auto simp: small_child_def Let_def parent_child child_cases not_less)

subsection \<open>The items are permuted\<close>

lemma mset_move_hole:
  "p < length h \<Longrightarrow> q < length h \<Longrightarrow> p \<noteq> q \<Longrightarrow> mset (h[p := h ! q, q := x]) = mset (h[p := x])"
  using mset_swap [of q "h[p := x]" p] by (simp add: list_update_swap)

lemma length_siftdown_loop [simp]: "length (siftdown_loop h s p x) = length h"
  by (induction h s p x rule: siftdown_loop.induct) (subst siftdown_loop.simps, simp)

lemma mset_siftdown_loop:
  "p < length h \<Longrightarrow> mset (siftdown_loop h s p x) = mset (h[p := x])"
proof (induction h s p x rule: siftdown_loop.induct)
  case (1 h s p x)
  show ?case
  proof (cases "s < p \<and> x < h ! parent p")
    case True
    then have "parent p < p" by (auto intro: parent_less)
    with 1 True show ?thesis
      by (subst siftdown_loop.simps) (simp add: mset_move_hole)
  next
    case False
    then show ?thesis by (subst siftdown_loop.simps) auto
  qed
qed

lemma siftup_loop_perm:
  "p < length h \<Longrightarrow> siftup_loop h p = (h', q) \<Longrightarrow>
     length h' = length h \<and> q < length h \<and> mset (h'[q := x]) = mset (h[p := x])"
proof (induction h p rule: siftup_loop.induct)
  case (1 h p)
  show ?case
  proof (cases "2 * p + 1 < length h")
    case True
    have c: "small_child h p < length h" "p \<noteq> small_child h p"
      using small_child [OF True] parent_less [of "small_child h p"] by auto
    have "siftup_loop (h[p := h ! small_child h p]) (small_child h p) = (h', q)"
      using 1(3) True by (simp add: siftup_loop.simps [of h p])
    then show ?thesis
      using "1.IH" [OF True] c 1(2) by (simp add: mset_move_hole)
  next
    case False
    then show ?thesis using 1(2,3) by (auto simp: siftup_loop.simps [of h p])
  qed
qed

lemma siftup_perm:
  assumes "p < length h"
  shows "mset (siftup h p) = mset h" "length (siftup h p) = length h"
proof -
  obtain h' q where l: "siftup_loop h p = (h', q)" by (cases "siftup_loop h p")
  from siftup_loop_perm [OF assms l, of "h ! p"]
  show "mset (siftup h p) = mset h" "length (siftup h p) = length h"
    by (simp_all add: siftup_def l Let_def mset_siftdown_loop)
qed

subsection \<open>The heap property\<close>

lemma siftdown_loop_heap:
  assumes "hole s p h" and "\<And>i. 0 < i \<Longrightarrow> i < length h \<Longrightarrow> parent i = p \<Longrightarrow> x \<le> h ! i"
  shows "heap_from s (siftdown_loop h s p x)"
  using assms
proof (induction h s p x rule: siftdown_loop.induct)
  case (1 h s p x)
  have p: "p < length h" "below s p" using 1(2) by (auto simp: hole_def)
  have edge: "\<And>i. \<lbrakk>i < length h; 0 < i; s \<le> parent i; i \<noteq> p; parent i \<noteq> p\<rbrakk> \<Longrightarrow> h ! parent i \<le> h ! i"
    and kids: "\<And>i. \<lbrakk>i < length h; 0 < i; parent i = p; s < p\<rbrakk> \<Longrightarrow> h ! parent p \<le> h ! i"
    using 1(2) parent_less by (fastforce simp: hole_def)+
  show ?case
  proof (cases "s < p \<and> x < h ! parent p")
    case True
    define q where "q = parent p"
    have q: "parent p = q" "q < p" "below s q" "s \<le> q" "0 < p"
      using below_up [OF p(2)] True parent_less by (auto simp: q_def)
    have qe: "h ! parent q \<le> h ! q" if "s < q"
      using edge [of q] below_up [OF q(3) that] q p parent_less [of q] by auto
    have "hole s q (h[p := h ! q])"
      unfolding hole_def
    proof (intro conjI allI impI)
      fix i assume i: "i < length (h[p := h ! q])" "0 < i" "s \<le> parent i" "i \<noteq> q"
      show "if parent i = q then s < q \<longrightarrow> h[p := h ! q] ! parent q \<le> h[p := h ! q] ! i
            else h[p := h ! q] ! parent i \<le> h[p := h ! q] ! i"
        using i q p qe edge [of i] kids [of i] True parent_less [of i] parent_less [of q]
        by (auto simp: nth_list_update intro: order_trans)
    qed (use q p in auto)
    moreover have "x \<le> h[p := h ! q] ! i" if "0 < i" "i < length h" "parent i = q" for i
      using that True edge [of i] q p by (auto simp: nth_list_update)
    ultimately have "heap_from s (siftdown_loop (h[p := h ! q]) s q x)"
      using "1.IH" True by (simp add: q_def)
    with True show ?thesis by (subst siftdown_loop.simps) (simp add: q_def)
  next
    case False
    have "heap_from s (h[p := x])"
      unfolding heap_from_def
    proof (intro allI impI)
      fix i assume i: "i < length (h[p := x])" "0 < i" "s \<le> parent i"
      show "h[p := x] ! parent i \<le> h[p := x] ! i"
        using i p False edge [of i] 1(3) [of i] below_le [OF p(2)] parent_less [of i]
        by (auto simp: nth_list_update not_less)
    qed
    with False show ?thesis by (subst siftdown_loop.simps) auto
  qed
qed

lemma siftup_loop_hole:
  "hole s p h \<Longrightarrow> siftup_loop h p = (h', q) \<Longrightarrow> hole s q h' \<and> length h' \<le> 2 * q + 1"
proof (induction h p rule: siftup_loop.induct)
  case (1 h p)
  have p: "p < length h" "below s p" using 1(2) by (auto simp: hole_def)
  have edge: "\<And>i. \<lbrakk>i < length h; 0 < i; s \<le> parent i; i \<noteq> p; parent i \<noteq> p\<rbrakk> \<Longrightarrow> h ! parent i \<le> h ! i"
    and kids: "\<And>i. \<lbrakk>i < length h; 0 < i; parent i = p; s < p\<rbrakk> \<Longrightarrow> h ! parent p \<le> h ! i"
    using 1(2) parent_less below_le [OF p(2)] by (fastforce simp: hole_def)+
  show ?case
  proof (cases "2 * p + 1 < length h")
    case True
    define c where "c = small_child h p"
    have c: "c < length h" "0 < c" "parent c = p" "p < c"
      using small_child(1-3) [OF True] parent_less [of c] by (auto simp: c_def)
    have least: "\<And>i. 0 < i \<Longrightarrow> i < length h \<Longrightarrow> parent i = p \<Longrightarrow> h ! c \<le> h ! i"
      using small_child(4) [OF True] by (simp add: c_def)
    have "below s c"
      by (rule below_step) (use c p in auto)
    have "hole s c (h[p := h ! c])"
      unfolding hole_def
    proof (intro conjI allI impI)
      fix i assume i: "i < length (h[p := h ! c])" "0 < i" "s \<le> parent i" "i \<noteq> c"
      show "if parent i = c then s < c \<longrightarrow> h[p := h ! c] ! parent c \<le> h[p := h ! c] ! i
            else h[p := h ! c] ! parent i \<le> h[p := h ! c] ! i"
        using i c p edge [of i] kids [of c] least [of i] parent_less [of i]
        by (auto simp: nth_list_update)
    qed (use c \<open>below s c\<close> in auto)
    moreover have "siftup_loop (h[p := h ! c]) c = (h', q)"
      using 1(3) True by (simp add: siftup_loop.simps [of h p] c_def)
    ultimately show ?thesis
      using "1.IH" True by (simp add: c_def)
  next
    case False
    then show ?thesis using 1(2,3) by (auto simp: siftup_loop.simps [of h p])
  qed
qed

lemma hole_update [simp]: "hole s p (h[p := x]) = hole s p h"
proof -
  have "p \<noteq> parent p" if "s < p"
    using parent_less [of p] that by simp
  then show ?thesis
    unfolding hole_def by (intro conj_cong all_cong imp_cong) auto
qed

lemma siftup_heap:
  assumes "heap_from (Suc s) h" and "s < length h"
  shows "heap_from s (siftup h s)"
proof -
  obtain h' q where l: "siftup_loop h s = (h', q)" by (cases "siftup_loop h s")
  have "hole s s h"
    using assms by (auto simp: hole_def heap_from_def intro: below_refl)
  from siftup_loop_hole [OF this l]
  have h': "hole s q (h'[q := h ! s])" and leaf: "length h' \<le> 2 * q + 1" by auto
  have "heap_from s (siftdown_loop (h'[q := h ! s]) s q (h ! s))"
    by (rule siftdown_loop_heap [OF h']) (use leaf in \<open>auto simp: child_cases\<close>)
  then show ?thesis by (simp add: siftup_def l Let_def)
qed

lemma heapify_loop_heap:
  "heap_from k h \<Longrightarrow> k \<le> length h \<Longrightarrow>
     is_heap (heapify_loop h k) \<and> mset (heapify_loop h k) = mset h"
proof (induction k arbitrary: h)
  case (Suc k)
  have "heap_from k (siftup h k)"
    using Suc.prems by (auto intro: siftup_heap)
  then show ?case
    using Suc.IH [of "siftup h k"] Suc.prems by (simp add: siftup_perm)
qed simp

lemma heap_root_le: "is_heap h \<Longrightarrow> i < length h \<Longrightarrow> h ! 0 \<le> h ! i"
proof (induction i rule: less_induct)
  case (less i)
  show ?case
  proof (cases "i = 0")
    case False
    then have "parent i < i" by (simp add: parent_less)
    then have "h ! 0 \<le> h ! parent i" using less by simp
    also have "\<dots> \<le> h ! i" using less.prems False by (simp add: heap_from_def)
    finally show ?thesis .
  qed simp
qed

subsection \<open>The contract of the module\<close>

text \<open>
  What \<open>FairScheduler\<close> and \<open>PriorityQueue\<close> use: the list \<open>h\<close> represents the multiset of its
  items, its first element is a least one, and every operation keeps it a heap.
\<close>

locale min_heap =
  fixes good :: "'a::linorder list \<Rightarrow> bool"
    and push :: "'a list \<Rightarrow> 'a \<Rightarrow> 'a list"
    and popmin :: "'a list \<Rightarrow> ('a \<times> 'a list) result"
    and rebuild :: "'a list \<Rightarrow> 'a list"
  assumes good_Nil: "good []"
    and good_least: "good h \<Longrightarrow> x \<in> set h \<Longrightarrow> h ! 0 \<le> x"
    and push_good: "good h \<Longrightarrow> good (push h x)"
    and mset_push: "mset (push h x) = add_mset x (mset h)"
    and pop_Nil: "popmin [] = Inl (IndexError ''pop from empty list'')"
    and pop_good: "good h \<Longrightarrow> h \<noteq> [] \<Longrightarrow>
          \<exists>h'. popmin h = Inr (h ! 0, h') \<and> good h' \<and> mset h = add_mset (h ! 0) (mset h')"
    and rebuild_good: "good (rebuild h)"
    and mset_rebuild: "mset (rebuild h) = mset h"
begin

lemma push_nonempty: "push h x \<noteq> []"
  using mset_push [of h x] by (metis add_mset_not_empty mset.simps(1))

text \<open>The index-0 element is the minimum of the multiset: a heap is a priority queue.\<close>

lemma root_eq_Min: "good h \<Longrightarrow> h \<noteq> [] \<Longrightarrow> h ! 0 = Min (set h)"
  by (rule Min_eqI [symmetric]) (auto intro: good_least)

lemma root_push: "good h \<Longrightarrow> push h x ! 0 = Min (insert x (set h))"
  using root_eq_Min [OF push_good push_nonempty, of h x] mset_push [of h x]
  by (metis mset_push set_mset_add_mset_insert set_mset_mset)

end

lemma below_root: "below 0 n"
proof (induction n rule: less_induct)
  case (less n)
  show ?case
    using less [of "parent n"] by (cases "n = 0") (auto intro: below.intros parent_less)
qed

lemma heappush_heap:
  assumes "is_heap h"
  shows "is_heap (heappush h x)"
proof -
  have "hole 0 (length h) (h @ [x])"
    unfolding hole_def
  proof (intro conjI allI impI)
    fix i assume "i < length (h @ [x])" "0 < i" "i \<noteq> length h"
    then have i: "i < length h" "parent i < length h" "0 < i"
      using parent_less [of i] by auto
    then show "if parent i = length h
        then 0 < length h \<longrightarrow> (h @ [x]) ! parent (length h) \<le> (h @ [x]) ! i
        else (h @ [x]) ! parent i \<le> (h @ [x]) ! i"
      using assms by (simp add: nth_append heap_from_def)
  qed (auto intro: below_root)
  then have "is_heap (siftdown_loop (h @ [x]) 0 (length h) x)"
    by (rule siftdown_loop_heap) (auto simp: child_cases)
  then show ?thesis by (simp add: heappush_def siftdown_def)
qed

lemma mset_heappush: "mset (heappush h x) = add_mset x (mset h)"
  by (simp add: heappush_def siftdown_def mset_siftdown_loop)

lemma heappop_heap:
  assumes "is_heap h" and "h \<noteq> []"
  shows "\<exists>h'. heappop h = Inr (h ! 0, h') \<and> is_heap h' \<and> mset h = add_mset (h ! 0) (mset h')"
proof (cases "butlast h = []")
  case True
  with assms(2) obtain x where "h = [x]"
    by (metis append_butlast_last_id append_Nil)
  then show ?thesis by (simp add: heappop_def heap_from_def)
next
  case False
  then obtain a bs where "butlast h = a # bs" by (cases "butlast h") auto
  then obtain l where h: "h = a # bs @ [l]"
    using assms(2) by (metis append_Cons append_butlast_last_id)
  define r where "r = l # bs"
  have nth_r: "r ! i = h ! i" if "0 < i" "i < length r" for i
    using that by (cases i) (auto simp: h r_def nth_append)
  have "heap_from (Suc 0) r"
    unfolding heap_from_def
  proof (intro allI impI)
    fix i assume i: "i < length r" "0 < i" "Suc 0 \<le> parent i"
    then have "i < length h" by (simp add: h r_def)
    then have "h ! parent i \<le> h ! i"
      using assms(1) i unfolding heap_from_def by blast
    then show "r ! parent i \<le> r ! i"
      using i parent_less [of i] nth_r by simp
  qed
  then have "is_heap (siftup r 0)" by (rule siftup_heap) (simp add: r_def)
  then show ?thesis by (simp add: heappop_def h r_def siftup_perm)
qed

lemma heapify_heap: "is_heap (heapify h)" "mset (heapify h) = mset h"
proof -
  have "heap_from (length h div 2) h"
    by (auto simp: heap_from_def parent_def)
  from heapify_loop_heap [OF this] show "is_heap (heapify h)" "mset (heapify h) = mset h"
    by (simp_all add: heapify_def)
qed

interpretation hq: min_heap is_heap heappush heappop heapify
proof unfold_locales
  show "is_heap []" by (simp add: heap_from_def)
  show "h ! 0 \<le> x" if "is_heap h" "x \<in> set h" for h and x :: 'a
    using that heap_root_le by (auto simp: in_set_conv_nth)
  show "heappop [] = Inl (IndexError ''pop from empty list'')" by (simp add: heappop_def)
qed (auto intro: heappush_heap heappop_heap heapify_heap simp: mset_heappush heapify_heap)

end
