(* ===== verification/Scheduler.thy ===== *)
theory Scheduler
  imports Heapq
begin

text \<open>
  \<open>deadpool/remote/_scheduler.py\<close>: the broker's \<open>FairScheduler\<close>.  A bucket (\<open>_Priority\<close>) holds
  the principals of one numeric priority in round-robin order and one FIFO queue per principal;
  the scheduler holds the buckets by priority, a heap of the priorities and a size counter.

  The abstract view of a scheduler is \<open>rotation s\<close>: for every priority the list of
  \<open>(principal, queue)\<close> pairs in the order in which they will be served.  The locale
  \<open>fair_queue\<close> states what the broker relies on in terms of that view; strict priority, bounded
  waiting and exactly-once draining are proved once inside it and reach the code's model
  through the interpretation \<open>fs\<close>.
\<close>

record 'a bucket =
  principals :: "pystr list"
  queued :: "(pystr, 'a list) dict"

record 'a fair_scheduler =
  priorities :: "(int, 'a bucket) dict"
  prio_heap :: "int list"
  sched_size :: int

definition empty_bucket :: "'a bucket" where
  "empty_bucket = \<lparr>principals = [], queued = []\<rparr>"

definition sched_init :: "'a fair_scheduler" where
  "sched_init = \<lparr>priorities = [], prio_heap = [], sched_size = 0\<rparr>"

text \<open>\<open>bucket.queued[principal]\<close> on a \<open>defaultdict(deque)\<close>: an absent key reads as an empty deque.\<close>

definition queue_of :: "'a bucket \<Rightarrow> pystr \<Rightarrow> 'a list" where
  "queue_of b who = (case map_of (queued b) who of None \<Rightarrow> [] | Some q \<Rightarrow> q)"

definition enqueue :: "bool \<Rightarrow> 'a \<Rightarrow> 'a list \<Rightarrow> 'a list" where
  "enqueue front item q = (if front then item # q else q @ [item])"

definition bucket_put :: "bool \<Rightarrow> 'a \<Rightarrow> pystr \<Rightarrow> 'a bucket \<Rightarrow> 'a bucket" where
  "bucket_put front item who b =
     b\<lparr>principals := (if queue_of b who = [] then principals b @ [who] else principals b),
       queued := AList.update who (enqueue front item (queue_of b who)) (queued b)\<rparr>"

definition sched_put_at :: "bool \<Rightarrow> 'a \<Rightarrow> int \<Rightarrow> pystr \<Rightarrow> 'a fair_scheduler \<Rightarrow> 'a fair_scheduler" where
  "sched_put_at front item prio who s =
     (case map_of (priorities s) prio of
        None \<Rightarrow>
          s\<lparr>priorities := AList.update prio (bucket_put front item who empty_bucket) (priorities s),
            prio_heap := heappush (prio_heap s) prio,
            sched_size := sched_size s + 1\<rparr>
      | Some b \<Rightarrow>
          s\<lparr>priorities := AList.update prio (bucket_put front item who b) (priorities s),
            sched_size := sched_size s + 1\<rparr>)"

definition sched_put :: "'a \<Rightarrow> int \<Rightarrow> pystr \<Rightarrow> 'a fair_scheduler \<Rightarrow> 'a fair_scheduler" where
  "sched_put item prio who s = sched_put_at False item prio who s"

definition sched_put_front :: "'a \<Rightarrow> int \<Rightarrow> pystr \<Rightarrow> 'a fair_scheduler \<Rightarrow> 'a fair_scheduler" where
  "sched_put_front item prio who s = sched_put_at True item prio who s"

text \<open>
  What \<open>pop\<close> leaves of a bucket after taking the head of the queue of its first principal: the
  principal moves to the back of the rotation while it has more work, and leaves it otherwise.
\<close>

definition bucket_pop :: "pystr \<Rightarrow> pystr list \<Rightarrow> 'a list \<Rightarrow> 'a bucket \<Rightarrow> 'a bucket" where
  "bucket_pop who others q b =
     (if q \<noteq> [] then b\<lparr>principals := others @ [who], queued := AList.update who q (queued b)\<rparr>
      else b\<lparr>principals := others, queued := AList.delete who (queued b)\<rparr>)"

text \<open>
  \<open>pop\<close>, with the exception each read would raise in a state where it fails: an empty heap, a
  missing bucket, an empty rotation, an empty queue.  The invariant below excludes all but the
  first test.
\<close>

definition sched_pop :: "'a fair_scheduler \<Rightarrow> ('a \<times> 'a fair_scheduler) result" where
  "sched_pop s =
     (if sched_size s = 0 then Inl (IndexError ''scheduler is empty'')
      else case prio_heap s of
        [] \<Rightarrow> Inl (IndexError ''list index out of range'')
      | prio # _ \<Rightarrow>
        (case map_of (priorities s) prio of
           None \<Rightarrow> Inl KeyError
         | Some b \<Rightarrow>
           (case principals b of
              [] \<Rightarrow> Inl (IndexError ''pop from an empty deque'')
            | who # others \<Rightarrow>
              (case queue_of b who of
                 [] \<Rightarrow> Inl (IndexError ''pop from an empty deque'')
               | item # q \<Rightarrow>
                 let b' = bucket_pop who others q b;
                     s' = s\<lparr>priorities := AList.update prio b' (priorities s),
                            sched_size := sched_size s - 1\<rparr>
                 in if principals b' = []
                    then (case heappop (prio_heap s') of
                            Inl e \<Rightarrow> Inl e
                          | Inr (_, h) \<Rightarrow>
                              Inr (item, s'\<lparr>prio_heap := h,
                                             priorities := AList.delete prio (priorities s')\<rparr>))
                    else Inr (item, s')))))"

text \<open>
  \<open>remove\<close>: the two nested loops return at the first queue that holds the item
  (\<open>deque.remove\<close> drops its first occurrence).
\<close>

fun find_queue :: "'a \<Rightarrow> (pystr, 'a list) dict \<Rightarrow> (pystr \<times> 'a list) option" where
  "find_queue item [] = None"
| "find_queue item ((who, q) # rest) =
     (if item \<in> set q then Some (who, remove1 item q) else find_queue item rest)"

fun find_bucket :: "'a \<Rightarrow> (int, 'a bucket) dict \<Rightarrow> (int \<times> 'a bucket \<times> pystr \<times> 'a list) option" where
  "find_bucket item [] = None"
| "find_bucket item ((prio, b) # rest) =
     (case find_queue item (queued b) of
        None \<Rightarrow> find_bucket item rest
      | Some (who, q) \<Rightarrow> Some (prio, b, who, q))"

definition bucket_drop :: "pystr \<Rightarrow> 'a list \<Rightarrow> 'a bucket \<Rightarrow> 'a bucket" where
  "bucket_drop who q b =
     (if q = []
      then b\<lparr>queued := AList.delete who (queued b), principals := remove1 who (principals b)\<rparr>
      else b\<lparr>queued := AList.update who q (queued b)\<rparr>)"

definition sched_remove :: "'a \<Rightarrow> 'a fair_scheduler \<Rightarrow> (bool \<times> 'a fair_scheduler) result" where
  "sched_remove item s =
     (case find_bucket item (priorities s) of
        None \<Rightarrow> Inr (False, s)
      | Some (prio, b, who, q) \<Rightarrow>
          let b' = bucket_drop who q b;
              s' = s\<lparr>priorities := AList.update prio b' (priorities s),
                     sched_size := sched_size s - 1\<rparr>
          in if principals b' = []
             then (if prio \<in> set (prio_heap s)
                   then Inr (True, s'\<lparr>priorities := AList.delete prio (priorities s'),
                                      prio_heap := heapify (remove1 prio (prio_heap s'))\<rparr>)
                   else Inl (ValueError ''list.remove(x): x not in list''))
             else Inr (True, s'))"

definition sched_bool :: "'a fair_scheduler \<Rightarrow> bool" where
  "sched_bool s = (sched_size s \<noteq> 0)"

definition sched_len :: "'a fair_scheduler \<Rightarrow> int" where
  "sched_len s = sched_size s"

subsection \<open>Abstract view and invariant\<close>

definition bucket_view :: "'a bucket \<Rightarrow> (pystr \<times> 'a list) list" where
  "bucket_view b = map (\<lambda>who. (who, queue_of b who)) (principals b)"

definition rotation :: "'a fair_scheduler \<Rightarrow> int \<Rightarrow> (pystr \<times> 'a list) list" where
  "rotation s prio = (case map_of (priorities s) prio of None \<Rightarrow> [] | Some b \<Rightarrow> bucket_view b)"

text \<open>
  A weight \<open>w\<close> on items adds up over a bucket and over the scheduler: with \<open>w = 1\<close> it is the
  number of queued items, with the indicator of one item it is that item's multiplicity.
\<close>

definition bucket_weight :: "('a \<Rightarrow> int) \<Rightarrow> 'a bucket \<Rightarrow> int" where
  "bucket_weight w b = dict_sum (\<lambda>q. sum_list (map w q)) (queued b)"

definition sched_weight :: "('a \<Rightarrow> int) \<Rightarrow> 'a fair_scheduler \<Rightarrow> int" where
  "sched_weight w s = dict_sum (bucket_weight w) (priorities s)"

definition sched_count :: "'a \<Rightarrow> 'a fair_scheduler \<Rightarrow> int" where
  "sched_count x s = sched_weight (\<lambda>y. if y = x then 1 else 0) s"

definition bucket_ok :: "'a bucket \<Rightarrow> bool" where
  "bucket_ok b \<longleftrightarrow>
     wf_dict (queued b) \<and> distinct (principals b) \<and>
     set (principals b) = set (dkeys (queued b)) \<and>
     (\<forall>(who, q) \<in> set (queued b). q \<noteq> [])"

definition sched_inv :: "'a fair_scheduler \<Rightarrow> bool" where
  "sched_inv s \<longleftrightarrow>
     wf_dict (priorities s) \<and>
     is_heap (prio_heap s) \<and> mset (prio_heap s) = mset (dkeys (priorities s)) \<and>
     (\<forall>(prio, b) \<in> set (priorities s). bucket_ok b \<and> principals b \<noteq> []) \<and>
     sched_size s = sched_weight (\<lambda>_. 1) s"

subsection \<open>Buckets\<close>

lemma update_map_keys:
  "distinct ks \<Longrightarrow> AList.update k v (map (\<lambda>k. (k, f k)) ks) =
     (if k \<in> set ks then map (\<lambda>k'. (k', (f(k := v)) k')) ks
      else map (\<lambda>k. (k, f k)) ks @ [(k, v)])"
  by (induction ks) auto

lemma empty_bucket_ok [simp]: "bucket_ok empty_bucket" "bucket_weight w empty_bucket = 0"
  "bucket_view empty_bucket = []"
  by (simp_all add: bucket_ok_def empty_bucket_def bucket_weight_def bucket_view_def)

lemma bucket_ok_map:
  "bucket_ok b \<longleftrightarrow>
     wf_dict (queued b) \<and> distinct (principals b) \<and>
     set (principals b) = dom (map_of (queued b)) \<and>
     (\<forall>who q. map_of (queued b) who = Some q \<longrightarrow> q \<noteq> [])"
proof (cases "wf_dict (queued b)")
  case True
  then show ?thesis
    by (simp only: bucket_ok_def set_dkeys dict_ball)
qed (simp add: bucket_ok_def)

lemma queue_of_empty: "bucket_ok b \<Longrightarrow> queue_of b who = [] \<longleftrightarrow> who \<notin> set (principals b)"
  by (auto simp: bucket_ok_map queue_of_def split: option.splits)

lemma enqueue_simps [simp]: "enqueue f x q \<noteq> []" "length (enqueue f x q) = Suc (length q)"
  "mset (enqueue f x q) = add_mset x (mset q)"
  by (simp_all add: enqueue_def)

lemma bucket_put_ok:
  assumes "bucket_ok b"
  shows "bucket_ok (bucket_put front x who b)"
proof (cases "who \<in> set (principals b)")
  case True
  with assms show ?thesis
    using queue_of_empty [OF assms, of who]
    by (auto simp: bucket_ok_map bucket_put_def)
next
  case False
  with assms show ?thesis
    using queue_of_empty [OF assms, of who]
    by (auto simp: bucket_ok_map bucket_put_def)
qed

lemma bucket_put_nonempty: "bucket_ok b \<Longrightarrow> principals (bucket_put front x who b) \<noteq> []"
  using queue_of_empty [of b who] by (auto simp: bucket_put_def)

lemma queue_of_put [simp]:
  "queue_of (bucket_put front x who b) =
     (queue_of b)(who := enqueue front x (queue_of b who))"
  by (auto simp: queue_of_def bucket_put_def fun_eq_iff)

lemma bucket_put_view:
  assumes "bucket_ok b"
  shows "bucket_view (bucket_put front x who b) =
    AList.update who (enqueue front x (queue_of b who)) (bucket_view b)"
proof -
  have "distinct (principals b)" using assms by (simp add: bucket_ok_def)
  then show ?thesis
    using queue_of_empty [OF assms, of who]
    by (auto simp: bucket_view_def update_map_keys)
      (auto simp: bucket_put_def)
qed

lemma bucket_put_weight:
  "bucket_ok b \<Longrightarrow> bucket_weight w (bucket_put front x who b) = bucket_weight w b + w x"
  by (auto simp: bucket_weight_def bucket_put_def dict_simps bucket_ok_def queue_of_def enqueue_def
      split: option.splits)

lemma bucket_pop_ok:
  assumes "bucket_ok b" and "principals b = who # others"
  shows "bucket_ok (bucket_pop who others q b)"
  using assms by (auto simp: bucket_ok_map bucket_pop_def)

lemma queue_of_pop:
  "queue_of (bucket_pop who others q b) = (queue_of b)(who := q)"
  by (auto simp: queue_of_def bucket_pop_def fun_eq_iff)

lemma bucket_pop_view:
  assumes "bucket_ok b" and "principals b = who # others"
  shows "bucket_view (bucket_pop who others q b) =
    tl (bucket_view b) @ (if q = [] then [] else [(who, q)])"
  using assms
  by (auto simp: bucket_view_def queue_of_pop bucket_ok_def) (auto simp: bucket_pop_def)

lemma bucket_pop_weight:
  assumes "bucket_ok b" and "queue_of b who = x # q"
  shows "bucket_weight w (bucket_pop who others q b) = bucket_weight w b - w x"
  using assms
  by (auto simp: bucket_weight_def bucket_pop_def dict_simps bucket_ok_def queue_of_def
      split: option.splits)

lemma bucket_weight_pos: "bucket_ok b \<Longrightarrow> principals b \<noteq> [] \<Longrightarrow> 0 < bucket_weight (\<lambda>_. 1) b"
proof -
  assume b: "bucket_ok b" and "principals b \<noteq> []"
  then have "queued b \<noteq> []" by (cases "principals b") (auto simp: bucket_ok_def)
  then obtain who q where wq: "(who, q) \<in> set (queued b)" by (cases "queued b") auto
  with b have "q \<noteq> []" by (auto simp: bucket_ok_def)
  from wq have "(\<lambda>q. sum_list (map (\<lambda>_. 1) q)) q \<le> bucket_weight (\<lambda>_. 1) b"
    unfolding bucket_weight_def
    by (intro dict_sum_member_le) (auto simp: sum_list_triv)
  with \<open>q \<noteq> []\<close> show ?thesis by (cases q) (auto simp: sum_list_triv)
qed

lemma bucket_view_empty [simp]: "bucket_view b = [] \<longleftrightarrow> principals b = []"
  by (simp add: bucket_view_def)

subsection \<open>Replacing one bucket\<close>

lemma sched_inv_map:
  "sched_inv s \<longleftrightarrow>
     wf_dict (priorities s) \<and>
     is_heap (prio_heap s) \<and> mset (prio_heap s) = mset (dkeys (priorities s)) \<and>
     (\<forall>prio b. map_of (priorities s) prio = Some b \<longrightarrow> bucket_ok b \<and> principals b \<noteq> []) \<and>
     sched_size s = sched_weight (\<lambda>_. 1) s"
proof (cases "wf_dict (priorities s)")
  case True
  then show ?thesis by (simp only: sched_inv_def dict_ball)
qed (simp add: sched_inv_def)

lemma mset_dkeys_update:
  "image_mset fst (mset (AList.update k v d)) =
     (if map_of d k = None then add_mset k (image_mset fst (mset d)) else image_mset fst (mset d))"
proof -
  have "mset (dkeys (AList.update k v d)) =
     (if map_of d k = None then add_mset k (mset (dkeys d)) else mset (dkeys d))"
    by (simp add: update_keys map_of_eq_None_iff del: mset_map)
  then show ?thesis by simp
qed

lemma mset_dkeys_delete:
  assumes "wf_dict d"
  shows "image_mset fst (mset (AList.delete k d)) = image_mset fst (mset d) - {#k#}"
proof -
  have "mset (dkeys (AList.delete k d)) = mset (dkeys d) - {#k#}"
    using assms by (simp add: delete_keys distinct_remove1_removeAll [symmetric] del: mset_map)
  then show ?thesis by simp
qed

lemma bucket_drained: "bucket_ok b \<Longrightarrow> principals b = [] \<Longrightarrow> bucket_weight w b = 0"
  by (auto simp: bucket_ok_def bucket_weight_def)

lemma sched_inv_keep:
  assumes "sched_inv s" and "map_of (priorities s) k = Some b"
    and "bucket_ok b'" and "principals b' \<noteq> []" and "bucket_weight (\<lambda>_. 1) b' = bucket_weight (\<lambda>_. 1) b + d"
  shows "sched_inv (s\<lparr>priorities := AList.update k b' (priorities s), sched_size := sched_size s + d\<rparr>)"
  using assms by (auto simp: sched_inv_map mset_dkeys_update sched_weight_def dict_simps)

lemma sched_inv_drop:
  assumes "sched_inv s" and "map_of (priorities s) k = Some b"
    and "bucket_ok b'" and "principals b' = []" and "bucket_weight (\<lambda>_. 1) b' = bucket_weight (\<lambda>_. 1) b + d"
    and "is_heap h" and "mset h = mset (prio_heap s) - {#k#}"
  shows "sched_inv (s\<lparr>priorities := AList.delete k (priorities s), prio_heap := h,
                      sched_size := sched_size s + d\<rparr>)"
proof -
  have "bucket_weight (\<lambda>_. 1) b = - d" using bucket_drained assms(3-5) by fastforce
  then show ?thesis
    using assms
    by (auto simp: sched_inv_map mset_dkeys_delete sched_weight_def dict_simps split: if_splits)
qed

lemma rotation_nonempty:
  "sched_inv s \<Longrightarrow> rotation s k \<noteq> [] \<longleftrightarrow> k \<in> set (prio_heap s)"
proof -
  assume inv: "sched_inv s"
  then have "set (prio_heap s) = dom (map_of (priorities s))"
    by (metis sched_inv_def set_dkeys set_mset_mset)
  with inv show ?thesis by (auto simp: sched_inv_map rotation_def split: option.splits)
qed

lemma sched_init_inv: "sched_inv sched_init" "rotation sched_init = (\<lambda>_. [])"
  by (auto simp: sched_inv_def sched_init_def rotation_def heap_from_def sched_weight_def)

subsection \<open>Each operation on the abstract view\<close>

lemma sched_put_at_spec:
  assumes "sched_inv s"
  shows "sched_inv (sched_put_at front x k who s)"
    and "rotation (sched_put_at front x k who s) =
           (rotation s)(k := AList.update who
              (enqueue front x (case map_of (rotation s k) who of None \<Rightarrow> [] | Some q \<Rightarrow> q))
              (rotation s k))"
proof -
  have view_lookup: "(case map_of (bucket_view b) who of None \<Rightarrow> [] | Some q \<Rightarrow> q) = queue_of b who"
    if "bucket_ok b" for b :: "'a bucket"
    using queue_of_empty [OF that, of who]
    by (auto simp: bucket_view_def map_of_map_restrict restrict_map_def)
  show "sched_inv (sched_put_at front x k who s)"
  proof (cases "map_of (priorities s) k")
    case None
    with assms show ?thesis
      by (auto simp: sched_put_at_def sched_inv_map mset_dkeys_update mset_heappush sched_weight_def dict_simps
          bucket_put_ok bucket_put_nonempty bucket_put_weight heappush_heap)
  next
    case (Some b)
    then have "bucket_ok b" using assms by (auto simp: sched_inv_map)
    with sched_inv_keep [OF assms Some, of _ 1] Some show ?thesis
      by (simp add: sched_put_at_def bucket_put_ok bucket_put_nonempty bucket_put_weight)
  qed
  show "rotation (sched_put_at front x k who s) =
           (rotation s)(k := AList.update who
              (enqueue front x (case map_of (rotation s k) who of None \<Rightarrow> [] | Some q \<Rightarrow> q))
              (rotation s k))"
  proof (cases "map_of (priorities s) k")
    case None
    then show ?thesis
      by (auto simp: sched_put_at_def rotation_def fun_eq_iff bucket_put_view queue_of_def empty_bucket_def)
        (simp add: bucket_view_def bucket_put_def queue_of_def)
  next
    case (Some b)
    then have "bucket_ok b" using assms by (auto simp: sched_inv_map)
    with Some show ?thesis
      by (auto simp: sched_put_at_def rotation_def fun_eq_iff bucket_put_view view_lookup)
  qed
qed

lemma sched_put_at_weight:
  "sched_inv s \<Longrightarrow> sched_weight w (sched_put_at front x k who s) = sched_weight w s + w x"
  by (cases "map_of (priorities s) k")
    (auto simp: sched_put_at_def sched_weight_def sched_inv_map dict_simps bucket_put_weight)

lemma sched_size_empty: "sched_inv s \<Longrightarrow> sched_size s = 0 \<longleftrightarrow> (\<forall>k. rotation s k = [])"
proof -
  assume inv: "sched_inv s"
  have nn: "0 \<le> bucket_weight (\<lambda>_. 1) b" if "(k, b) \<in> set (priorities s)" for k b
    using inv that bucket_weight_pos [of b] by (fastforce simp: sched_inv_def)
  show ?thesis
  proof
    assume "sched_size s = 0"
    have "priorities s = []"
    proof (rule ccontr)
      assume "priorities s \<noteq> []"
      then obtain k b where kb: "(k, b) \<in> set (priorities s)" by (cases "priorities s") auto
      then have "bucket_weight (\<lambda>_. 1) b \<le> sched_weight (\<lambda>_. 1) s"
        unfolding sched_weight_def using nn by (intro dict_sum_member_le)
      moreover have "0 < bucket_weight (\<lambda>_. 1) b"
        using inv kb by (intro bucket_weight_pos) (auto simp: sched_inv_def)
      ultimately show False
        using inv \<open>sched_size s = 0\<close> by (simp add: sched_inv_def)
    qed
    then show "\<forall>k. rotation s k = []" by (simp add: rotation_def)
  next
    assume "\<forall>k. rotation s k = []"
    then have "prio_heap s = []"
      using rotation_nonempty [OF inv] by (cases "prio_heap s") auto
    then have "priorities s = []" using inv by (auto simp: sched_inv_def)
    then show "sched_size s = 0" using inv by (simp add: sched_inv_def sched_weight_def)
  qed
qed

lemma sched_pop_spec:
  assumes inv: "sched_inv s" and ne: "sched_size s \<noteq> 0"
  shows "\<exists>k who x q rest s'. sched_pop s = Inr (x, s') \<and> sched_inv s' \<and>
     rotation s k = (who, x # q) # rest \<and> (\<forall>j. rotation s j \<noteq> [] \<longrightarrow> k \<le> j) \<and>
     rotation s' = (rotation s)(k := rest @ (if q = [] then [] else [(who, q)])) \<and>
     sched_size s' = sched_size s - 1 \<and> (\<forall>w. sched_weight w s' = sched_weight w s - w x)"
proof -
  obtain k h where heap: "prio_heap s = k # h"
    using ne inv sched_size_empty rotation_nonempty by (cases "prio_heap s") fastforce+
  then have "rotation s k \<noteq> []" using rotation_nonempty [OF inv] by simp
  then obtain b where b: "map_of (priorities s) k = Some b"
    by (auto simp: rotation_def split: option.splits)
  with inv have ok: "bucket_ok b" "principals b \<noteq> []" by (auto simp: sched_inv_map)
  then obtain who others where ps: "principals b = who # others" by (cases "principals b") auto
  then obtain x q where qx: "queue_of b who = x # q"
    using queue_of_empty [OF ok(1), of who] by (cases "queue_of b who") auto
  define b' where "b' = bucket_pop who others q b"
  have b': "bucket_ok b'" "bucket_view b' = tl (bucket_view b) @ (if q = [] then [] else [(who, q)])"
    "bucket_weight w b' = bucket_weight w b - w x" for w
    using ok ps qx by (simp_all add: b'_def bucket_pop_ok bucket_pop_view bucket_pop_weight)
  have view: "rotation s k = (who, x # q) # tl (bucket_view b)"
    using b ps qx by (simp add: rotation_def bucket_view_def)
  have least: "\<forall>j. rotation s j \<noteq> [] \<longrightarrow> k \<le> j"
    using hq.good_least inv heap rotation_nonempty [OF inv] by (fastforce simp: sched_inv_def)
  obtain h' where h': "heappop (prio_heap s) = Inr (k, h')" "is_heap h'"
    "mset h' = mset (prio_heap s) - {#k#}"
    using hq.pop_good [of "prio_heap s"] inv heap by (auto simp: sched_inv_def)
  define s' where "s' = (if principals b' = []
      then s\<lparr>priorities := AList.delete k (priorities s), prio_heap := h', sched_size := sched_size s - 1\<rparr>
      else s\<lparr>priorities := AList.update k b' (priorities s), sched_size := sched_size s - 1\<rparr>)"
  have "sched_pop s = Inr (x, s')"
    using ne heap b ps qx h'(1)
    by (simp add: sched_pop_def s'_def b'_def Let_def delete_update_same heap)
  moreover have "sched_inv s'"
    using sched_inv_keep [OF inv b b'(1), of "-1"] sched_inv_drop [OF inv b b'(1), of "-1" h'] b' h'
    by (simp add: s'_def)
  moreover have "rotation s' = (rotation s)(k := tl (bucket_view b) @ (if q = [] then [] else [(who, q)]))"
    using b'(2) by (auto simp: s'_def rotation_def fun_eq_iff simp flip: bucket_view_empty)
  moreover have "sched_weight w s' = sched_weight w s - w x" for w
    using inv b b'(3) [of w] bucket_drained [OF b'(1), of w]
    by (auto simp: s'_def sched_weight_def sched_inv_def dict_simps)
  moreover have "sched_size s' = sched_size s - 1" by (simp add: s'_def)
  ultimately show ?thesis using view least by blast
qed

subsection \<open>Removal\<close>

lemma find_queue_None: "find_queue x d = None \<longleftrightarrow> (\<forall>(who, q) \<in> set d. x \<notin> set q)"
  by (induction x d rule: find_queue.induct) auto

lemma find_queue_Some:
  "find_queue x d = Some (who, q') \<Longrightarrow> \<exists>q. (who, q) \<in> set d \<and> x \<in> set q \<and> q' = remove1 x q"
  by (induction x d rule: find_queue.induct) (auto split: if_splits)

lemma find_bucket_None: "find_bucket x d = None \<longleftrightarrow> (\<forall>(k, b) \<in> set d. find_queue x (queued b) = None)"
  by (induction x d rule: find_bucket.induct) (auto split: option.splits)

lemma find_bucket_Some:
  "find_bucket x d = Some (k, b, who, q') \<Longrightarrow> (k, b) \<in> set d \<and> find_queue x (queued b) = Some (who, q')"
  by (induction x d rule: find_bucket.induct) (auto split: option.splits)

lemma delete_map_keys:
  "distinct ks \<Longrightarrow> AList.delete k (map (\<lambda>k. (k, f k)) ks) = map (\<lambda>k. (k, f k)) (remove1 k ks)"
  by (induction ks) (auto simp: dict_delete_absent map_of_map_restrict restrict_map_def)

lemma bucket_drop_ok: "bucket_ok b \<Longrightarrow> who \<in> set (principals b) \<Longrightarrow> bucket_ok (bucket_drop who q b)"
  by (auto simp: bucket_ok_map bucket_drop_def)

lemma bucket_drop_view:
  assumes "bucket_ok b" and "who \<in> set (principals b)"
  shows "bucket_view (bucket_drop who q b) =
    (if q = [] then AList.delete who (bucket_view b) else AList.update who q (bucket_view b))"
proof -
  have d: "distinct (principals b)" using assms(1) by (simp add: bucket_ok_def)
  have "queue_of (bucket_drop who q b) = (queue_of b)(who := q)"
    by (auto simp: queue_of_def bucket_drop_def fun_eq_iff)
  with d assms(2) show ?thesis
    by (auto simp: bucket_view_def update_map_keys delete_map_keys) (auto simp: bucket_drop_def)
qed

lemma bucket_drop_weight:
  assumes "bucket_ok b" and "map_of (queued b) who = Some q" and "x \<in> set q"
  shows "bucket_weight w (bucket_drop who (remove1 x q) b) = bucket_weight w b - w x"
  using assms sum_list_map_remove1 [OF assms(3), of w]
  by (auto simp: bucket_weight_def bucket_drop_def dict_simps bucket_ok_def)

lemma sched_count_zero:
  assumes "find_bucket x (priorities s) = None"
  shows "sched_count x s = 0"
proof -
  have "(\<Sum>y\<leftarrow>q. if y = x then 1 else (0::int)) = 0"
    if "(k, b) \<in> set (priorities s)" and "(who, q) \<in> set (queued b)" for k b who q
  proof -
    have "x \<notin> set q"
      using assms that by (fastforce simp: find_bucket_None find_queue_None)
    then show ?thesis by (induction q) auto
  qed
  then show ?thesis
    unfolding sched_count_def sched_weight_def bucket_weight_def by (intro dict_sum_zero) blast
qed

lemma sched_remove_spec:
  assumes inv: "sched_inv s"
  shows "\<exists>found s'. sched_remove x s = Inr (found, s') \<and> sched_inv s' \<and>
     (if found
      then (\<exists>k who q. map_of (rotation s k) who = Some q \<and> x \<in> set q \<and>
              rotation s' = (rotation s)(k :=
                (if remove1 x q = [] then AList.delete who (rotation s k)
                 else AList.update who (remove1 x q) (rotation s k)))) \<and>
           (\<forall>w. sched_weight w s' = sched_weight w s - w x)
      else s' = s \<and> sched_count x s = 0)"
proof (cases "find_bucket x (priorities s)")
  case None
  then show ?thesis using inv by (auto simp: sched_remove_def sched_count_zero)
next
  case (Some t)
  then obtain k b who q' where t: "find_bucket x (priorities s) = Some (k, b, who, q')"
    by (cases t) auto
  from find_bucket_Some [OF t] find_queue_Some [of x "queued b" who q']
  obtain q where kb: "(k, b) \<in> set (priorities s)" and wq: "(who, q) \<in> set (queued b)"
    and x: "x \<in> set q" "q' = remove1 x q" by blast
  have b: "map_of (priorities s) k = Some b"
    using inv kb by (auto simp: sched_inv_def)
  with inv have ok: "bucket_ok b" by (auto simp: sched_inv_map)
  with wq have mq: "map_of (queued b) who = Some q" by (auto simp: bucket_ok_def)
  then have who: "who \<in> set (principals b)" using ok by (auto simp: bucket_ok_map)
  define b' where "b' = bucket_drop who q' b"
  have b': "bucket_ok b'" "bucket_weight w b' = bucket_weight w b - w x"
    "bucket_view b' = (if q' = [] then AList.delete who (bucket_view b) else AList.update who q' (bucket_view b))"
    for w using ok who mq x
    by (simp_all add: b'_def bucket_drop_ok bucket_drop_weight bucket_drop_view)
  have k: "k \<in> set (prio_heap s)"
    using rotation_nonempty [OF inv, of k] b inv by (auto simp: rotation_def sched_inv_map)
  define s' where "s' = (if principals b' = []
      then s\<lparr>priorities := AList.delete k (priorities s),
             prio_heap := heapify (remove1 k (prio_heap s)), sched_size := sched_size s - 1\<rparr>
      else s\<lparr>priorities := AList.update k b' (priorities s), sched_size := sched_size s - 1\<rparr>)"
  have "sched_remove x s = Inr (True, s')"
    using t k by (simp add: sched_remove_def s'_def b'_def Let_def delete_update_same)
  moreover have "sched_inv s'"
    using sched_inv_keep [OF inv b b'(1), of "-1"] b'(2)
      sched_inv_drop [OF inv b b'(1), of "-1" "heapify (remove1 k (prio_heap s))"]
    by (simp add: s'_def heapify_heap)
  moreover have "rotation s' = (rotation s)(k := bucket_view b')"
    by (auto simp: s'_def rotation_def fun_eq_iff simp flip: bucket_view_empty)
  moreover have "map_of (rotation s k) who = Some q" "rotation s k = bucket_view b"
    using b who mq
    by (simp_all add: rotation_def bucket_view_def map_of_map_restrict restrict_map_def queue_of_def)
  moreover have "sched_weight w s' = sched_weight w s - w x" for w
    using inv b b'(2) [of w] bucket_drained [OF b'(1), of w]
    by (auto simp: s'_def sched_weight_def sched_inv_def dict_simps)
  ultimately have "sched_remove x s = Inr (True, s') \<and> sched_inv s' \<and>
      (map_of (rotation s k) who = Some q \<and> x \<in> set q \<and>
       rotation s' = (rotation s)(k :=
         (if remove1 x q = [] then AList.delete who (rotation s k)
          else AList.update who (remove1 x q) (rotation s k)))) \<and>
      (\<forall>w. sched_weight w s' = sched_weight w s - w x)"
    using x b'(3) by simp
  then show ?thesis by (intro exI [of _ True] exI [of _ s']) auto
qed

subsection \<open>The contract of a fair queue\<close>

text \<open>Taking \<open>n\<close> items one after the other, as the broker's dispatch loop does.\<close>

fun pops :: "('s \<Rightarrow> ('a \<times> 's) result) \<Rightarrow> nat \<Rightarrow> 's \<Rightarrow> ('a list \<times> 's) result" where
  "pops pop 0 s = Inr ([], s)"
| "pops pop (Suc n) s =
     (case pop s of
        Inl e \<Rightarrow> Inl e
      | Inr (x, s') \<Rightarrow>
          (case pops pop n s' of Inl e \<Rightarrow> Inl e | Inr (xs, s'') \<Rightarrow> Inr (x # xs, s'')))"

text \<open>
  \<open>view s k\<close> is the rotation at priority \<open>k\<close>, \<open>weight w s\<close> adds \<open>w\<close> over the queued items.
\<close>

locale fair_queue =
  fixes good :: "'s \<Rightarrow> bool"
    and view :: "'s \<Rightarrow> int \<Rightarrow> (pystr \<times> 'a list) list"
    and weight :: "('a \<Rightarrow> int) \<Rightarrow> 's \<Rightarrow> int"
    and put_at :: "bool \<Rightarrow> 'a \<Rightarrow> int \<Rightarrow> pystr \<Rightarrow> 's \<Rightarrow> 's"
    and pop :: "'s \<Rightarrow> ('a \<times> 's) result"
  assumes put_good: "good s \<Longrightarrow> good (put_at front x k who s)"
    and put_view: "good s \<Longrightarrow> view (put_at front x k who s) =
          (view s)(k := AList.update who
             (enqueue front x (case map_of (view s k) who of None \<Rightarrow> [] | Some q \<Rightarrow> q)) (view s k))"
    and put_weight: "good s \<Longrightarrow> weight w (put_at front x k who s) = weight w s + w x"
    and weight_empty: "good s \<Longrightarrow> weight (\<lambda>_. 1) s = 0 \<longleftrightarrow> (\<forall>k. view s k = [])"
    and weight_nonneg: "good s \<Longrightarrow> (\<And>x. 0 \<le> w x) \<Longrightarrow> 0 \<le> weight w s"
    and zero_weight: "good s \<Longrightarrow> \<forall>k. view s k = [] \<Longrightarrow> weight w s = 0"
    and view_wf: "good s \<Longrightarrow> wf_dict (view s k)"
    and pop_empty: "good s \<Longrightarrow> \<forall>k. view s k = [] \<Longrightarrow> pop s = Inl (IndexError ''scheduler is empty'')"
    and pop_some: "good s \<Longrightarrow> \<exists>k. view s k \<noteq> [] \<Longrightarrow>
          \<exists>k who x q rest s'. pop s = Inr (x, s') \<and> good s' \<and>
            view s k = (who, x # q) # rest \<and> (\<forall>j. view s j \<noteq> [] \<longrightarrow> k \<le> j) \<and>
            view s' = (view s)(k := rest @ (if q = [] then [] else [(who, q)])) \<and>
            (\<forall>w. weight w s' = weight w s - w x)"
begin

text \<open>The least non-empty priority is unique, so at a known one \<open>pop\<close> serves its first principal.\<close>

lemma pop_at:
  assumes "good s" and "view s k = (who, q0) # rest" and "\<forall>j. view s j \<noteq> [] \<longrightarrow> k \<le> j"
  shows "\<exists>x q s'. q0 = x # q \<and> pop s = Inr (x, s') \<and> good s' \<and>
     view s' = (view s)(k := rest @ (if q = [] then [] else [(who, q)]))"
proof -
  from assms(2) have "\<exists>k. view s k \<noteq> []" by (intro exI [of _ k]) simp
  from pop_some [OF assms(1) this] obtain k' who' x q rest' s' where
    p: "pop s = Inr (x, s')" "good s'" "view s k' = (who', x # q) # rest'"
    "\<forall>j. view s j \<noteq> [] \<longrightarrow> k' \<le> j"
    "view s' = (view s)(k' := rest' @ (if q = [] then [] else [(who', q)]))"
    by blast
  have "k' \<le> k" "k \<le> k'" using p assms by simp_all
  then have "k' = k" by simp
  with p assms(2) show ?thesis by auto
qed

text \<open>A principal behind \<open>length pre\<close> others is served after exactly that many pops.\<close>

lemma bounded_wait:
  assumes "good s" and "view s k = pre @ (who, x # q) # post" and "\<forall>j. view s j \<noteq> [] \<longrightarrow> k \<le> j"
  shows "\<exists>s'. pops pop (Suc (length pre)) s = Inr (map (\<lambda>p. hd (snd p)) pre @ [x], s') \<and> good s'"
  using assms
proof (induction pre arbitrary: s post)
  case Nil
  with pop_at [OF Nil.prems(1), of k who "x # q" post] show ?case by auto
next
  case (Cons p pre)
  obtain w0 q0 where p: "p = (w0, q0)" by (cases p)
  from pop_at [OF Cons.prems(1), of k w0 q0] Cons.prems(2,3) p
  obtain y q1 s1 where s1: "q0 = y # q1" "pop s = Inr (y, s1)" "good s1"
    "view s1 = (view s)(k := (pre @ (who, x # q) # post) @ (if q1 = [] then [] else [(w0, q1)]))"
    by auto
  have "\<forall>j. view s1 j \<noteq> [] \<longrightarrow> k \<le> j" using s1(4) Cons.prems(3) by simp
  from Cons.IH [OF s1(3) _ this, of "post @ (if q1 = [] then [] else [(w0, q1)])"] s1(4)
  obtain s' where "pops pop (Suc (length pre)) s1 = Inr (map (\<lambda>p. hd (snd p)) pre @ [x], s')" "good s'"
    by (simp del: pops.simps) blast
  then show ?case using s1 p by (subst pops.simps(2)) (simp del: pops.simps)
qed

text \<open>Draining: as many pops as there are items return each item with its multiplicity.\<close>

lemma drain:
  "good s \<Longrightarrow> n = nat (weight (\<lambda>_. 1) s) \<Longrightarrow>
     \<exists>xs s'. pops pop n s = Inr (xs, s') \<and> good s' \<and> (\<forall>k. view s' k = []) \<and>
       (\<forall>w. sum_list (map w xs) = weight w s)"
proof (induction n arbitrary: s)
  case 0
  then have "weight (\<lambda>_. 1) s = 0" using weight_nonneg [of s "\<lambda>_. 1"] by simp
  then have "\<forall>k. view s k = []" using 0 by (simp add: weight_empty)
  with 0 show ?case by (auto simp: zero_weight)
next
  case (Suc n)
  then have "\<exists>k. view s k \<noteq> []" using weight_empty by fastforce
  from pop_some [OF Suc.prems(1) this] obtain x s1 where
    s1: "pop s = Inr (x, s1)" "good s1" "\<forall>w. weight w s1 = weight w s - w x" by blast
  then have "n = nat (weight (\<lambda>_. 1) s1)" using Suc.prems by simp
  from Suc.IH [OF s1(2) this] s1 show ?case by fastforce
qed

text \<open>
  Restoring a popped item with \<open>put_front\<close> gives its principal back the same FIFO stream, at the
  back of the rotation.
\<close>

lemma pop_put_front:
  assumes "good s" and "view s k = (who, x # q) # rest" and "\<forall>j. view s j \<noteq> [] \<longrightarrow> k \<le> j"
  shows "\<exists>s'. pop s = Inr (x, s') \<and>
     view (put_at True x k who s') = (view s)(k := rest @ [(who, x # q)])"
proof -
  from pop_at [OF assms] obtain s' where
    s': "pop s = Inr (x, s')" "good s'" "view s' = (view s)(k := rest @ (if q = [] then [] else [(who, q)]))"
    by auto
  have "who \<notin> set (dkeys rest)" using view_wf [OF assms(1), of k] assms(2) by simp
  then have "map_of rest who = None" by (simp add: map_of_eq_None_iff)
  then have "AList.update who (x # q) (rest @ (if q = [] then [] else [(who, q)])) = rest @ [(who, x # q)]"
    by (induction rest) auto
  with s' \<open>map_of rest who = None\<close> show ?thesis
    by (auto simp: put_view enqueue_def map_add_def)
qed

end

interpretation fs: fair_queue sched_inv rotation sched_weight sched_put_at sched_pop
proof unfold_locales
  fix s :: "'a fair_scheduler" and k front x who w
  assume inv: "sched_inv s"
  show "sched_inv (sched_put_at front x k who s)" using inv by (rule sched_put_at_spec)
  show "rotation (sched_put_at front x k who s) =
      (rotation s)(k := AList.update who
        (enqueue front x (case map_of (rotation s k) who of None \<Rightarrow> [] | Some q \<Rightarrow> q)) (rotation s k))"
    using inv by (rule sched_put_at_spec)
  show "sched_weight w (sched_put_at front x k who s) = sched_weight w s + w x"
    using inv by (rule sched_put_at_weight)
  show "sched_weight (\<lambda>_. 1) s = 0 \<longleftrightarrow> (\<forall>k. rotation s k = [])"
    using sched_size_empty [OF inv] inv by (simp add: sched_inv_def)
  show "0 \<le> sched_weight w s" if "\<And>x. 0 \<le> w x" for w
    unfolding sched_weight_def bucket_weight_def
    by (intro dict_sum_nonneg sum_list_nonneg) (use that in auto)
  show "wf_dict (rotation s k)"
    using inv by (auto simp: rotation_def bucket_view_def sched_inv_map bucket_ok_def comp_def split: option.splits)
  show "sched_pop s = Inl (IndexError ''scheduler is empty'')" if "\<forall>k. rotation s k = []"
    using that sched_size_empty [OF inv] by (simp add: sched_pop_def)
  show "sched_weight w s = 0" if "\<forall>k. rotation s k = []"
  proof -
    have "priorities s = []"
      using that inv rotation_nonempty [OF inv] by (cases "prio_heap s") (auto simp: sched_inv_def)
    then show ?thesis by (simp add: sched_weight_def)
  qed
  show "\<exists>k who x q rest s'. sched_pop s = Inr (x, s') \<and> sched_inv s' \<and>
      rotation s k = (who, x # q) # rest \<and> (\<forall>j. rotation s j \<noteq> [] \<longrightarrow> k \<le> j) \<and>
      rotation s' = (rotation s)(k := rest @ (if q = [] then [] else [(who, q)])) \<and>
      (\<forall>w. sched_weight w s' = sched_weight w s - w x)" if "\<exists>k. rotation s k \<noteq> []"
    using sched_pop_spec [OF inv] sched_size_empty [OF inv] that by blast
qed

subsection \<open>Runs of the scheduler\<close>

datatype 'a sched_op =
    OpPut 'a int pystr
  | OpPutFront 'a int pystr
  | OpPop
  | OpRemove 'a

fun sched_step :: "'a sched_op \<Rightarrow> 'a fair_scheduler \<Rightarrow> 'a fair_scheduler result" where
  "sched_step (OpPut x k who) s = Inr (sched_put x k who s)"
| "sched_step (OpPutFront x k who) s = Inr (sched_put_front x k who s)"
| "sched_step OpPop s = (case sched_pop s of Inl e \<Rightarrow> Inl e | Inr (_, s') \<Rightarrow> Inr s')"
| "sched_step (OpRemove x) s = (case sched_remove x s of Inl e \<Rightarrow> Inl e | Inr (_, s') \<Rightarrow> Inr s')"

text \<open>A caller that catches the exception of an operation goes on from the unchanged state.\<close>

fun sched_exec :: "'a sched_op list \<Rightarrow> 'a fair_scheduler \<Rightarrow> 'a fair_scheduler" where
  "sched_exec [] s = s"
| "sched_exec (op # ops) s =
     sched_exec ops (case sched_step op s of Inl _ \<Rightarrow> s | Inr s' \<Rightarrow> s')"

lemma sched_step_ok:
  assumes "sched_inv s"
  shows "case sched_step op s of
      Inl e \<Rightarrow> op = OpPop \<and> e = IndexError ''scheduler is empty'' \<and> sched_len s = 0
    | Inr s' \<Rightarrow> sched_inv s'"
proof (cases op)
  case OpPop
  show ?thesis
  proof (cases "sched_size s = 0")
    case True
    then show ?thesis using OpPop by (simp add: sched_pop_def sched_len_def)
  next
    case False
    then show ?thesis using OpPop sched_pop_spec [OF assms] by fastforce
  qed
next
  case (OpRemove x)
  then show ?thesis using sched_remove_spec [OF assms, of x] by fastforce
qed (auto simp: sched_put_def sched_put_front_def assms intro: sched_put_at_spec)

lemma sched_exec_inv: "sched_inv s \<Longrightarrow> sched_inv (sched_exec ops s)"
proof (induction ops arbitrary: s)
  case (Cons op ops)
  then show ?case
    using sched_step_ok [OF Cons.prems, of op] by (auto split: sum.splits)
qed simp

subsection \<open>Properties\<close>

text \<open>
  (C23) Every sequence of \<open>put\<close>, \<open>put_front\<close>, \<open>pop\<close> and \<open>remove\<close> calls on a new scheduler
  leaves it well formed (heap, buckets, rotations and size counter agree), and the only exception
  any next call can raise is \<open>pop\<close>'s \<open>IndexError\<close> on an empty scheduler.
\<close>

theorem scheduler_runs_safely:
  "sched_inv (sched_exec ops sched_init) \<and>
   (case sched_step op (sched_exec ops sched_init) of
      Inl e \<Rightarrow> op = OpPop \<and> e = IndexError ''scheduler is empty'' \<and>
               sched_len (sched_exec ops sched_init) = 0
    | Inr s' \<Rightarrow> sched_inv s')"
  using sched_step_ok sched_exec_inv [OF sched_init_inv(1)] by blast

text \<open>
  (C24) Strict priority, round robin and FIFO: on a non-empty scheduler \<open>pop\<close> returns the head of
  the queue of the first principal of the numerically least priority that has work; that principal
  goes to the back of the rotation if it has more work, nothing else moves, and the size drops by one.
\<close>

theorem pop_strict_priority_round_robin:
  assumes "sched_inv s" and "sched_bool s"
  shows "\<exists>k who x q rest s'. sched_pop s = Inr (x, s') \<and> sched_inv s' \<and>
     rotation s k = (who, x # q) # rest \<and> (\<forall>j. rotation s j \<noteq> [] \<longrightarrow> k \<le> j) \<and>
     rotation s' = (rotation s)(k := rest @ (if q = [] then [] else [(who, q)])) \<and>
     sched_len s' = sched_len s - 1"
  using sched_pop_spec [OF assms(1)] assms(2) unfolding sched_bool_def sched_len_def by blast

text \<open>
  A concrete scheduler for the witnesses: principal \<open>1\<close> has two tasks and principal \<open>2\<close> one at
  priority 5, principal \<open>3\<close> has one at priority 7 that was submitted first.
\<close>

definition demo_sched :: "nat fair_scheduler" where
  "demo_sched = sched_exec
     [OpPut 30 7 [3], OpPut 10 5 [1], OpPut 11 5 [1], OpPut 20 5 [2]] sched_init"

lemma demo_sched_inv: "sched_inv demo_sched"
  unfolding demo_sched_def by (rule sched_exec_inv [OF sched_init_inv(1)])

lemma demo_sched_view:
  "rotation demo_sched 5 = [([1], [10, 11]), ([2], [20])]" "rotation demo_sched 7 = [([3], [30])]"
  "sched_bool demo_sched" "map fst (priorities demo_sched) = [7, 5]"
  "sched_pop demo_sched = Inr (10, the (case sched_pop demo_sched of Inr (_, s) \<Rightarrow> Some s))"
  by code_simp+

lemma demo_sched_least: "\<forall>j. rotation demo_sched j \<noteq> [] \<longrightarrow> 5 \<le> j"
proof (intro allI impI)
  fix j assume "rotation demo_sched j \<noteq> []"
  then have "j \<in> set (map fst (priorities demo_sched))"
    by (auto simp: rotation_def map_of_eq_None_iff split: option.splits) (metis fst_conv image_eqI map_of_SomeD)
  then show "5 \<le> j" by (auto simp: demo_sched_view(4))
qed

theorem pop_strict_priority_round_robin_witness:
  "sched_inv demo_sched \<and> sched_bool demo_sched \<and>
   (\<exists>k who x q rest s'. sched_pop demo_sched = Inr (x, s') \<and> sched_inv s' \<and>
      rotation demo_sched k = (who, x # q) # rest \<and> sched_len s' = 3)"
proof -
  have "sched_len demo_sched = 4" by code_simp
  then show ?thesis
    using pop_strict_priority_round_robin [OF demo_sched_inv demo_sched_view(3)]
      demo_sched_inv demo_sched_view(3) by fastforce
qed

text \<open>
  (C25) Bounded waiting: a principal that stands behind \<open>n\<close> others at the least non-empty priority
  is served by the \<open>n + 1\<close>st pop, and the pops before it serve exactly the heads of the queues of
  the principals ahead of it, whatever further work those have.
\<close>

theorem pop_bounded_waiting:
  assumes "sched_inv s" and "rotation s k = pre @ (who, x # q) # post"
    and "\<forall>j. rotation s j \<noteq> [] \<longrightarrow> k \<le> j"
  shows "\<exists>s'. pops sched_pop (Suc (length pre)) s = Inr (map (\<lambda>p. hd (snd p)) pre @ [x], s') \<and>
     sched_inv s'"
  using assms by (rule fs.bounded_wait)

theorem pop_bounded_waiting_witness:
  "\<exists>s'. pops sched_pop 2 demo_sched = Inr ([10, 20], s') \<and> sched_inv s'"
  using pop_bounded_waiting [OF demo_sched_inv _ demo_sched_least,
      of "[([1], [10, 11])]" "[2]" 20 "[]" "[]"]
  by (simp add: demo_sched_view(1) numeral_2_eq_2 del: pops.simps)

text \<open>
  Nothing is lost or duplicated: as many pops as \<open>len\<close> reports all succeed, leave the
  scheduler empty and return every item as often as it was queued.
\<close>

lemma sum_list_indicator: "(\<Sum>y\<leftarrow>xs. if y = x then 1 else 0) = int (count_list xs x)"
  by (induction xs) auto

theorem drain_exactly_once:
  assumes "sched_inv s"
  shows "\<exists>xs s'. pops sched_pop (nat (sched_len s)) s = Inr (xs, s') \<and> \<not> sched_bool s' \<and>
     int (length xs) = sched_len s \<and> (\<forall>x. int (count_list xs x) = sched_count x s)"
proof -
  have len: "sched_weight (\<lambda>_. 1) s = sched_len s"
    using assms by (simp add: sched_inv_def sched_len_def)
  from fs.drain [OF assms refl] obtain xs s' where
    d: "pops sched_pop (nat (sched_len s)) s = Inr (xs, s')" "sched_inv s'"
    "\<forall>k. rotation s' k = []" "\<And>w. sum_list (map w xs) = sched_weight w s"
    unfolding len by blast
  from d(4) [of "\<lambda>_. 1"] have "int (length xs) = sched_len s" by (simp add: len sum_list_triv)
  moreover have "int (count_list xs x) = sched_count x s" for x
    using d(4) [of "\<lambda>y. if y = x then 1 else 0"] by (simp add: sched_count_def sum_list_indicator)
  moreover have "\<not> sched_bool s'"
    using sched_size_empty [OF d(2)] d(3) by (simp add: sched_bool_def)
  ultimately show ?thesis using d(1) by blast
qed

theorem drain_exactly_once_witness:
  "\<exists>xs s'. pops sched_pop 4 demo_sched = Inr (xs, s') \<and> \<not> sched_bool s' \<and> count_list xs 11 = 1"
proof -
  have "nat (sched_len demo_sched) = 4" "sched_count 11 demo_sched = 1" by code_simp+
  then show ?thesis
    using drain_exactly_once [OF demo_sched_inv] by (metis of_nat_1 of_nat_eq_iff)
qed

text \<open>
  \<open>remove\<close> never raises on a well-formed scheduler.  It returns \<open>True\<close> exactly when the item
  is queued; then one occurrence leaves its queue, the principal leaves the rotation if that was its
  last task, and every other queue, position and multiplicity is unchanged.  It returns \<open>False\<close>
  and changes nothing otherwise.
\<close>

theorem remove_exact:
  assumes "sched_inv s"
  shows "\<exists>found s'. sched_remove x s = Inr (found, s') \<and> sched_inv s' \<and>
     (found \<longleftrightarrow> 0 < sched_count x s) \<and>
     (if found
      then (\<exists>k who q. map_of (rotation s k) who = Some q \<and> x \<in> set q \<and>
              rotation s' = (rotation s)(k :=
                (if remove1 x q = [] then AList.delete who (rotation s k)
                 else AList.update who (remove1 x q) (rotation s k)))) \<and>
           (\<forall>y. sched_count y s' = sched_count y s - (if y = x then 1 else 0)) \<and>
           sched_len s' = sched_len s - 1
      else s' = s)"
proof -
  obtain found s' where r: "sched_remove x s = Inr (found, s')" "sched_inv s'"
    and cases: "if found
      then (\<exists>k who q. map_of (rotation s k) who = Some q \<and> x \<in> set q \<and>
              rotation s' = (rotation s)(k :=
                (if remove1 x q = [] then AList.delete who (rotation s k)
                 else AList.update who (remove1 x q) (rotation s k)))) \<and>
           (\<forall>w. sched_weight w s' = sched_weight w s - w x)
      else s' = s \<and> sched_count x s = 0"
    using sched_remove_spec [OF assms, of x] by blast
  have "sched_len s' = sched_len s - 1" if found
    using cases that assms r(2) by (simp add: sched_inv_def sched_len_def)
  moreover have "sched_count y s' = sched_count y s - (if y = x then 1 else 0)" if found for y
    using cases that by (simp add: sched_count_def)
  moreover have "0 \<le> sched_count x s'"
    unfolding sched_count_def using r(2) by (rule fs.weight_nonneg) simp
  ultimately have "found \<longleftrightarrow> 0 < sched_count x s"
    using cases by (cases found) fastforce+
  with r cases \<open>found \<Longrightarrow> sched_len s' = sched_len s - 1\<close>
    \<open>\<And>y. found \<Longrightarrow> sched_count y s' = sched_count y s - (if y = x then 1 else 0)\<close>
  show ?thesis by (intro exI [of _ found] exI [of _ s']) (cases found; simp)
qed

theorem remove_exact_witness:
  "\<exists>s'. sched_remove 20 demo_sched = Inr (True, s') \<and> sched_inv s' \<and> sched_len s' = 3"
proof -
  have "sched_count 20 demo_sched = 1" "sched_len demo_sched = 4" by code_simp+
  then show ?thesis
    using remove_exact [OF demo_sched_inv, of 20] by (auto split: if_splits)
qed

text \<open>
  What the broker's retry does: popping the next item and restoring it with \<open>put_front\<close>
  gives its principal back the same FIFO stream (the item is again at its head), but the principal
  is now last in the rotation of that priority.
\<close>

theorem pop_then_put_front:
  assumes "sched_inv s" and "rotation s k = (who, x # q) # rest"
    and "\<forall>j. rotation s j \<noteq> [] \<longrightarrow> k \<le> j"
  shows "\<exists>s'. sched_pop s = Inr (x, s') \<and>
     rotation (sched_put_front x k who s') = (rotation s)(k := rest @ [(who, x # q)])"
  unfolding sched_put_front_def using assms by (rule fs.pop_put_front)

theorem pop_then_put_front_witness:
  "\<exists>s'. sched_pop demo_sched = Inr (10, s') \<and>
     rotation (sched_put_front 10 5 [1] s') 5 = [([2], [20]), ([1], [10, 11])]"
  using pop_then_put_front [OF demo_sched_inv demo_sched_view(1) demo_sched_least] by auto

end
