(* ===== verification/Config.thy ===== *)
theory Config
  imports Prelude
begin

text \<open>
  \<open>deadpool/remote/config.py\<close>: validated addressing and resource policy.  Every dataclass with a
  \<open>__post_init__\<close> is a record together with the function that validates it; the checks are in the
  order of the source, so the exception is the one the source raises first.  A TLS context is
  third-party state, of which the code reads three attributes.
\<close>

subsection \<open>Elementary validators\<close>

definition positive_int :: "pyval \<Rightarrow> unit result" where
  "positive_int v =
     (if is_bool v \<or> \<not> is_int v then Inl (TypeError ''must be an integer'')
      else if num_le0 v then Inl (ValueError ''must be greater than zero'')
      else Inr ())"

definition positive :: "pyval \<Rightarrow> unit result" where
  "positive v =
     (if is_bool v \<or> \<not> (is_int v \<or> is_float v) then Inl (TypeError ''must be numeric'')
      else if num_le0 v \<or> \<not> num_isfinite v
      then Inl (ValueError ''must be finite and greater than zero'')
      else Inr ())"

text \<open>Checks in sequence: the first exception wins.\<close>

fun first_error :: "unit result list \<Rightarrow> unit result" where
  "first_error [] = Inr ()"
| "first_error (Inl e # cs) = Inl e"
| "first_error (Inr _ # cs) = first_error cs"

abbreviation check :: "bool \<Rightarrow> exn \<Rightarrow> unit result" where
  "check ok e \<equiv> (if ok then Inr () else Inl e)"

subsection \<open>TLS contexts\<close>

record ssl_context =
  cert_required :: bool
  check_hostname :: bool
  minimum_version :: int

abbreviation TLSv1_2 :: int where
  "TLSv1_2 \<equiv> 771"

definition validate_client_tls :: "ssl_context \<Rightarrow> unit result" where
  "validate_client_tls c = first_error
     [check (cert_required c \<and> check_hostname c)
        (ValueError ''TCP client TLS must verify certificates and hostnames''),
      check (\<not> minimum_version c < TLSv1_2)
        (ValueError ''TCP client TLS must require TLS 1.2 or newer'')]"

definition validate_server_tls :: "ssl_context \<Rightarrow> unit result" where
  "validate_server_tls c = first_error
     [check (cert_required c) (ValueError ''TCP server TLS must require client certificates''),
      check (\<not> minimum_version c < TLSv1_2)
        (ValueError ''TCP server TLS must require TLS 1.2 or newer'')]"

subsection \<open>Addresses and listeners\<close>

definition insecure_loopback_hosts :: "pystr set" where
  "insecure_loopback_hosts = {lit ''127.0.0.1''}"

record unix_address =
  ua_path :: pystr
  ua_connect_timeout :: pyval

definition unix_address_post_init :: "unix_address \<Rightarrow> unit result" where
  "unix_address_post_init a = positive (ua_connect_timeout a)"

record tcp_address =
  ta_host :: pystr
  ta_port :: pyval
  ta_ssl_context :: "ssl_context option"
  ta_server_hostname :: "pystr option"
  ta_insecure :: bool
  ta_connect_timeout :: pyval

definition valid_port :: "pyval \<Rightarrow> unit result" where
  "valid_port port = first_error
     [check (\<not> (is_bool port \<or> \<not> is_int port)) (TypeError ''port must be an integer''),
      check (0 \<le> int_of port \<and> int_of port \<le> 65535)
        (ValueError ''port must be between 0 and 65535'')]"

definition tcp_address_post_init :: "tcp_address \<Rightarrow> unit result" where
  "tcp_address_post_init a = first_error
     [valid_port (ta_port a),
      positive (ta_connect_timeout a),
      check (\<not> (ta_ssl_context a = None \<and> \<not> ta_insecure a))
        (ValueError ''TCP requires ssl_context or explicit insecure=True''),
      (case ta_ssl_context a of None \<Rightarrow> Inr () | Some c \<Rightarrow> validate_client_tls c),
      check (\<not> (ta_insecure a \<and> ta_host a \<notin> insecure_loopback_hosts))
        (ValueError ''insecure TCP addresses are restricted to loopback'')]"

record unix_listener =
  ul_path :: pystr
  ul_mode :: pyval
  ul_owner_uid :: pyval
  ul_owner_gid :: pyval
  ul_backlog :: pyval
  ul_stale_policy :: pystr
  ul_optional :: bool

definition valid_owner :: "string \<Rightarrow> pyval \<Rightarrow> unit result" where
  "valid_owner msg v =
     check (\<not> (v \<noteq> VNone \<and> (is_bool v \<or> \<not> is_int v \<or> num_lt0 v))) (ValueError msg)"

definition unix_listener_post_init :: "unix_listener \<Rightarrow> unit result" where
  "unix_listener_post_init l = first_error
     [check (ul_stale_policy l = lit ''error'' \<or> ul_stale_policy l = lit ''force_unlink'')
        (ValueError ''stale_policy must be 'error' or 'force_unlink' ''),
      check (\<not> (is_bool (ul_mode l) \<or> \<not> is_int (ul_mode l))) (TypeError ''mode must be an integer''),
      check (0 \<le> int_of (ul_mode l) \<and> int_of (ul_mode l) \<le> 511)
        (ValueError ''mode must be a permission mode''),
      positive_int (ul_backlog l),
      valid_owner ''owner_uid must be a non-negative integer or None'' (ul_owner_uid l),
      valid_owner ''owner_gid must be a non-negative integer or None'' (ul_owner_gid l)]"

record tcp_listener =
  tl_host :: pystr
  tl_port :: pyval
  tl_ssl_context :: "ssl_context option"
  tl_insecure :: bool
  tl_backlog :: pyval
  tl_keepalive :: bool
  tl_optional :: bool

definition tcp_listener_post_init :: "tcp_listener \<Rightarrow> unit result" where
  "tcp_listener_post_init l = first_error
     [valid_port (tl_port l),
      positive_int (tl_backlog l),
      check (\<not> (tl_ssl_context l = None \<and> \<not> tl_insecure l))
        (ValueError ''TCP requires ssl_context or explicit insecure=True''),
      (case tl_ssl_context l of None \<Rightarrow> Inr () | Some c \<Rightarrow> validate_server_tls c),
      check (\<not> (tl_insecure l \<and> tl_host l \<notin> insecure_loopback_hosts))
        (ValueError ''insecure TCP listeners are restricted to loopback'')]"

subsection \<open>Resource limits\<close>

text \<open>
  \<open>RemoteLimits\<close> as the other components read it, and its constructor: \<open>g name\<close> is
  \<open>getattr(self, name)\<close>, \<open>limit_fields\<close> the order in which \<open>fields(self)\<close> visits the fields.
\<close>

record remote_limits =
  max_control_bytes :: int
  max_frame_payload_bytes :: int
  max_message_bytes :: int
  max_invocation_bytes :: int
  max_result_bytes :: int
  max_metadata_bytes :: int
  max_chunks :: int
  max_incomplete_messages :: int
  max_unauthenticated_connections :: int
  max_connections_global :: int
  max_connections_per_principal :: int
  max_pending_per_session :: int
  max_pending_per_principal :: int
  max_pending_global :: int
  max_retained_outcomes_per_session :: int
  max_retained_outcomes_global :: int
  max_retained_outcome_bytes_per_session :: int
  max_retained_outcome_bytes_global :: int
  max_staged_tasks :: int
  outbound_queue_size :: int
  inbound_queue_size :: int
  callback_queue_size :: int
  completion_workers :: int
  control_timeout :: rat
  handshake_timeout :: rat
  partial_frame_timeout :: rat

definition duration_fields :: "string list" where
  "duration_fields = [''control_timeout'', ''handshake_timeout'', ''partial_frame_timeout'']"

definition limit_defaults :: "(string, pyval) dict" where
  "limit_defaults =
     [(''max_control_bytes'', VInt (64 * 1024)),
      (''max_frame_payload_bytes'', VInt (1024 * 1024)),
      (''max_message_bytes'', VInt (64 * 1024 * 1024)),
      (''max_invocation_bytes'', VInt (32 * 1024 * 1024)),
      (''max_result_bytes'', VInt (32 * 1024 * 1024)),
      (''max_metadata_bytes'', VInt (16 * 1024)),
      (''max_chunks'', VInt 256),
      (''max_incomplete_messages'', VInt 16),
      (''max_unauthenticated_connections'', VInt 64),
      (''max_connections_global'', VInt 256),
      (''max_connections_per_principal'', VInt 64),
      (''max_pending_per_session'', VInt 1024),
      (''max_pending_per_principal'', VInt 2048),
      (''max_pending_global'', VInt 4096),
      (''max_retained_outcomes_per_session'', VInt 64),
      (''max_retained_outcomes_global'', VInt 1024),
      (''max_retained_outcome_bytes_per_session'', VInt (256 * 1024 * 1024)),
      (''max_retained_outcome_bytes_global'', VInt (1024 * 1024 * 1024)),
      (''max_staged_tasks'', VInt 128),
      (''outbound_queue_size'', VInt 1024),
      (''inbound_queue_size'', VInt 1024),
      (''callback_queue_size'', VInt 1024),
      (''completion_workers'', VInt 4),
      (''control_timeout'', VFloat (Finite 5)),
      (''handshake_timeout'', VFloat (Finite 5)),
      (''partial_frame_timeout'', VFloat (Finite 10))]"

definition limit_fields :: "string list" where
  "limit_fields = dkeys limit_defaults"

text \<open>Keyword arguments override the defaults of the dataclass.\<close>

definition limit_getattr :: "(string, pyval) dict \<Rightarrow> string \<Rightarrow> pyval" where
  "limit_getattr kwargs name =
     (case map_of kwargs name of Some v \<Rightarrow> v
      | None \<Rightarrow> (case map_of limit_defaults name of Some v \<Rightarrow> v | None \<Rightarrow> VNone))"

definition limits_of :: "(string \<Rightarrow> pyval) \<Rightarrow> remote_limits" where
  "limits_of g =
     \<lparr>max_control_bytes = int_of (g ''max_control_bytes''),
      max_frame_payload_bytes = int_of (g ''max_frame_payload_bytes''),
      max_message_bytes = int_of (g ''max_message_bytes''),
      max_invocation_bytes = int_of (g ''max_invocation_bytes''),
      max_result_bytes = int_of (g ''max_result_bytes''),
      max_metadata_bytes = int_of (g ''max_metadata_bytes''),
      max_chunks = int_of (g ''max_chunks''),
      max_incomplete_messages = int_of (g ''max_incomplete_messages''),
      max_unauthenticated_connections = int_of (g ''max_unauthenticated_connections''),
      max_connections_global = int_of (g ''max_connections_global''),
      max_connections_per_principal = int_of (g ''max_connections_per_principal''),
      max_pending_per_session = int_of (g ''max_pending_per_session''),
      max_pending_per_principal = int_of (g ''max_pending_per_principal''),
      max_pending_global = int_of (g ''max_pending_global''),
      max_retained_outcomes_per_session = int_of (g ''max_retained_outcomes_per_session''),
      max_retained_outcomes_global = int_of (g ''max_retained_outcomes_global''),
      max_retained_outcome_bytes_per_session = int_of (g ''max_retained_outcome_bytes_per_session''),
      max_retained_outcome_bytes_global = int_of (g ''max_retained_outcome_bytes_global''),
      max_staged_tasks = int_of (g ''max_staged_tasks''),
      outbound_queue_size = int_of (g ''outbound_queue_size''),
      inbound_queue_size = int_of (g ''inbound_queue_size''),
      callback_queue_size = int_of (g ''callback_queue_size''),
      completion_workers = int_of (g ''completion_workers''),
      control_timeout = num_rat (g ''control_timeout''),
      handshake_timeout = num_rat (g ''handshake_timeout''),
      partial_frame_timeout = num_rat (g ''partial_frame_timeout'')\<rparr>"

definition field_check :: "(string \<Rightarrow> pyval) \<Rightarrow> string \<Rightarrow> unit result" where
  "field_check g name =
     (if name \<in> set duration_fields then positive (g name) else positive_int (g name))"

definition cross_checks :: "remote_limits \<Rightarrow> unit result list" where
  "cross_checks l =
     [check (\<not> max_frame_payload_bytes l > max_message_bytes l)
        (ValueError ''max_frame_payload_bytes cannot exceed max_message_bytes''),
      check (\<not> max_invocation_bytes l > max_message_bytes l)
        (ValueError ''max_invocation_bytes cannot exceed max_message_bytes''),
      check (\<not> max_result_bytes l > max_message_bytes l)
        (ValueError ''max_result_bytes cannot exceed max_message_bytes''),
      check (\<not> max_frame_payload_bytes l * max_chunks l < max_message_bytes l)
        (ValueError ''max_chunks cannot represent max_message_bytes''),
      check (\<not> max_connections_per_principal l > max_connections_global l)
        (ValueError ''max_connections_per_principal cannot exceed max_connections_global''),
      check (\<not> max_pending_per_principal l > max_pending_global l)
        (ValueError ''max_pending_per_principal cannot exceed max_pending_global''),
      check (\<not> max_retained_outcomes_per_session l > max_retained_outcomes_global l)
        (ValueError ''per-session retained outcome count cannot exceed the global count''),
      check (\<not> max_retained_outcome_bytes_per_session l > max_retained_outcome_bytes_global l)
        (ValueError ''per-session retained outcome bytes cannot exceed the global bytes'')]"

definition remote_limits_init :: "(string, pyval) dict \<Rightarrow> remote_limits result" where
  "remote_limits_init kwargs =
     (let g = limit_getattr kwargs in
      case first_error (map (field_check g) limit_fields @ cross_checks (limits_of g)) of
        Inl e \<Rightarrow> Inl e
      | Inr _ \<Rightarrow> Inr (limits_of g))"

subsection \<open>Peers and principals\<close>

record peer_info =
  pi_transport :: pystr
  pi_uid :: "int option"
  pi_gid :: "int option"
  pi_pid :: "int option"
  pi_certificate :: "bytes option"

record principal =
  principal_name :: pystr

text \<open>
  What every other component may assume of a \<open>RemoteLimits\<close> object: all bounds are positive and
  consistent with each other.
\<close>

definition limits_ok :: "remote_limits \<Rightarrow> bool" where
  "limits_ok l \<longleftrightarrow>
     0 < max_control_bytes l \<and> 0 < max_frame_payload_bytes l \<and> 0 < max_message_bytes l \<and>
     0 < max_invocation_bytes l \<and> 0 < max_result_bytes l \<and> 0 < max_metadata_bytes l \<and>
     0 < max_chunks l \<and> 0 < max_incomplete_messages l \<and>
     0 < max_unauthenticated_connections l \<and> 0 < max_connections_global l \<and>
     0 < max_connections_per_principal l \<and> 0 < max_pending_per_session l \<and>
     0 < max_pending_per_principal l \<and> 0 < max_pending_global l \<and>
     0 < max_retained_outcomes_per_session l \<and> 0 < max_retained_outcomes_global l \<and>
     0 < max_retained_outcome_bytes_per_session l \<and> 0 < max_retained_outcome_bytes_global l \<and>
     0 < max_staged_tasks l \<and> 0 < outbound_queue_size l \<and> 0 < inbound_queue_size l \<and>
     0 < callback_queue_size l \<and> 0 < completion_workers l \<and>
     0 < control_timeout l \<and> 0 < handshake_timeout l \<and> 0 < partial_frame_timeout l \<and>
     max_frame_payload_bytes l \<le> max_message_bytes l \<and>
     max_invocation_bytes l \<le> max_message_bytes l \<and>
     max_result_bytes l \<le> max_message_bytes l \<and>
     max_message_bytes l \<le> max_frame_payload_bytes l * max_chunks l \<and>
     max_connections_per_principal l \<le> max_connections_global l \<and>
     max_pending_per_principal l \<le> max_pending_global l \<and>
     max_retained_outcomes_per_session l \<le> max_retained_outcomes_global l \<and>
     max_retained_outcome_bytes_per_session l \<le> max_retained_outcome_bytes_global l"

lemma first_error_ok [simp]: "first_error cs = Inr u \<longleftrightarrow> (\<forall>c \<in> set cs. c = Inr ())"
  by (induction cs rule: first_error.induct) auto

lemma positive_int_ok: "positive_int v = Inr u \<longleftrightarrow> (\<exists>i > 0. v = VInt i)"
  by (cases v) (auto simp: positive_int_def not_le)

lemma positive_ok: "positive v = Inr u \<longleftrightarrow> (\<exists>i > 0. v = VInt i) \<or> (\<exists>r > 0. v = VFloat (Finite r))"
proof (cases v)
  case (VFloat f)
  then show ?thesis by (cases f) (auto simp: positive_def not_le)
qed (auto simp: positive_def not_le)

lemma valid_port_ok: "valid_port v = Inr u \<longleftrightarrow> (\<exists>i. v = VInt i \<and> 0 \<le> i \<and> i \<le> 65535)"
  by (cases v) (auto simp: valid_port_def)

text \<open>The types a constructor call must respect: integers for bounds, finite numbers for durations.\<close>

fun duration_typed :: "pyval \<Rightarrow> bool" where
  "duration_typed (VInt _) = True"
| "duration_typed (VFloat (Finite _)) = True"
| "duration_typed _ = False"

fun bound_typed :: "pyval \<Rightarrow> bool" where
  "bound_typed (VInt _) = True"
| "bound_typed _ = False"

definition limits_typed :: "(string \<Rightarrow> pyval) \<Rightarrow> bool" where
  "limits_typed g \<longleftrightarrow>
     (\<forall>name \<in> set limit_fields.
        if name \<in> set duration_fields then duration_typed (g name) else bound_typed (g name))"

lemma field_check_ok:
  "field_check g name = Inr () \<longleftrightarrow>
     (if name \<in> set duration_fields then duration_typed (g name) \<and> 0 < num_rat (g name)
      else bound_typed (g name) \<and> 0 < int_of (g name))"
proof (cases "g name")
  case (VFloat f)
  then show ?thesis by (cases f) (auto simp: field_check_def positive_ok positive_int_ok)
qed (auto simp: field_check_def positive_ok positive_int_ok)

lemma limits_init_iff:
  "first_error (map (field_check g) limit_fields @ cross_checks (limits_of g)) = Inr () \<longleftrightarrow>
     limits_typed g \<and> limits_ok (limits_of g)"
proof -
  have fields: "(\<forall>name \<in> set limit_fields. field_check g name = Inr ()) \<longleftrightarrow> limits_typed g \<and>
      (\<forall>name \<in> set limit_fields.
         if name \<in> set duration_fields then 0 < num_rat (g name) else 0 < int_of (g name))"
    unfolding field_check_ok limits_typed_def by (auto split: if_splits)
  have pos: "(\<forall>name \<in> set limit_fields.
         if name \<in> set duration_fields then 0 < num_rat (g name) else 0 < int_of (g name)) \<and>
      (\<forall>c \<in> set (cross_checks (limits_of g)). c = Inr ()) \<longleftrightarrow> limits_ok (limits_of g)"
    by (simp add: limit_fields_def limit_defaults_def duration_fields_def cross_checks_def
        limits_ok_def limits_of_def not_less conj_ac)
  show ?thesis unfolding first_error_ok using fields pos by auto
qed

lemma remote_limits_init_Inr:
  "remote_limits_init kwargs = Inr l \<longleftrightarrow>
     limits_typed (limit_getattr kwargs) \<and> limits_ok l \<and> l = limits_of (limit_getattr kwargs)"
  using limits_init_iff [of "limit_getattr kwargs"]
  by (auto simp: remote_limits_init_def Let_def simp del: first_error_ok split: sum.splits)

text \<open>The defaults are accepted; they are the limits the concrete examples below use.\<close>

definition default_limits :: remote_limits where
  "default_limits = limits_of (limit_getattr [])"

lemma default_limits_accepted: "remote_limits_init [] = Inr default_limits"
  by code_simp

lemma default_limits_ok: "limits_ok default_limits"
  using default_limits_accepted by (simp add: remote_limits_init_Inr)

subsection \<open>Properties\<close>

text \<open>
  The constructor of \<open>RemoteLimits\<close> accepts exactly the arguments whose bounds are integers,
  whose durations are finite numbers, and that are positive and mutually consistent; it then
  returns those values, and every accepted object satisfies the assumptions the protocol and the
  broker make about their limits.
\<close>

theorem remote_limits_init_characterised:
  "(case remote_limits_init kwargs of
      Inl e \<Rightarrow> \<not> (limits_typed (limit_getattr kwargs) \<and> limits_ok (limits_of (limit_getattr kwargs)))
    | Inr l \<Rightarrow> limits_typed (limit_getattr kwargs) \<and> limits_ok l \<and> l = limits_of (limit_getattr kwargs))"
  using remote_limits_init_Inr [of kwargs "limits_of (limit_getattr kwargs)"]
    remote_limits_init_Inr [of kwargs]
  by (cases "remote_limits_init kwargs") auto

text \<open>
  (C29) Transport security is decided at configuration time: an accepted TCP address or listener
  either carries a TLS context that verifies its peer (and, on the client, the host name) and
  requires TLS 1.2 or newer, or is explicitly insecure; and insecure endpoints are confined to
  127.0.0.1.  Its port is a number a socket can bind.
\<close>

theorem tcp_endpoints_secure:
  "(tcp_address_post_init a = Inr () \<longrightarrow>
      (ta_ssl_context a \<noteq> None \<or> ta_insecure a) \<and>
      (\<forall>c. ta_ssl_context a = Some c \<longrightarrow> cert_required c \<and> check_hostname c \<and> TLSv1_2 \<le> minimum_version c) \<and>
      (ta_insecure a \<longrightarrow> ta_host a = lit ''127.0.0.1'') \<and>
      (\<exists>i. ta_port a = VInt i \<and> 0 \<le> i \<and> i \<le> 65535)) \<and>
   (tcp_listener_post_init l = Inr () \<longrightarrow>
      (tl_ssl_context l \<noteq> None \<or> tl_insecure l) \<and>
      (\<forall>c. tl_ssl_context l = Some c \<longrightarrow> cert_required c \<and> TLSv1_2 \<le> minimum_version c) \<and>
      (tl_insecure l \<longrightarrow> tl_host l = lit ''127.0.0.1'') \<and>
      (\<exists>i. tl_port l = VInt i \<and> 0 \<le> i \<and> i \<le> 65535))"
  by (auto simp: tcp_address_post_init_def tcp_listener_post_init_def valid_port_ok
      validate_client_tls_def validate_server_tls_def insecure_loopback_hosts_def not_less
      split: if_splits option.splits)

theorem tcp_endpoints_secure_witness:
  "tcp_address_post_init \<lparr>ta_host = lit ''db.example'', ta_port = VInt 7777,
      ta_ssl_context = Some \<lparr>cert_required = True, check_hostname = True, minimum_version = 772\<rparr>,
      ta_server_hostname = None, ta_insecure = False, ta_connect_timeout = VFloat (Finite 5)\<rparr> = Inr () \<and>
   \<not> tcp_listener_post_init \<lparr>tl_host = lit ''0.0.0.0'', tl_port = VInt 7777, tl_ssl_context = None,
      tl_insecure = True, tl_backlog = VInt 128, tl_keepalive = True, tl_optional = False\<rparr> = Inr ()"
proof (rule conjI)
  show "\<not> tcp_listener_post_init \<lparr>tl_host = lit ''0.0.0.0'', tl_port = VInt 7777, tl_ssl_context = None,
      tl_insecure = True, tl_backlog = VInt 128, tl_keepalive = True, tl_optional = False\<rparr> = Inr ()"
    using tcp_endpoints_secure [of undefined "\<lparr>tl_host = lit ''0.0.0.0'', tl_port = VInt 7777,
      tl_ssl_context = None, tl_insecure = True, tl_backlog = VInt 128, tl_keepalive = True,
      tl_optional = False\<rparr>"] by auto
qed code_simp

end
