(* ===== verification/Json.thy ===== *)
theory Json
  imports Config
begin

text \<open>
  The JSON layer of \<open>deadpool/remote/_protocol.py\<close>: control objects, the validators that bound
  them, the lexical nesting guard and the decoding of a control header.  The grammar of
  \<open>json.loads\<close> and the UTF-8 codec are the standard library's: \<open>json_loads\<close> takes them as the
  argument \<open>scan\<close>, which maps the text of a header to its parse tree before the two hooks the
  code installs (\<open>object_pairs_hook\<close> and \<open>parse_constant\<close>) have run.
\<close>

datatype json =
    JNull
  | JBool bool
  | JInt int
  | JFloat pyfloat
  | JStr pystr
  | JList "json list"
  | JDict "(json \<times> json) list"
  | JOther

abbreviation max_json_depth :: nat where
  "max_json_depth \<equiv> 12"

abbreviation J :: "string \<Rightarrow> json" where
  "J s \<equiv> JStr (lit s)"

subsection \<open>Reading dictionaries\<close>

definition jget :: "(json \<times> json) list \<Rightarrow> string \<Rightarrow> json" where
  "jget d key = (case map_of d (J key) of None \<Rightarrow> JNull | Some v \<Rightarrow> v)"

definition jhas :: "(json \<times> json) list \<Rightarrow> string \<Rightarrow> bool" where
  "jhas d key = (map_of d (J key) \<noteq> None)"

text \<open>\<open>isinstance(item, int) and not isinstance(item, bool)\<close>\<close>

fun json_int :: "json \<Rightarrow> int option" where
  "json_int (JInt i) = Some i"
| "json_int _ = None"

fun json_str :: "json \<Rightarrow> pystr option" where
  "json_str (JStr s) = Some s"
| "json_str _ = None"

fun json_dict :: "json \<Rightarrow> (json \<times> json) list option" where
  "json_dict (JDict d) = Some d"
| "json_dict _ = None"

subsection \<open>Control objects\<close>

type_synonym control = "(json \<times> json) list"

definition ctl :: "(string \<times> json) list \<Rightarrow> control" where
  "ctl kvs = map (\<lambda>(k, v). (J k, v)) kvs"

definition opt_json :: "pystr option \<Rightarrow> json" where
  "opt_json v = (case v of None \<Rightarrow> JNull | Some s \<Rightarrow> JStr s)"

text \<open>Equality of two dicts does not depend on the order of their keys.\<close>

definition same_dict :: "control \<Rightarrow> control \<Rightarrow> bool" where
  "same_dict d e \<longleftrightarrow>
     (\<forall>k \<in> set (dkeys d). map_of d k = map_of e k) \<and> (\<forall>k \<in> set (dkeys e). map_of d k = map_of e k)"

text \<open>\<open>str\<close> of an integer.\<close>

fun nat_digits :: "nat \<Rightarrow> pystr" where
  "nat_digits n = (if n < 10 then [48 + n] else nat_digits (n div 10) @ [48 + n mod 10])"

definition int_digits :: "int \<Rightarrow> pystr" where
  "int_digits i = (if i < 0 then 45 # nat_digits (nat (- i)) else nat_digits (nat i))"

subsection \<open>UTF-8 sizes\<close>

definition is_surrogate :: "nat \<Rightarrow> bool" where
  "is_surrogate c \<longleftrightarrow> 0xD800 \<le> c \<and> c \<le> 0xDFFF"

definition utf8_size :: "nat \<Rightarrow> nat" where
  "utf8_size c = (if c < 0x80 then 1 else if c < 0x800 then 2 else if c < 0x10000 then 3 else 4)"

text \<open>\<open>len(value.encode("utf-8"))\<close>: a lone surrogate cannot be encoded.\<close>

definition utf8_length :: "pystr \<Rightarrow> int result" where
  "utf8_length s =
     (if \<exists>c \<in> set s. is_surrogate c then Inl UnicodeEncodeError
      else Inr (int (sum_list (map utf8_size s))))"

subsection \<open>Validation of control values\<close>

function (sequential) validate_json :: "remote_limits \<Rightarrow> nat \<Rightarrow> json \<Rightarrow> unit result"
  and validate_items :: "remote_limits \<Rightarrow> nat \<Rightarrow> json list \<Rightarrow> unit result"
  and validate_pairs :: "remote_limits \<Rightarrow> nat \<Rightarrow> (json \<times> json) list \<Rightarrow> unit result" where
  "validate_json l depth value =
     (if depth > max_json_depth
      then Inl (RemoteProtocolError ''control JSON is too deeply nested'')
      else case value of
        JStr s \<Rightarrow>
          (case utf8_length s of
             Inl e \<Rightarrow> Inl e
           | Inr n \<Rightarrow> if n > max_metadata_bytes l
                     then Inl (RemoteProtocolError ''control string exceeds metadata limit'')
                     else Inr ())
      | JBool _ \<Rightarrow> Inr ()
      | JNull \<Rightarrow> Inr ()
      | JInt i \<Rightarrow>
          if \<not> (- (2 ^ 63) \<le> i \<and> i < 2 ^ 63)
          then Inl (RemoteProtocolError ''control integer exceeds signed 64-bit range'')
          else Inr ()
      | JFloat f \<Rightarrow>
          if \<not> float_isfinite f then Inl (RemoteProtocolError ''control number must be finite'')
          else Inr ()
      | JList items \<Rightarrow>
          if length items > 1024 then Inl (RemoteProtocolError ''control list is too large'')
          else validate_items l (Suc depth) items
      | JDict items \<Rightarrow>
          if length items > 128
          then Inl (RemoteProtocolError ''control object has too many keys'')
          else validate_pairs l (Suc depth) items
      | JOther \<Rightarrow> Inl (RemoteProtocolError ''unsupported control value''))"
| "validate_items l depth [] = Inr ()"
| "validate_items l depth (item # items) =
     (case validate_json l depth item of Inl e \<Rightarrow> Inl e | Inr _ \<Rightarrow> validate_items l depth items)"
| "validate_pairs l depth [] = Inr ()"
| "validate_pairs l depth ((key, item) # items) =
     (if json_str key = None
      then Inl (RemoteProtocolError ''control object keys must be strings'')
      else case validate_json l depth key of
        Inl e \<Rightarrow> Inl e
      | Inr _ \<Rightarrow>
        (case validate_json l depth item of
           Inl e \<Rightarrow> Inl e
         | Inr _ \<Rightarrow> validate_pairs l depth items))"
  by pat_completeness auto
termination
  by (relation "measure (case_sum (\<lambda>(l, d, v). size v)
        (case_sum (\<lambda>(l, d, vs). size_list size vs)
                  (\<lambda>(l, d, ps). size_list (size_prod size size) ps)))") auto

declare validate_json.simps [simp del]

subsection \<open>The lexical nesting guard\<close>

abbreviation "ch_quote \<equiv> 34 :: nat"
abbreviation "ch_backslash \<equiv> 92 :: nat"

definition opens :: "nat \<Rightarrow> bool" where
  "opens c \<longleftrightarrow> c = 91 \<or> c = 123"

definition closes :: "nat \<Rightarrow> bool" where
  "closes c \<longleftrightarrow> c = 93 \<or> c = 125"

fun nesting_loop :: "pystr \<Rightarrow> int \<Rightarrow> bool \<Rightarrow> bool \<Rightarrow> unit result" where
  "nesting_loop [] depth in_string escaped = Inr ()"
| "nesting_loop (c # text) depth in_string escaped =
     (if in_string then
        (if escaped then nesting_loop text depth True False
         else if c = ch_backslash then nesting_loop text depth True True
         else if c = ch_quote then nesting_loop text depth False False
         else nesting_loop text depth True False)
      else if c = ch_quote then nesting_loop text depth True escaped
      else if opens c then
        (if depth + 1 > int max_json_depth + 1
         then Inl (RemoteProtocolError ''control JSON is too deeply nested'')
         else nesting_loop text (depth + 1) False escaped)
      else if closes c then nesting_loop text (depth - 1) False escaped
      else nesting_loop text depth False escaped)"

definition validate_json_nesting :: "pystr \<Rightarrow> unit result" where
  "validate_json_nesting text = nesting_loop text 0 False False"

subsection \<open>Decoding a control header\<close>

text \<open>The parse tree of a JSON text: object members in order, \<open>RConst\<close> for NaN and the infinities.\<close>

datatype jraw =
    RNull
  | RBool bool
  | RInt int
  | RFloat pyfloat
  | RConst
  | RStr pystr
  | RList "jraw list"
  | RObj "(pystr \<times> jraw) list"

fun unique_object :: "(pystr \<times> json) list \<Rightarrow> (json \<times> json) list \<Rightarrow> (json \<times> json) list result" where
  "unique_object [] value = Inr value"
| "unique_object ((key, item) # items) value =
     (if map_of value (JStr key) \<noteq> None then Inl (ValueError ''duplicate JSON key'')
      else unique_object items (AList.update (JStr key) item value))"

text \<open>The hooks run as each object or constant is completed, inside out and left to right.\<close>

fun build_json :: "jraw \<Rightarrow> json result"
  and build_items :: "jraw list \<Rightarrow> json list result"
  and build_pairs :: "(pystr \<times> jraw) list \<Rightarrow> (pystr \<times> json) list result" where
  "build_json RNull = Inr JNull"
| "build_json (RBool b) = Inr (JBool b)"
| "build_json (RInt i) = Inr (JInt i)"
| "build_json (RFloat f) = Inr (JFloat f)"
| "build_json RConst = Inl (ValueError ''non-finite JSON number'')"
| "build_json (RStr s) = Inr (JStr s)"
| "build_json (RList rs) = (case build_items rs of Inl e \<Rightarrow> Inl e | Inr vs \<Rightarrow> Inr (JList vs))"
| "build_json (RObj ps) =
     (case build_pairs ps of
        Inl e \<Rightarrow> Inl e
      | Inr items \<Rightarrow>
          (case unique_object items [] of Inl e \<Rightarrow> Inl e | Inr d \<Rightarrow> Inr (JDict d)))"
| "build_items [] = Inr []"
| "build_items (r # rs) =
     (case build_json r of
        Inl e \<Rightarrow> Inl e
      | Inr v \<Rightarrow> (case build_items rs of Inl e \<Rightarrow> Inl e | Inr vs \<Rightarrow> Inr (v # vs)))"
| "build_pairs [] = Inr []"
| "build_pairs ((k, r) # ps) =
     (case build_json r of
        Inl e \<Rightarrow> Inl e
      | Inr v \<Rightarrow> (case build_pairs ps of Inl e \<Rightarrow> Inl e | Inr vs \<Rightarrow> Inr ((k, v) # vs)))"

text \<open>
  \<open>_json_loads\<close>.  \<open>decode\<close> is the strict UTF-8 decoder and \<open>scan\<close> the JSON grammar; \<open>None\<close> is a
  \<open>UnicodeDecodeError\<close>, \<open>JSONDecodeError\<close> or \<open>RecursionError\<close>.  Only these, and the hooks'
  \<open>ValueError\<close>s, are converted to a protocol error; the validation after them is outside the
  \<open>try\<close> block.
\<close>

definition json_loads ::
    "(bytes \<Rightarrow> pystr option) \<Rightarrow> (pystr \<Rightarrow> jraw option) \<Rightarrow> bytes \<Rightarrow> remote_limits \<Rightarrow> (json \<times> json) list result" where
  "json_loads decode scan data l =
     (case decode data of
        None \<Rightarrow> Inl (RemoteProtocolError ''invalid control JSON'')
      | Some text \<Rightarrow>
        (case validate_json_nesting text of
           Inl e \<Rightarrow> Inl e
         | Inr _ \<Rightarrow>
           (case scan text of
              None \<Rightarrow> Inl (RemoteProtocolError ''invalid control JSON'')
            | Some raw \<Rightarrow>
              (case build_json raw of
                 Inl e \<Rightarrow> Inl (RemoteProtocolError ''invalid control JSON'')
               | Inr value \<Rightarrow>
                 (case validate_json l 0 value of
                    Inl e \<Rightarrow> Inl e
                  | Inr _ \<Rightarrow>
                    (case json_dict value of
                       None \<Rightarrow> Inl (RemoteProtocolError ''control header must be a JSON object'')
                     | Some d \<Rightarrow> Inr d))))))"

subsection \<open>Wire limits\<close>

definition wire_limit_fields :: "string list" where
  "wire_limit_fields =
     [''max_control_bytes'', ''max_frame_payload_bytes'', ''max_message_bytes'',
      ''max_metadata_bytes'', ''max_chunks'']"

definition wire_limits :: "remote_limits \<Rightarrow> (json \<times> json) list" where
  "wire_limits l =
     [(J ''max_control_bytes'', JInt (max_control_bytes l)),
      (J ''max_frame_payload_bytes'', JInt (max_frame_payload_bytes l)),
      (J ''max_message_bytes'', JInt (max_message_bytes l)),
      (J ''max_metadata_bytes'', JInt (max_metadata_bytes l)),
      (J ''max_chunks'', JInt (max_chunks l))]"

fun positive_limits :: "(json \<times> json) list \<Rightarrow> unit result" where
  "positive_limits [] = Inr ()"
| "positive_limits ((name, limit) # rest) =
     (case json_int limit of
        None \<Rightarrow> Inl (RemoteProtocolError ''wire limit must be a positive integer'')
      | Some i \<Rightarrow>
          if i \<le> 0 then Inl (RemoteProtocolError ''wire limit must be a positive integer'')
          else positive_limits rest)"

definition validate_wire_limits :: "json \<Rightarrow> (json \<times> json) list result" where
  "validate_wire_limits value =
     (case json_dict value of
        None \<Rightarrow> Inl (RemoteProtocolError ''wire limits have invalid fields'')
      | Some d \<Rightarrow>
          if set (dkeys d) \<noteq> set (map J wire_limit_fields)
          then Inl (RemoteProtocolError ''wire limits have invalid fields'')
          else (case positive_limits d of Inl e \<Rightarrow> Inl e | Inr _ \<Rightarrow> Inr d))"

subsection \<open>What a validated value is\<close>

text \<open>Depth below the root: an item or key of a container is one deeper than the container.\<close>

function (sequential) json_depth :: "json \<Rightarrow> nat"
  and items_depth :: "json list \<Rightarrow> nat"
  and pairs_depth :: "(json \<times> json) list \<Rightarrow> nat" where
  "json_depth (JList items) = items_depth items"
| "json_depth (JDict items) = pairs_depth items"
| "json_depth _ = 0"
| "items_depth [] = 0"
| "items_depth (v # vs) = max (Suc (json_depth v)) (items_depth vs)"
| "pairs_depth [] = 0"
| "pairs_depth ((k, v) # ps) = max (Suc (json_depth k)) (max (Suc (json_depth v)) (pairs_depth ps))"
  by pat_completeness auto
termination
  by (relation "measure (case_sum size (case_sum (size_list size) (size_list (size_prod size size))))") auto

text \<open>A predicate on a value and everything inside it.\<close>

function (sequential) json_all :: "(json \<Rightarrow> bool) \<Rightarrow> json \<Rightarrow> bool"
  and items_all :: "(json \<Rightarrow> bool) \<Rightarrow> json list \<Rightarrow> bool"
  and pairs_all :: "(json \<Rightarrow> bool) \<Rightarrow> (json \<times> json) list \<Rightarrow> bool" where
  "json_all P (JList items) = (P (JList items) \<and> items_all P items)"
| "json_all P (JDict items) = (P (JDict items) \<and> pairs_all P items)"
| "json_all P v = P v"
| "items_all P [] = True"
| "items_all P (v # vs) = (json_all P v \<and> items_all P vs)"
| "pairs_all P [] = True"
| "pairs_all P ((k, v) # ps) = (json_all P k \<and> json_all P v \<and> pairs_all P ps)"
  by pat_completeness auto
termination
  by (relation "measure (case_sum (\<lambda>(P, v). size v) (case_sum (\<lambda>(P, vs). size_list size vs)
        (\<lambda>(P, ps). size_list (size_prod size size) ps)))") auto

fun node_ok :: "remote_limits \<Rightarrow> json \<Rightarrow> bool" where
  "node_ok l (JStr s) =
     ((\<forall>c \<in> set s. \<not> is_surrogate c) \<and> int (sum_list (map utf8_size s)) \<le> max_metadata_bytes l)"
| "node_ok l (JInt i) = (- (2 ^ 63) \<le> i \<and> i < 2 ^ 63)"
| "node_ok l (JFloat f) = float_isfinite f"
| "node_ok l (JList items) = (length items \<le> 1024)"
| "node_ok l (JDict items) = (length items \<le> 128 \<and> (\<forall>k \<in> set (dkeys items). json_str k \<noteq> None))"
| "node_ok l JOther = False"
| "node_ok l _ = True"

lemma validate_json_iff:
  "validate_json l d v = Inr u \<longleftrightarrow> d + json_depth v \<le> max_json_depth \<and> json_all (node_ok l) v"
  "validate_items l d vs = Inr u \<longleftrightarrow>
     (vs = [] \<or> d + items_depth vs \<le> Suc max_json_depth) \<and> items_all (node_ok l) vs"
  "validate_pairs l d ps = Inr u \<longleftrightarrow>
     (ps = [] \<or> d + pairs_depth ps \<le> Suc max_json_depth) \<and> pairs_all (node_ok l) ps \<and>
     (\<forall>k \<in> set (dkeys ps). json_str k \<noteq> None)"
proof (induction l d v and l d vs and l d ps rule: validate_json_validate_items_validate_pairs.induct)
  case (1 l d v)
  then show ?case
    by (subst validate_json.simps)
      (cases v; auto simp: utf8_length_def not_less not_le split: if_splits)
next
  case (3 l d v vs)
  then show ?case by (auto split: sum.splits)
next
  case (5 l d k v ps)
  then show ?case by (auto split: sum.splits)
qed auto

text \<open>The exceptions validation can raise: protocol errors, or the encoder's on a lone surrogate.\<close>

fun wire_error :: "exn \<Rightarrow> bool" where
  "wire_error (RemoteProtocolError _) = True"
| "wire_error UnicodeEncodeError = True"
| "wire_error _ = False"

lemma validate_json_error:
  "validate_json l d v = Inl e \<Longrightarrow> wire_error e"
  "validate_items l d vs = Inl e \<Longrightarrow> wire_error e"
  "validate_pairs l d ps = Inl e \<Longrightarrow> wire_error e"
proof (induction l d v and l d vs and l d ps rule: validate_json_validate_items_validate_pairs.induct)
  case (1 l d v)
  then show ?case
    by (subst (asm) validate_json.simps)
      (cases v; auto simp: utf8_length_def split: if_splits)
qed (auto split: sum.splits if_splits)

lemma nesting_loop_error:
  "nesting_loop t d i esc = Inl e \<Longrightarrow> wire_error e"
  by (induction t d i esc rule: nesting_loop.induct) (auto split: if_splits)

text \<open>
  What the guard is for, stated without reference to its loop: the grammar of JSON as far as nesting is concerned.
  A text is a sequence of string literals, of bracketed texts and of other characters (the atoms, separators and
  blanks), and \<open>json_text n t\<close> says that \<open>n\<close> is the greatest number of brackets around a position of \<open>t\<close>.  Brackets inside a
  string literal do not count, and a quote preceded by a backslash does not end the literal.
\<close>

inductive string_body :: "pystr \<Rightarrow> bool" where
  empty: "string_body []"
| plain: "string_body s \<Longrightarrow> c \<noteq> ch_quote \<Longrightarrow> c \<noteq> ch_backslash \<Longrightarrow> string_body (c # s)"
| escape: "string_body s \<Longrightarrow> string_body (ch_backslash # c # s)"

inductive json_text :: "nat \<Rightarrow> pystr \<Rightarrow> bool" where
  empty: "json_text 0 []"
| other: "json_text n t \<Longrightarrow> c \<noteq> ch_quote \<Longrightarrow> \<not> opens c \<Longrightarrow> \<not> closes c \<Longrightarrow> json_text n (c # t)"
| string: "string_body s \<Longrightarrow> json_text n t \<Longrightarrow> json_text n (ch_quote # s @ ch_quote # t)"
| bracket: "json_text m inner \<Longrightarrow> json_text n t \<Longrightarrow> opens a \<Longrightarrow> closes b \<Longrightarrow> json_text (max (Suc m) n) (a # inner @ b # t)"

lemma string_body_skipped: "string_body s \<Longrightarrow> nesting_loop (s @ ch_quote # t) d True False = nesting_loop t d False False"
  by (induction rule: string_body.induct) auto

lemma bracket_chars: "opens c \<Longrightarrow> c \<noteq> ch_quote" "closes c \<Longrightarrow> c \<noteq> ch_quote" "closes c \<Longrightarrow> \<not> opens c"
  by (auto simp: opens_def closes_def)

lemma json_text_loop:
  "json_text n t \<Longrightarrow> d \<le> int max_json_depth + 1 \<Longrightarrow>
     nesting_loop (t @ rest) d False False =
       (if d + int n \<le> int max_json_depth + 1 then nesting_loop rest d False False
        else Inl (RemoteProtocolError ''control JSON is too deeply nested''))"
proof (induction arbitrary: d rest rule: json_text.induct)
  case (string s n t)
  then show ?case using string_body_skipped [of s "t @ rest" d] by simp
next
  case (bracket m inner n t a b)
  then show ?case using bracket_chars [of a] bracket_chars [of b] by (auto simp: max_def)
qed auto

subsection \<open>Unique keys\<close>

fun dict_keys_unique :: "json \<Rightarrow> bool" where
  "dict_keys_unique (JDict d) = wf_dict d"
| "dict_keys_unique _ = True"

lemma unique_object_wf: "unique_object items d0 = Inr d \<Longrightarrow> wf_dict d0 \<Longrightarrow> wf_dict d"
  by (induction items d0 rule: unique_object.induct) (auto split: if_splits)

lemma unique_object_eq:
  "unique_object items d0 = Inr d \<Longrightarrow> d = d0 @ map (\<lambda>(k, v). (JStr k, v)) items"
  by (induction items d0 rule: unique_object.induct) (auto simp: dict_update_new split: if_splits)

lemma pairs_all_append [simp]: "pairs_all P (ps @ qs) \<longleftrightarrow> pairs_all P ps \<and> pairs_all P qs"
  by (induction ps) auto

lemma build_json_unique:
  "build_json r = Inr v \<Longrightarrow> json_all dict_keys_unique v"
  "build_items rs = Inr vs \<Longrightarrow> items_all dict_keys_unique vs"
  "build_pairs ps = Inr items \<Longrightarrow> pairs_all dict_keys_unique (map (\<lambda>(k, v). (JStr k, v)) items)"
proof (induction r and rs and ps arbitrary: v and vs and items
    rule: build_json_build_items_build_pairs.induct)
  case (8 ps)
  then show ?case
    using unique_object_wf [of _ "[]"] unique_object_eq [of _ "[]"]
    by (fastforce split: sum.splits)
qed (auto split: sum.splits)

subsection \<open>Properties\<close>

text \<open>
  The control-value validator accepts a value exactly when its nesting is at most twelve
  levels and every string, number, list and object inside it is within its bound (strings in UTF-8
  bytes, integers in 64 bits, finite floats, at most 1024 items or 128 string keys).
\<close>

theorem validate_json_characterised:
  "validate_json l 0 v = Inr () \<longleftrightarrow> json_depth v \<le> 12 \<and> json_all (node_ok l) v"
  by (simp add: validate_json_iff)

text \<open>
  (C28) The lexical guard that runs before the recursive JSON decoder decides the nesting of a text: on every text of the
  grammar it accepts exactly if no position is inside more than thirteen brackets, one level for the object itself and
  twelve for what \<open>_validate_json\<close> allows in it, and otherwise raises \<open>RemoteProtocolError\<close>; brackets in string literals
  and escaped quotes do not deceive it.
\<close>

theorem validate_json_nesting_decides_depth:
  assumes "json_text n t"
  shows "validate_json_nesting t =
    (if n \<le> 13 then Inr () else Inl (RemoteProtocolError ''control JSON is too deeply nested''))"
  using json_text_loop [OF assms, of 0 "[]"] by (simp add: validate_json_nesting_def)

text \<open>The text \<open>[{"]":1}]\<close>, which has a bracket in a key.\<close>

theorem validate_json_nesting_decides_depth_witness:
  "json_text 2 [91, 123, 34, 93, 34, 58, 49, 125, 93] \<and> validate_json_nesting [91, 123, 34, 93, 34, 58, 49, 125, 93] = Inr ()"
proof -
  have s: "string_body [93]" by (intro string_body.intros) simp_all
  have t0: "json_text 0 [34, 93, 34, 58, 49]"
    using json_text.string [OF s, of 0 "[58, 49]"] json_text.other [OF json_text.other [OF json_text.empty, of 49], of 58]
    by (simp add: opens_def closes_def)
  have t1: "json_text 1 [123, 34, 93, 34, 58, 49, 125]"
    using json_text.bracket [OF t0 json_text.empty, of 123 125] by (simp add: opens_def closes_def)
  have t: "json_text 2 [91, 123, 34, 93, 34, 58, 49, 125, 93]"
    using json_text.bracket [OF t1 json_text.empty, of 91 93] by (simp add: opens_def closes_def numeral_2_eq_2)
  then show ?thesis using validate_json_nesting_decides_depth [OF t] by simp
qed

text \<open>
  (C27) Decoding a control header is safe against hostile peers: whatever the bytes, the decoder
  either returns an object whose nesting, sizes and numbers are bounded and that has no duplicate
  key at any level, or raises; and the exception is a protocol error except for strings that UTF-8
  cannot represent.
\<close>

theorem json_loads_safe:
  "(case json_loads decode scan data l of
      Inl e \<Rightarrow> wire_error e
    | Inr d \<Rightarrow> json_depth (JDict d) \<le> 12 \<and> json_all (node_ok l) (JDict d) \<and>
              json_all dict_keys_unique (JDict d) \<and> wf_dict d)"
proof (cases "json_loads decode scan data l")
  case (Inl e)
  then have "wire_error e"
    by (auto simp: json_loads_def validate_json_nesting_def
        split: option.splits sum.splits dest: validate_json_error nesting_loop_error)
  with Inl show ?thesis by simp
next
  case (Inr d)
  then obtain raw where "build_json raw = Inr (JDict d)" "validate_json l 0 (JDict d) = Inr ()"
    by (auto simp: json_loads_def split: option.splits sum.splits elim!: json_dict.elims)
  with Inr show ?thesis
    using build_json_unique(1) [of raw "JDict d"] by (simp add: validate_json_iff)
qed

text \<open>
  A header with an escaped lone surrogate, such as the text \<open>{"a":"\ud800"}\<close>, is not rejected
  with the protocol error the decoder raises for malformed headers: the encoder's
  \<open>UnicodeEncodeError\<close> escapes from the validation that runs outside the \<open>try\<close> block.
\<close>

theorem json_loads_surrogate_escapes:
  assumes "decode data = Some text" and "validate_json_nesting text = Inr ()"
    and "scan text = Some (RObj [(key, RStr s)])"
    and "node_ok l (JStr key)" and "c \<in> set s" and "is_surrogate c"
  shows "json_loads decode scan data l = Inl UnicodeEncodeError"
proof -
  have "validate_json l 1 (JStr key) = Inr ()"
    using assms(4) by (simp add: validate_json_iff)
  moreover have "validate_json l 1 (JStr s) = Inl UnicodeEncodeError"
    using assms(5,6) by (subst validate_json.simps) (auto simp: utf8_length_def)
  ultimately have "validate_json l 0 (JDict [(JStr key, JStr s)]) = Inl UnicodeEncodeError"
    by (subst validate_json.simps) simp
  with assms(1-3) show ?thesis by (simp add: json_loads_def)
qed

definition surrogate_header :: bytes where
  "surrogate_header = [123, 34, 97, 34, 58, 34, 92, 117, 100, 56, 48, 48, 34, 125]"

theorem json_loads_surrogate_escapes_witness:
  "json_loads Some (\<lambda>t. if t = surrogate_header then Some (RObj [(lit ''a'', RStr [0xD800])]) else None)
     surrogate_header default_limits = Inl UnicodeEncodeError"
proof (rule json_loads_surrogate_escapes [where key = "lit ''a''" and s = "[0xD800]" and c = "0xD800"])
  show "validate_json_nesting surrogate_header = Inr ()" by code_simp
  show "node_ok default_limits (JStr (lit ''a''))" by code_simp
qed (auto simp: is_surrogate_def)

end
