(* ===== verification/Protocol.thy ===== *)
theory Protocol
  imports Json
begin

text \<open>
  The framing layer of \<open>deadpool/remote/_protocol.py\<close>: message kinds, the 16-byte frame prefix,
  splitting a logical message into bounded frames (\<open>send_message\<close>) and reassembling possibly
  interleaved frames (\<open>MessageReader\<close>).

  Parameters that stand for the standard library: \<open>sha\<close> is \<open>hashlib.sha256(...).hexdigest()\<close>,
  \<open>dumps\<close> is \<open>json.dumps\<close> with the code's options encoded as ASCII, \<open>decode\<close> and \<open>scan\<close> are as
  in theory \<open>Json\<close>; \<open>mid\<close> is the fresh \<open>uuid4().hex\<close> of a message.  A socket is the byte stream
  written to it or still to be read from it.
\<close>

datatype message_type =
    M_HELLO
  | M_WELCOME
  | M_HANDSHAKE_REJECTED
  | M_PING
  | M_PONG
  | M_GOAWAY
  | M_PROTOCOL_ERROR
  | M_SUBMIT
  | M_ACCEPTED
  | M_REJECTED
  | M_RUNNING
  | M_RESULT
  | M_TASK_ERROR
  | M_TIMED_OUT
  | M_CANCELLED
  | M_WORKER_LOST
  | M_RESULT_ENCODING_FAILED
  | M_RESULT_TOO_LARGE
  | M_RESULT_ACK
  | M_QUEUE_TIMED_OUT
  | M_CANCEL_REQUEST
  | M_CANCEL_RESPONSE
  | M_STATUS_REQUEST
  | M_STATUS_RESPONSE
  | M_STATS_REQUEST
  | M_STATS_RESPONSE
  | M_CANCEL_GROUP
  | M_CANCEL_GROUP_RESPONSE
  | M_CLOSE_SESSION
  | M_CLOSE_SESSION_RESPONSE

fun message_code :: "message_type \<Rightarrow> nat" where
  "message_code M_HELLO = 1"
| "message_code M_WELCOME = 2"
| "message_code M_HANDSHAKE_REJECTED = 3"
| "message_code M_PING = 4"
| "message_code M_PONG = 5"
| "message_code M_GOAWAY = 6"
| "message_code M_PROTOCOL_ERROR = 7"
| "message_code M_SUBMIT = 10"
| "message_code M_ACCEPTED = 11"
| "message_code M_REJECTED = 12"
| "message_code M_RUNNING = 13"
| "message_code M_RESULT = 20"
| "message_code M_TASK_ERROR = 21"
| "message_code M_TIMED_OUT = 22"
| "message_code M_CANCELLED = 23"
| "message_code M_WORKER_LOST = 24"
| "message_code M_RESULT_ENCODING_FAILED = 25"
| "message_code M_RESULT_TOO_LARGE = 26"
| "message_code M_RESULT_ACK = 27"
| "message_code M_QUEUE_TIMED_OUT = 28"
| "message_code M_CANCEL_REQUEST = 30"
| "message_code M_CANCEL_RESPONSE = 31"
| "message_code M_STATUS_REQUEST = 32"
| "message_code M_STATUS_RESPONSE = 33"
| "message_code M_STATS_REQUEST = 34"
| "message_code M_STATS_RESPONSE = 35"
| "message_code M_CANCEL_GROUP = 36"
| "message_code M_CANCEL_GROUP_RESPONSE = 37"
| "message_code M_CLOSE_SESSION = 38"
| "message_code M_CLOSE_SESSION_RESPONSE = 39"

definition message_types :: "message_type list" where
  "message_types =
     [M_HELLO, M_WELCOME, M_HANDSHAKE_REJECTED, M_PING,
      M_PONG, M_GOAWAY, M_PROTOCOL_ERROR, M_SUBMIT,
      M_ACCEPTED, M_REJECTED, M_RUNNING, M_RESULT,
      M_TASK_ERROR, M_TIMED_OUT, M_CANCELLED, M_WORKER_LOST,
      M_RESULT_ENCODING_FAILED, M_RESULT_TOO_LARGE, M_RESULT_ACK, M_QUEUE_TIMED_OUT,
      M_CANCEL_REQUEST, M_CANCEL_RESPONSE, M_STATUS_REQUEST, M_STATUS_RESPONSE,
      M_STATS_REQUEST, M_STATS_RESPONSE, M_CANCEL_GROUP, M_CANCEL_GROUP_RESPONSE,
      M_CLOSE_SESSION, M_CLOSE_SESSION_RESPONSE]"

text \<open>\<open>MessageType(raw_kind)\<close>: an unknown code raises \<open>ValueError\<close>.\<close>

definition message_of_code :: "nat \<Rightarrow> message_type option" where
  "message_of_code c = find (\<lambda>k. message_code k = c) message_types"

record message =
  msg_kind :: message_type
  msg_control :: "(json \<times> json) list"
  msg_payload :: bytes

subsection \<open>Control headers and chunk counts\<close>

definition json_dumps ::
    "((json \<times> json) list \<Rightarrow> bytes) \<Rightarrow> (json \<times> json) list \<Rightarrow> remote_limits \<Rightarrow> bytes result" where
  "json_dumps dumps d l =
     (case validate_json l 0 (JDict d) of
        Inl e \<Rightarrow> Inl e
      | Inr _ \<Rightarrow>
          if int (length (dumps d)) > max_control_bytes l
          then Inl (RemoteProtocolError ''control header exceeds configured limit'')
          else Inr (dumps d))"

definition validate_control ::
    "((json \<times> json) list \<Rightarrow> bytes) \<Rightarrow> (json \<times> json) list \<Rightarrow> remote_limits \<Rightarrow> unit result" where
  "validate_control dumps d l =
     (case json_dumps dumps d l of Inl e \<Rightarrow> Inl e | Inr _ \<Rightarrow> Inr ())"

definition message_chunk_count :: "int \<Rightarrow> remote_limits \<Rightarrow> int result" where
  "message_chunk_count payload_size l =
     (if payload_size < 0 \<or> payload_size > max_message_bytes l
      then Inl (RemoteProtocolError ''message payload exceeds configured limit'')
      else let cnt = max 1 ((payload_size + max_frame_payload_bytes l - 1)
                                div max_frame_payload_bytes l)
           in if cnt > max_chunks l
              then Inl (RemoteProtocolError ''message requires too many chunks'')
              else Inr cnt)"

definition frame_header ::
    "pystr \<Rightarrow> int \<Rightarrow> int \<Rightarrow> int \<Rightarrow> pystr \<Rightarrow> json \<Rightarrow> (json \<times> json) list" where
  "frame_header mid index cnt tot digest control =
     [(J ''message_id'', JStr mid),
      (J ''index'', JInt index),
      (J ''count'', JInt cnt),
      (J ''total'', JInt tot),
      (J ''digest'', JStr digest),
      (J ''control'', control)]"

definition encode_frame_control ::
    "((json \<times> json) list \<Rightarrow> bytes) \<Rightarrow> pystr \<Rightarrow> int \<Rightarrow> int \<Rightarrow> int \<Rightarrow> pystr \<Rightarrow> json \<Rightarrow> remote_limits
       \<Rightarrow> bytes result" where
  "encode_frame_control dumps mid index cnt tot digest control l =
     json_dumps dumps (frame_header mid index cnt tot digest control) l"

definition validate_message_control ::
    "((json \<times> json) list \<Rightarrow> bytes) \<Rightarrow> (json \<times> json) list \<Rightarrow> int \<Rightarrow> remote_limits \<Rightarrow> unit result" where
  "validate_message_control dumps control payload_size l =
     (case message_chunk_count payload_size l of
        Inl e \<Rightarrow> Inl e
      | Inr cnt \<Rightarrow>
          (case encode_frame_control dumps (replicate 32 48) 0 cnt payload_size
                  (replicate 64 48) (JDict control) l of
             Inl e \<Rightarrow> Inl e
           | Inr _ \<Rightarrow> Inr ()))"

subsection \<open>The frame prefix\<close>

definition magic :: bytes where
  "magic = lit ''DPR1''"

abbreviation (input) "proto_major \<equiv> 1 :: nat"
abbreviation (input) "proto_minor \<equiv> 0 :: nat"
abbreviation (input) "prefix_size \<equiv> 16 :: nat"
abbreviation (input) "flag_chunked \<equiv> 1 :: nat"

text \<open>A big-endian unsigned 32-bit field: \<open>struct.pack\<close> raises \<open>struct.error\<close> beyond its range.\<close>

definition pack_u32 :: "nat \<Rightarrow> bytes" where
  "pack_u32 n = [n div 2 ^ 24, n div 2 ^ 16 mod 256, n div 2 ^ 8 mod 256, n mod 256]"

fun unpack_u32 :: "bytes \<Rightarrow> nat" where
  "unpack_u32 bs = foldl (\<lambda>n b. 256 * n + b) 0 bs"

definition pack_prefix :: "nat \<Rightarrow> nat \<Rightarrow> nat \<Rightarrow> nat \<Rightarrow> bytes result" where
  "pack_prefix kind flags control_len payload_len =
     (if control_len < 2 ^ 32 \<and> payload_len < 2 ^ 32
      then Inr (magic @ [proto_major, proto_minor, kind, flags] @ pack_u32 control_len @ pack_u32 payload_len)
      else Inl StructError)"

text \<open>The checks of \<open>receive\<close> on an unpacked prefix, before anything else is read.\<close>

definition check_prefix :: "remote_limits \<Rightarrow> bytes \<Rightarrow> (message_type \<times> nat \<times> nat) result" where
  "check_prefix l prefix =
     (let major = prefix ! 4; minor = prefix ! 5; raw_kind = prefix ! 6; flags = prefix ! 7;
          control_len = unpack_u32 (take 4 (drop 8 prefix));
          payload_len = unpack_u32 (take 4 (drop 12 prefix))
      in if take 4 prefix \<noteq> magic then Inl (RemoteProtocolError ''invalid protocol magic'')
         else if major \<noteq> proto_major \<or> minor > proto_minor
         then Inl (RemoteProtocolError ''unsupported protocol version'')
         else if flags div 2 \<noteq> 0 then Inl (RemoteProtocolError ''unknown mandatory frame flags'')
         else if int control_len > max_control_bytes l
         then Inl (RemoteProtocolError ''declared control header is too large'')
         else if int payload_len > max_frame_payload_bytes l
         then Inl (RemoteProtocolError ''declared frame payload is too large'')
         else case message_of_code raw_kind of
           None \<Rightarrow> Inl (RemoteProtocolError ''unknown message type'')
         | Some kind \<Rightarrow> Inr (kind, control_len, payload_len))"

subsection \<open>Sending\<close>

text \<open>
  What the socket does at the successive \<open>select\<close>/\<open>send\<close> rounds of \<open>_send_exact\<close>: it accepts some
  bytes (none of them means that the peer closed), TLS asks to retry, or the write deadline passes.
\<close>

datatype send_event =
    Accepts nat
  | Want_retry
  | Write_stall

fun send_exact :: "bytes \<Rightarrow> send_event list \<Rightarrow> bytes \<times> send_event list \<times> unit result" where
  "send_exact view [] =
     (if view = [] then ([], [], Inr ()) else ([], [], Inl (TimeoutError ''remote frame write timed out'')))"
| "send_exact view (e # es) =
     (if view = [] then ([], e # es, Inr ())
      else case e of
        Write_stall \<Rightarrow> ([], es, Inl (TimeoutError ''remote frame write timed out''))
      | Want_retry \<Rightarrow> send_exact view es
      | Accepts n \<Rightarrow>
          if n = 0 then ([], es, Inl (EOFError ''connection closed during frame write''))
          else (case send_exact (drop n view) es of
                  (w, es', res) \<Rightarrow> (take n view @ w, es', res)))"

definition chunk :: "nat \<Rightarrow> nat \<Rightarrow> bytes \<Rightarrow> bytes" where
  "chunk frame_size index payload = take frame_size (drop (index * frame_size) payload)"

definition header_of :: "(bytes \<Rightarrow> pystr) \<Rightarrow> pystr \<Rightarrow> int \<Rightarrow> message \<Rightarrow> nat \<Rightarrow> (json \<times> json) list" where
  "header_of sha mid cnt m index =
     frame_header mid (int index) cnt (int (length (msg_payload m))) (sha (msg_payload m))
       (if index = 0 then JDict (msg_control m) else JNull)"

text \<open>
  One iteration of the loop of \<open>send_message\<close>: the three byte strings handed to \<open>_send_exact\<close> (the
  last only when it is not empty; \<open>_send_exact\<close> of an empty string writes nothing).
\<close>

definition frame_parts ::
    "((json \<times> json) list \<Rightarrow> bytes) \<Rightarrow> (bytes \<Rightarrow> pystr) \<Rightarrow> remote_limits \<Rightarrow> pystr \<Rightarrow> int \<Rightarrow> message \<Rightarrow> nat
       \<Rightarrow> bytes list result" where
  "frame_parts dumps sha l mid cnt m index =
     (let part = chunk (nat (max_frame_payload_bytes l)) index (msg_payload m) in
      case encode_frame_control dumps mid (int index) cnt (int (length (msg_payload m)))
             (sha (msg_payload m)) (if index = 0 then JDict (msg_control m) else JNull) l of
        Inl e \<Rightarrow> Inl e
      | Inr control \<Rightarrow>
          (case pack_prefix (message_code (msg_kind m)) (if cnt > 1 then flag_chunked else 0)
                  (length control) (length part) of
             Inl e \<Rightarrow> Inl e
           | Inr prefix \<Rightarrow> Inr ([prefix, control] @ (if part = [] then [] else [part]))))"

fun send_parts :: "bytes list \<Rightarrow> send_event list \<Rightarrow> bytes \<times> send_event list \<times> unit result" where
  "send_parts [] es = ([], es, Inr ())"
| "send_parts (p # ps) es =
     (case send_exact p es of
        (w, es', Inl e) \<Rightarrow> (w, es', Inl e)
      | (w, es', Inr _) \<Rightarrow> (case send_parts ps es' of (w', es'', res) \<Rightarrow> (w @ w', es'', res)))"

fun send_loop ::
    "(nat \<Rightarrow> bytes list result) \<Rightarrow> nat list \<Rightarrow> send_event list \<Rightarrow> bytes \<times> send_event list \<times> unit result" where
  "send_loop frame [] es = ([], es, Inr ())"
| "send_loop frame (i # is) es =
     (case frame i of
        Inl e \<Rightarrow> ([], es, Inl e)
      | Inr parts \<Rightarrow>
          (case send_parts parts es of
             (w, es', Inl e) \<Rightarrow> (w, es', Inl e)
           | (w, es', Inr _) \<Rightarrow>
               (case send_loop frame is es' of (w', es'', res) \<Rightarrow> (w @ w', es'', res))))"

definition send_message ::
    "((json \<times> json) list \<Rightarrow> bytes) \<Rightarrow> (bytes \<Rightarrow> pystr) \<Rightarrow> remote_limits \<Rightarrow> pystr \<Rightarrow> message
       \<Rightarrow> send_event list \<Rightarrow> bytes \<times> send_event list \<times> unit result" where
  "send_message dumps sha l mid m es =
     (case message_chunk_count (int (length (msg_payload m))) l of
        Inl e \<Rightarrow> ([], es, Inl e)
      | Inr cnt \<Rightarrow> send_loop (frame_parts dumps sha l mid cnt m) [0 ..< nat cnt] es)"

subsection \<open>Reassembly\<close>

record chunks =
  ck_kind :: message_type
  ck_control :: "(json \<times> json) list"
  ck_count :: int
  ck_total :: int
  ck_digest :: pystr
  ck_next_index :: int
  ck_parts :: "bytes list"
  ck_received :: int

record reader =
  rd_messages :: "(pystr, chunks) dict"
  rd_incomplete :: int

definition reader_init :: reader where
  "reader_init = \<lparr>rd_messages = [], rd_incomplete = 0\<rparr>"

definition chunk_fields :: "string list" where
  "chunk_fields = [''message_id'', ''index'', ''count'', ''total'', ''digest'', ''control'']"

text \<open>
  The end of \<open>_accept\<close>, from the sequence check on, for the chunk state \<open>st\<close> already stored under
  \<open>mid\<close>.  The reader is returned with every exception, as mutated up to that point.
\<close>

definition accept_chunk ::
    "(bytes \<Rightarrow> pystr) \<Rightarrow> remote_limits \<Rightarrow> message_type \<Rightarrow> pystr \<Rightarrow> int \<Rightarrow> int \<Rightarrow> bytes \<Rightarrow> chunks \<Rightarrow> reader
       \<Rightarrow> reader \<times> message option result" where
  "accept_chunk sha l kind mid index cnt payload st r =
     (if index \<noteq> ck_next_index st
      then (r, Inl (RemoteProtocolError ''duplicate or out-of-order chunk''))
      else if rd_incomplete r + int (length payload) > max_message_bytes l
      then (r, Inl (RemoteProtocolError ''aggregate incomplete payload is too large''))
      else let st' = st\<lparr>ck_parts := ck_parts st @ [payload],
                        ck_received := ck_received st + int (length payload),
                        ck_next_index := ck_next_index st + 1\<rparr>;
               r' = r\<lparr>rd_messages := AList.update mid st' (rd_messages r),
                      rd_incomplete := rd_incomplete r + int (length payload)\<rparr>
           in if ck_received st' > ck_total st'
              then (r', Inl (RemoteProtocolError ''chunk sequence exceeds declared total''))
              else if index + 1 \<noteq> cnt then (r', Inr None)
              else let r'' = r'\<lparr>rd_messages := AList.delete mid (rd_messages r'),
                                rd_incomplete := rd_incomplete r' - ck_received st'\<rparr>
                   in if ck_received st' \<noteq> ck_total st'
                      then (r'', Inl (RemoteProtocolError ''chunk sequence length does not match declared total''))
                      else let complete = concat (ck_parts st')
                           in if sha complete \<noteq> ck_digest st'
                              then (r'', Inl (RemoteProtocolError ''message payload digest mismatch''))
                              else (r'', Inr (Some \<lparr>msg_kind = kind, msg_control = ck_control st',
                                                    msg_payload = complete\<rparr>)))"

definition new_chunks :: "message_type \<Rightarrow> (json \<times> json) list \<Rightarrow> int \<Rightarrow> int \<Rightarrow> pystr \<Rightarrow> chunks" where
  "new_chunks kind control cnt tot digest =
     \<lparr>ck_kind = kind, ck_control = control, ck_count = cnt, ck_total = tot,
      ck_digest = digest, ck_next_index = 0, ck_parts = [], ck_received = 0\<rparr>"

text \<open>The middle of \<open>_accept\<close>: find or create the chunk state of the message.\<close>

definition accept_state ::
    "(bytes \<Rightarrow> pystr) \<Rightarrow> remote_limits \<Rightarrow> message_type \<Rightarrow> pystr \<Rightarrow> int \<Rightarrow> int \<Rightarrow> int \<Rightarrow> pystr \<Rightarrow> json \<Rightarrow> bytes
       \<Rightarrow> reader \<Rightarrow> reader \<times> message option result" where
  "accept_state sha l kind mid index cnt tot digest control payload r =
     (case map_of (rd_messages r) mid of
        None \<Rightarrow>
          (case (index = 0, json_dict control) of
             (True, Some d) \<Rightarrow>
               if int (length (rd_messages r)) \<ge> max_incomplete_messages l
               then (r, Inl (RemoteProtocolError ''too many incomplete messages''))
               else let st = new_chunks kind d cnt tot digest
                    in accept_chunk sha l kind mid index cnt payload st
                         (r\<lparr>rd_messages := AList.update mid st (rd_messages r)\<rparr>)
           | _ \<Rightarrow> (r, Inl (RemoteProtocolError ''chunk sequence must start at index zero'')))
      | Some st \<Rightarrow>
          if ck_kind st \<noteq> kind \<or> ck_count st \<noteq> cnt \<or> ck_total st \<noteq> tot \<or>
             ck_digest st \<noteq> digest \<or> control \<noteq> JNull
          then (r, Inl (RemoteProtocolError ''conflicting chunk metadata''))
          else accept_chunk sha l kind mid index cnt payload st r)"

definition reader_accept ::
    "(bytes \<Rightarrow> pystr) \<Rightarrow> remote_limits \<Rightarrow> message_type \<Rightarrow> (json \<times> json) list \<Rightarrow> bytes \<Rightarrow> reader
       \<Rightarrow> reader \<times> message option result" where
  "reader_accept sha l kind header payload r =
     (if set (dkeys header) \<noteq> set (map J chunk_fields)
      then (r, Inl (RemoteProtocolError ''invalid chunk control fields''))
      else (case json_str (jget header ''message_id'') of
        None \<Rightarrow> (r, Inl (RemoteProtocolError ''invalid message ID''))
      | Some mid \<Rightarrow>
        if length mid > 64 then (r, Inl (RemoteProtocolError ''invalid message ID''))
        else (case (json_int (jget header ''index''), json_int (jget header ''count''),
                    json_int (jget header ''total'')) of
          (Some index, Some cnt, Some tot) \<Rightarrow>
            if cnt < 1 \<or> cnt > max_chunks l \<or> \<not> (0 \<le> index \<and> index < cnt)
            then (r, Inl (RemoteProtocolError ''invalid chunk index/count''))
            else if tot < 0 \<or> tot > max_message_bytes l
            then (r, Inl (RemoteProtocolError ''declared message payload is too large''))
            else (case json_str (jget header ''digest'') of
                    None \<Rightarrow> (r, Inl (RemoteProtocolError ''invalid payload digest''))
                  | Some digest \<Rightarrow>
                      if length digest \<noteq> 64
                      then (r, Inl (RemoteProtocolError ''invalid payload digest''))
                      else accept_state sha l kind mid index cnt tot digest
                             (jget header ''control'') payload r)
        | _ \<Rightarrow> (r, Inl (RemoteProtocolError ''chunk indices and lengths must be integers'')))))"

subsection \<open>Receiving\<close>

text \<open>
  A socket to read from: the segments that arrive, a stall where the deadline of a read passes
  before the next byte, and the peer's close at the end of the list.  \<open>recv_exact\<close> is \<open>_recv_exact\<close>,
  whose first byte may take any time when \<open>allow_idle\<close> is set; it returns what is left of the socket.
\<close>

datatype sock_event =
    Data bytes
  | Stall

fun recv_loop ::
    "bool \<Rightarrow> nat \<Rightarrow> bytes \<Rightarrow> sock_event list \<Rightarrow> sock_event list \<times> bytes result" where
  "recv_loop allow_idle sz received [] =
     (if sz \<le> length received then ([], Inr received)
      else ([], Inl (EOFError ''connection closed during frame'')))"
| "recv_loop allow_idle sz received (e # s) =
     (if sz \<le> length received then (e # s, Inr received)
      else case e of
        Stall \<Rightarrow>
          if allow_idle \<and> received = [] then recv_loop allow_idle sz received s
          else (s, Inl (TimeoutError ''partial remote frame timed out''))
      | Data bs \<Rightarrow>
          (let n = sz - length received in
           if n < length bs then (Data (drop n bs) # s, Inr (received @ take n bs))
           else recv_loop allow_idle sz (received @ bs) s))"

definition recv_exact :: "bool \<Rightarrow> nat \<Rightarrow> sock_event list \<Rightarrow> sock_event list \<times> bytes result" where
  "recv_exact allow_idle sz s = recv_loop allow_idle sz [] s"

fun sock_bytes :: "sock_event list \<Rightarrow> bytes" where
  "sock_bytes [] = []"
| "sock_bytes (Data bs # s) = bs @ sock_bytes s"
| "sock_bytes (Stall # s) = sock_bytes s"

lemma recv_loop_length:
  "recv_loop ai sz got s = (s', Inr bs) \<Longrightarrow> length got \<le> sz \<Longrightarrow>
     length bs = sz \<and> got @ sock_bytes s = bs @ sock_bytes s'"
  by (induction ai sz got s rule: recv_loop.induct)
    (auto simp: Let_def split: if_splits sock_event.splits)

lemma recv_exact_bytes:
  "recv_exact ai sz s = (s', Inr bs) \<Longrightarrow> length bs = sz \<and> sock_bytes s = bs @ sock_bytes s'"
  using recv_loop_length [of ai sz "[]" s s' bs] by (simp add: recv_exact_def)

text \<open>
  \<open>MessageReader.receive\<close> without a handshake deadline: frames are taken until one completes a
  message.  Each iteration consumes a whole prefix, so the loop ends.
\<close>

function receive ::
    "(bytes \<Rightarrow> pystr option) \<Rightarrow> (pystr \<Rightarrow> jraw option) \<Rightarrow> (bytes \<Rightarrow> pystr) \<Rightarrow> remote_limits \<Rightarrow> reader
       \<Rightarrow> sock_event list \<Rightarrow> reader \<times> sock_event list \<times> message result" where
  "receive decode scan sha l r s =
     (case recv_exact True prefix_size s of
        (s1, Inl e) \<Rightarrow> (r, s1, Inl e)
      | (s1, Inr prefix) \<Rightarrow>
        (case check_prefix l prefix of
           Inl e \<Rightarrow> (r, s1, Inl e)
         | Inr (kind, control_len, payload_len) \<Rightarrow>
           (case recv_exact False control_len s1 of
              (s2, Inl e) \<Rightarrow> (r, s2, Inl e)
            | (s2, Inr control) \<Rightarrow>
              (case json_loads decode scan control l of
                 Inl e \<Rightarrow> (r, s2, Inl e)
               | Inr header \<Rightarrow>
                 (case recv_exact False payload_len s2 of
                    (s3, Inl e) \<Rightarrow> (r, s3, Inl e)
                  | (s3, Inr payload) \<Rightarrow>
                    (case reader_accept sha l kind header payload r of
                       (r', Inl e) \<Rightarrow> (r', s3, Inl e)
                     | (r', Inr (Some m)) \<Rightarrow> (r', s3, Inr m)
                     | (r', Inr None) \<Rightarrow> receive decode scan sha l r' s3))))))"
  by pat_completeness auto
termination
  by (relation "measure (\<lambda>(d, sc, sh, l, r, s). length (sock_bytes s))")
    (auto dest!: recv_exact_bytes [OF sym] recv_exact_bytes)

declare receive.simps [simp del]

text \<open>\<open>_bounded_timeout\<close>: the clock reading is an argument.\<close>

definition bounded_timeout :: "rat \<Rightarrow> rat option \<Rightarrow> rat \<Rightarrow> rat result" where
  "bounded_timeout timeout deadline now =
     (case deadline of
        None \<Rightarrow> Inr timeout
      | Some d \<Rightarrow>
          if d - now \<le> 0 then Inl (TimeoutError ''remote handshake timed out'')
          else Inr (min timeout (d - now)))"

subsection \<open>Message codes, prefixes and chunk counts\<close>

lemma message_of_code_inverse [simp]: "message_of_code (message_code k) = Some k"
  by (cases k) (simp_all add: message_of_code_def message_types_def)

lemma message_of_code_Some: "message_of_code c = Some k \<Longrightarrow> message_code k = c"
  by (auto simp: message_of_code_def find_Some_iff)

lemma message_code_byte: "message_code k < 256"
  by (cases k) simp_all

lemma length_pack_u32 [simp]: "length (pack_u32 n) = 4"
  by (simp add: pack_u32_def)

lemma unpack_pack_u32 [simp]: "unpack_u32 (pack_u32 n) = n"
proof -
  have step: "256 * (n div (2 ^ k * 256)) + n div 2 ^ k mod 256 = n div 2 ^ k" for k
    by (simp add: div_mult2_eq)
  show ?thesis
    using step [of 16] step [of 8] step [of 0] by (simp add: pack_u32_def)
qed

lemma pack_u32_bytes: "n < 2 ^ 32 \<Longrightarrow> b \<in> set (pack_u32 n) \<Longrightarrow> b < 256"
  by (auto simp: pack_u32_def)

lemma magic_eval: "magic = [68, 80, 82, 49]"
  by code_simp

lemma check_pack_prefix:
  assumes "pack_prefix (message_code k) flags c p = Inr prefix" and "flags < 2"
    and "int c \<le> max_control_bytes l" and "int p \<le> max_frame_payload_bytes l"
  shows "length prefix = prefix_size \<and> check_prefix l prefix = Inr (k, c, p)"
proof -
  have prefix: "prefix = magic @ [proto_major, proto_minor, message_code k, flags] @ pack_u32 c @ pack_u32 p"
    using assms(1) by (simp add: pack_prefix_def split: if_splits)
  show ?thesis
    using assms(2-4) by (simp add: prefix check_prefix_def magic_eval Let_def del: unpack_u32.simps)
qed

lemma message_chunk_count_ok:
  assumes "limits_ok l" and "0 \<le> n" and "n \<le> max_message_bytes l"
  obtains cnt where "message_chunk_count n l = Inr cnt" and "1 \<le> cnt" and "cnt \<le> max_chunks l"
    and "n \<le> cnt * max_frame_payload_bytes l"
    and "cnt = 1 \<or> (cnt - 1) * max_frame_payload_bytes l < n"
proof -
  let ?f = "max_frame_payload_bytes l"
  define q where "q = (n + ?f - 1) div ?f"
  have f: "0 < ?f" and c: "0 < max_chunks l" and b: "n \<le> ?f * max_chunks l"
    using assms by (auto simp: limits_ok_def)
  have "q * ?f = n + ?f - 1 - (n + ?f - 1) mod ?f"
    by (simp add: q_def minus_mod_eq_div_mult)
  then have lo: "q * ?f \<le> n + ?f - 1" and hi: "n \<le> q * ?f"
    using pos_mod_sign [OF f, of "n + ?f - 1"] pos_mod_bound [OF f, of "n + ?f - 1"] by linarith+
  have q: "q \<le> max_chunks l"
  proof (rule ccontr)
    assume "\<not> q \<le> max_chunks l"
    then have "?f * (max_chunks l + 1) \<le> q * ?f"
      using f by (simp add: mult.commute)
    with lo b show False by (simp add: algebra_simps)
  qed
  have "n \<le> max 1 q * ?f" and "max 1 q = 1 \<or> (max 1 q - 1) * ?f < n"
    using order.trans [OF hi mult_right_mono [of q "max 1 q" ?f]] lo f
    by (auto simp: max_def algebra_simps)
  moreover have "message_chunk_count n l = Inr (max 1 q)"
    using assms q c by (simp add: message_chunk_count_def q_def Let_def)
  ultimately show thesis
    using that [of "max 1 q"] q c by simp
qed


subsection \<open>The reader's memory bound\<close>

text \<open>
  What a reader holds at any time, also after an exception: the counter of incomplete bytes is the
  number of bytes buffered, and buffers, frames and messages stay within the configured limits.
\<close>

definition chunks_ok :: "remote_limits \<Rightarrow> chunks \<Rightarrow> bool" where
  "chunks_ok l st \<longleftrightarrow>
     ck_received st = int (length (concat (ck_parts st))) \<and>
     ck_next_index st = int (length (ck_parts st)) \<and>
     ck_next_index st \<le> ck_count st \<and> ck_count st \<le> max_chunks l"

definition reader_inv :: "remote_limits \<Rightarrow> reader \<Rightarrow> bool" where
  "reader_inv l r \<longleftrightarrow>
     wf_dict (rd_messages r) \<and>
     (\<forall>mid st. map_of (rd_messages r) mid = Some st \<longrightarrow> chunks_ok l st) \<and>
     rd_incomplete r = dict_sum ck_received (rd_messages r) \<and>
     rd_incomplete r \<le> max_message_bytes l \<and>
     int (length (rd_messages r)) \<le> max_incomplete_messages l"

lemma reader_inv_init [simp]: "limits_ok l \<Longrightarrow> reader_inv l reader_init"
  by (simp add: reader_inv_def reader_init_def limits_ok_def)

lemma reader_inv_update:
  assumes "reader_inv l r" and "chunks_ok l st"
    and "map_of (rd_messages r) mid = None \<Longrightarrow> int (length (rd_messages r)) < max_incomplete_messages l"
    and "n = rd_incomplete r + ck_received st -
           (case map_of (rd_messages r) mid of None \<Rightarrow> 0 | Some st' \<Rightarrow> ck_received st')"
    and "n \<le> max_message_bytes l"
  shows "reader_inv l \<lparr>rd_messages = AList.update mid st (rd_messages r), rd_incomplete = n\<rparr>"
  using assms by (auto simp: reader_inv_def dict_simps length_dict_update)

lemma reader_inv_delete:
  assumes "reader_inv l r" and "map_of (rd_messages r) mid = Some st"
  shows "reader_inv l \<lparr>rd_messages = AList.delete mid (rd_messages r),
                       rd_incomplete = rd_incomplete r - ck_received st\<rparr>"
proof -
  have "0 \<le> ck_received st"
    using assms by (auto simp: reader_inv_def chunks_ok_def)
  then show ?thesis
    using assms length_dict_delete [of mid "rd_messages r"]
    by (auto simp: reader_inv_def dict_simps)
qed

lemma reader_updates:
  "r\<lparr>rd_messages := d\<rparr> = \<lparr>rd_messages = d, rd_incomplete = rd_incomplete r\<rparr>"
  "r\<lparr>rd_messages := d, rd_incomplete := n\<rparr> = \<lparr>rd_messages = d, rd_incomplete = n\<rparr>"
  by (cases r, simp)+

lemma chunks_ok_new: "0 \<le> cnt \<Longrightarrow> cnt \<le> max_chunks l \<Longrightarrow> chunks_ok l (new_chunks kind d cnt tot digest)"
  by (simp add: chunks_ok_def new_chunks_def)

lemma accept_chunk_inv:
  assumes inv: "reader_inv l r" and st: "map_of (rd_messages r) mid = Some st"
    and idx: "index < cnt" "cnt = ck_count st"
  shows "reader_inv l (fst (accept_chunk sha l kind mid index cnt payload st r))"
proof -
  define st' where "st' = st\<lparr>ck_parts := ck_parts st @ [payload],
      ck_received := ck_received st + int (length payload), ck_next_index := ck_next_index st + 1\<rparr>"
  define r' where "r' = \<lparr>rd_messages = AList.update mid st' (rd_messages r),
      rd_incomplete = rd_incomplete r + int (length payload)\<rparr>"
  consider "index \<noteq> ck_next_index st \<or> rd_incomplete r + int (length payload) > max_message_bytes l"
    | "index = ck_next_index st" "rd_incomplete r + int (length payload) \<le> max_message_bytes l"
    by linarith
  then show ?thesis
  proof cases
    case 1
    then show ?thesis using inv by (auto simp: accept_chunk_def)
  next
    case 2
    have "chunks_ok l st"
      using inv st by (auto simp: reader_inv_def)
    then have "chunks_ok l st'"
      using idx 2 by (simp add: chunks_ok_def st'_def)
    then have r': "reader_inv l r'"
      unfolding r'_def by (rule reader_inv_update [OF inv]) (use st 2 in \<open>auto simp: st'_def\<close>)
    have "reader_inv l \<lparr>rd_messages = AList.delete mid (rd_messages r'),
                        rd_incomplete = rd_incomplete r' - ck_received st'\<rparr>"
      by (rule reader_inv_delete [OF r']) (simp add: r'_def)
    with 2 r' show ?thesis
      by (auto simp: accept_chunk_def Let_def r'_def st'_def reader_updates)
  qed
qed

lemma accept_state_inv:
  assumes inv: "reader_inv l r" and idx: "0 \<le> index" "index < cnt" "cnt \<le> max_chunks l"
  shows "reader_inv l (fst (accept_state sha l kind mid index cnt tot digest control payload r))"
proof (cases "map_of (rd_messages r) mid")
  case None
  have "reader_inv l (fst (accept_chunk sha l kind mid index cnt payload (new_chunks kind d cnt tot digest)
      (r\<lparr>rd_messages := AList.update mid (new_chunks kind d cnt tot digest) (rd_messages r)\<rparr>)))"
    if "int (length (rd_messages r)) < max_incomplete_messages l" for d
  proof (rule accept_chunk_inv)
    show "reader_inv l (r\<lparr>rd_messages := AList.update mid (new_chunks kind d cnt tot digest) (rd_messages r)\<rparr>)"
      unfolding reader_updates
      by (rule reader_inv_update [OF inv chunks_ok_new])
        (use None that idx inv in \<open>auto simp: new_chunks_def reader_inv_def\<close>)
  qed (use idx in \<open>simp_all add: new_chunks_def\<close>)
  with None inv show ?thesis
    by (auto simp: accept_state_def Let_def split: option.splits bool.splits)
next
  case (Some st)
  with inv idx show ?thesis
    by (auto simp: accept_state_def intro: accept_chunk_inv)
qed

lemma reader_accept_inv:
  "reader_inv l r \<Longrightarrow> reader_inv l (fst (reader_accept sha l kind header payload r))"
  by (auto simp: reader_accept_def intro!: accept_state_inv split: option.splits if_splits)


subsection \<open>Reassembly of interleaved frames\<close>

definition frame_size :: "remote_limits \<Rightarrow> nat" where
  "frame_size l = nat (max_frame_payload_bytes l)"

definition frame_count :: "remote_limits \<Rightarrow> message \<Rightarrow> nat" where
  "frame_count l m =
     (case message_chunk_count (int (length (msg_payload m))) l of Inl _ \<Rightarrow> 0 | Inr cnt \<Rightarrow> nat cnt)"

definition sendable :: "remote_limits \<Rightarrow> message \<Rightarrow> bool" where
  "sendable l m \<longleftrightarrow> int (length (msg_payload m)) \<le> max_message_bytes l"

text \<open>The chunk state after the first \<open>i\<close> frames of \<open>m\<close>.\<close>

definition chunks_at :: "(bytes \<Rightarrow> pystr) \<Rightarrow> remote_limits \<Rightarrow> message \<Rightarrow> nat \<Rightarrow> chunks" where
  "chunks_at sha l m i =
     \<lparr>ck_kind = msg_kind m, ck_control = msg_control m, ck_count = int (frame_count l m),
      ck_total = int (length (msg_payload m)), ck_digest = sha (msg_payload m), ck_next_index = int i,
      ck_parts = map (\<lambda>j. chunk (frame_size l) j (msg_payload m)) [0 ..< i],
      ck_received = int (length (take (i * frame_size l) (msg_payload m)))\<rparr>"

lemma concat_chunks: "concat (map (\<lambda>j. chunk f j p) [0 ..< i]) = take (i * f) p"
  by (induction i) (simp_all add: chunk_def take_add add.commute [of f])

lemma length_take_Suc_chunk:
  "length (take (i * f) p) + length (chunk f i p) = length (take (Suc i * f) p)"
proof -
  have "take (i * f) p @ chunk f i p = take (Suc i * f) p"
    using concat_chunks [of f p i] concat_chunks [of f p "Suc i"] by simp
  then show ?thesis by (metis length_append)
qed

lemma frame_count_bounds:
  assumes "limits_ok l" and "sendable l m"
  shows "1 \<le> frame_count l m" and "int (frame_count l m) \<le> max_chunks l"
    and "length (msg_payload m) \<le> frame_count l m * frame_size l"
    and "message_chunk_count (int (length (msg_payload m))) l = Inr (int (frame_count l m))"
proof -
  obtain cnt where cnt: "message_chunk_count (int (length (msg_payload m))) l = Inr cnt" "1 \<le> cnt"
      "cnt \<le> max_chunks l" "int (length (msg_payload m)) \<le> cnt * max_frame_payload_bytes l"
    using message_chunk_count_ok [OF assms(1), of "int (length (msg_payload m))"] assms(2)
    by (auto simp: sendable_def)
  have fc: "frame_count l m = nat cnt"
    using cnt(1) by (simp add: frame_count_def)
  have "cnt * max_frame_payload_bytes l = int (nat cnt * frame_size l)"
    using cnt(2) assms(1) by (simp add: frame_size_def limits_ok_def)
  then have "length (msg_payload m) \<le> nat cnt * frame_size l"
    using cnt(4) of_nat_le_iff by metis
  with cnt(1-3) fc show "1 \<le> frame_count l m" "int (frame_count l m) \<le> max_chunks l"
    "length (msg_payload m) \<le> frame_count l m * frame_size l"
    "message_chunk_count (int (length (msg_payload m))) l = Inr (int (frame_count l m))"
    by simp_all
qed

lemma jget_frame_header:
  "jget (frame_header mid index cnt tot digest control) ''message_id'' = JStr mid"
  "jget (frame_header mid index cnt tot digest control) ''index'' = JInt index"
  "jget (frame_header mid index cnt tot digest control) ''count'' = JInt cnt"
  "jget (frame_header mid index cnt tot digest control) ''total'' = JInt tot"
  "jget (frame_header mid index cnt tot digest control) ''digest'' = JStr digest"
  "jget (frame_header mid index cnt tot digest control) ''control'' = control"
  by (simp_all add: jget_def frame_header_def)

lemma dkeys_frame_header:
  "dkeys (frame_header mid index cnt tot digest control) = map J chunk_fields"
  by (simp add: frame_header_def chunk_fields_def)

lemma accept_next_frame:
  assumes l: "limits_ok l" and m: "sendable l m" and sha: "length (sha (msg_payload m)) = 64"
    and mid: "length mid \<le> 64" and i: "i < frame_count l m"
    and st: "map_of (rd_messages r) mid = (if i = 0 then None else Some (chunks_at sha l m i))"
    and new: "i = 0 \<Longrightarrow> int (length (rd_messages r)) < max_incomplete_messages l"
    and room: "rd_incomplete r + int (length (chunk (frame_size l) i (msg_payload m))) \<le> max_message_bytes l"
  shows "reader_accept sha l (msg_kind m) (header_of sha mid (int (frame_count l m)) m i)
           (chunk (frame_size l) i (msg_payload m)) r =
         (let n = rd_incomplete r + int (length (chunk (frame_size l) i (msg_payload m))) in
          if Suc i < frame_count l m
          then (\<lparr>rd_messages = AList.update mid (chunks_at sha l m (Suc i)) (rd_messages r),
                 rd_incomplete = n\<rparr>, Inr None)
          else (\<lparr>rd_messages = AList.delete mid (rd_messages r),
                 rd_incomplete = n - int (length (msg_payload m))\<rparr>, Inr (Some m)))"
proof -
  note fc = frame_count_bounds [OF l m]
  let ?p = "msg_payload m" and ?c = "chunk (frame_size l) i (msg_payload m)"
  have recv: "int (length (take (i * frame_size l) ?p)) + int (length ?c) =
      int (length (take (Suc i * frame_size l) ?p))"
    using length_take_Suc_chunk [of i "frame_size l" ?p] by linarith
  have accept: "reader_accept sha l (msg_kind m) (header_of sha mid (int (frame_count l m)) m i) ?c r =
      accept_state sha l (msg_kind m) mid (int i) (int (frame_count l m)) (int (length ?p)) (sha ?p)
        (if i = 0 then JDict (msg_control m) else JNull) ?c r"
    using mid i m sha fc
    by (simp add: reader_accept_def header_of_def jget_frame_header dkeys_frame_header sendable_def)
  have state: "accept_state sha l (msg_kind m) mid (int i) (int (frame_count l m)) (int (length ?p)) (sha ?p)
        (if i = 0 then JDict (msg_control m) else JNull) ?c r =
      accept_chunk sha l (msg_kind m) mid (int i) (int (frame_count l m)) ?c (chunks_at sha l m i)
        (r\<lparr>rd_messages := AList.update mid (chunks_at sha l m i) (rd_messages r)\<rparr>)"
    using st new fc
    by (auto simp: accept_state_def new_chunks_def chunks_at_def dict_update_same Let_def)
  have last: "take (Suc i * frame_size l) ?p = ?p" if "\<not> Suc i < frame_count l m"
    using fc(3) i that by (metis Suc_lessI take_all)
  have parts: "concat (map (\<lambda>j. chunk (frame_size l) j ?p) [0 ..< i]) @ ?c = take (Suc i * frame_size l) ?p"
    using concat_chunks [of "frame_size l" ?p "Suc i"] by simp
  show ?thesis
    unfolding accept state using room recv last parts i
    by (auto simp: accept_chunk_def chunks_at_def Let_def reader_updates dict_update_update
        dict_delete_update add.commute [of 1 "int i"])
qed


text \<open>
  Frames of several messages arriving at one reader: \<open>ms mid\<close> is the message sent under \<open>mid\<close>,
  \<open>p mid\<close> how many of its frames have arrived, and the list says whose frame comes next.
\<close>

fun feed ::
    "(bytes \<Rightarrow> pystr) \<Rightarrow> remote_limits \<Rightarrow> (pystr \<Rightarrow> message) \<Rightarrow> (pystr \<Rightarrow> nat) \<Rightarrow> pystr list \<Rightarrow> reader
       \<Rightarrow> reader \<times> message option result list" where
  "feed sha l ms p [] r = (r, [])"
| "feed sha l ms p (mid # mids) r =
     (let m = ms mid;
          (r', out) = reader_accept sha l (msg_kind m) (header_of sha mid (int (frame_count l m)) m (p mid))
                        (chunk (frame_size l) (p mid) (msg_payload m)) r;
          (r'', outs) = feed sha l ms (p(mid := p mid + 1)) mids r'
      in (r'', out # outs))"

fun completions :: "(pystr \<Rightarrow> message) \<Rightarrow> pystr list \<Rightarrow> message option result list" where
  "completions ms [] = []"
| "completions ms (mid # mids) =
     Inr (if mid \<in> set mids then None else Some (ms mid)) # completions ms mids"

definition reader_at ::
    "(bytes \<Rightarrow> pystr) \<Rightarrow> remote_limits \<Rightarrow> (pystr \<Rightarrow> message) \<Rightarrow> (pystr \<Rightarrow> nat) \<Rightarrow> reader \<Rightarrow> bool" where
  "reader_at sha l ms p r \<longleftrightarrow>
     wf_dict (rd_messages r) \<and>
     rd_incomplete r = dict_sum ck_received (rd_messages r) \<and>
     (\<forall>mid. map_of (rd_messages r) mid =
        (if 0 < p mid \<and> p mid < frame_count l (ms mid) then Some (chunks_at sha l (ms mid) (p mid)) else None))"

lemma received_le: "ck_received (chunks_at sha l m i) \<le> int (length (msg_payload m))"
  by (simp add: chunks_at_def)

text \<open>There is room for the next frame as long as all messages together fit.\<close>

lemma reader_at_room:
  assumes at: "reader_at sha l ms p r" and S: "finite S" "mid \<in> S" "\<And>k. k \<notin> S \<Longrightarrow> p k = 0"
    and mid: "p mid < frame_count l (ms mid)"
  shows "rd_incomplete r + int (length (chunk (frame_size l) (p mid) (msg_payload (ms mid)))) \<le>
           (\<Sum>k \<in> S. int (length (msg_payload (ms k))))"
    and "p mid = 0 \<Longrightarrow> length (rd_messages r) < card S"
proof -
  let ?d = "rd_messages r" and ?w = "\<lambda>k. int (length (msg_payload (ms k)))"
  have wf: "wf_dict ?d" using at by (simp add: reader_at_def)
  have dom: "dom (map_of ?d) \<subseteq> S" and fin: "finite (dom (map_of ?d))"
    using at S(3) by (auto simp: reader_at_def finite_dom_map_of) (metis less_nat_zero_code option.distinct(1))
  have le: "ck_received (the (map_of ?d k)) \<le> ?w k" if "k \<in> dom (map_of ?d)" for k
    using that at unfolding reader_at_def by (metis domIff option.sel received_le)
  have rest: "(\<Sum>k \<in> dom (map_of ?d) - {mid}. ck_received (the (map_of ?d k))) \<le> (\<Sum>k \<in> S - {mid}. ?w k)"
    using dom S(1) le by (intro order.trans [OF sum_mono sum_mono2]) auto
  have own: "(if mid \<in> dom (map_of ?d) then ck_received (the (map_of ?d mid)) else 0) +
      int (length (chunk (frame_size l) (p mid) (msg_payload (ms mid)))) \<le> ?w mid"
  proof -
    have "length (take (p mid * frame_size l) (msg_payload (ms mid))) +
        length (chunk (frame_size l) (p mid) (msg_payload (ms mid))) \<le> length (msg_payload (ms mid))"
      unfolding length_take_Suc_chunk by simp
    then show ?thesis
      using at mid by (auto simp: reader_at_def chunks_at_def domIff)
  qed
  have "rd_incomplete r = (\<Sum>k \<in> dom (map_of ?d). ck_received (the (map_of ?d k)))"
    using at wf by (simp add: reader_at_def dict_sum_dom)
  also have "\<dots> = (if mid \<in> dom (map_of ?d) then ck_received (the (map_of ?d mid)) else 0) +
      (\<Sum>k \<in> dom (map_of ?d) - {mid}. ck_received (the (map_of ?d k)))"
    using fin by (simp add: sum.remove)
  finally show "rd_incomplete r + int (length (chunk (frame_size l) (p mid) (msg_payload (ms mid)))) \<le>
      (\<Sum>k \<in> S. ?w k)"
    using rest own S(1,2) by (simp add: sum.remove)
  assume "p mid = 0"
  then have "mid \<notin> dom (map_of ?d)"
    using at by (auto simp: reader_at_def domIff)
  then have "card (dom (map_of ?d)) < card S"
    using dom S(1,2) by (intro psubset_card_mono) auto
  moreover have "length ?d = card (dom (map_of ?d))"
    using wf by (metis distinct_card length_map set_dkeys)
  ultimately show "length ?d < card S" by simp
qed


lemma reader_at_step:
  assumes at: "reader_at sha l ms p r" and mid: "p mid < frame_count l (ms mid)"
    and n: "n = rd_incomplete r + int (length (chunk (frame_size l) (p mid) (msg_payload (ms mid))))"
  shows "Suc (p mid) < frame_count l (ms mid) \<Longrightarrow>
      reader_at sha l ms (p(mid := Suc (p mid)))
        \<lparr>rd_messages = AList.update mid (chunks_at sha l (ms mid) (Suc (p mid))) (rd_messages r),
         rd_incomplete = n\<rparr>"
    and "limits_ok l \<Longrightarrow> sendable l (ms mid) \<Longrightarrow> \<not> Suc (p mid) < frame_count l (ms mid) \<Longrightarrow>
      reader_at sha l ms (p(mid := Suc (p mid)))
        \<lparr>rd_messages = AList.delete mid (rd_messages r),
         rd_incomplete = n - int (length (msg_payload (ms mid)))\<rparr>"
proof -
  let ?m = "msg_payload (ms mid)"
  have recv: "int (length (take (p mid * frame_size l) ?m)) + int (length (chunk (frame_size l) (p mid) ?m)) =
      int (length (take (Suc (p mid) * frame_size l) ?m))"
    using length_take_Suc_chunk [of "p mid" "frame_size l" ?m] by linarith
  have old: "(case map_of (rd_messages r) mid of None \<Rightarrow> 0 | Some st \<Rightarrow> ck_received st) =
      int (length (take (p mid * frame_size l) ?m))"
    using at mid by (auto simp: reader_at_def chunks_at_def)
  have inc: "rd_incomplete r = dict_sum ck_received (rd_messages r)" and wf: "wf_dict (rd_messages r)"
    using at by (auto simp: reader_at_def)
  show "reader_at sha l ms (p(mid := Suc (p mid)))
      \<lparr>rd_messages = AList.update mid (chunks_at sha l (ms mid) (Suc (p mid))) (rd_messages r),
       rd_incomplete = n\<rparr>" if "Suc (p mid) < frame_count l (ms mid)"
    unfolding reader_at_def
  proof (intro conjI)
    have "ck_received (chunks_at sha l (ms mid) (Suc (p mid))) = int (length (take (Suc (p mid) * frame_size l) ?m))"
      by (simp add: chunks_at_def)
    then show "rd_incomplete \<lparr>rd_messages = AList.update mid (chunks_at sha l (ms mid) (Suc (p mid))) (rd_messages r),
       rd_incomplete = n\<rparr> = dict_sum ck_received (rd_messages \<lparr>rd_messages = AList.update mid (chunks_at sha l (ms mid) (Suc (p mid))) (rd_messages r),
       rd_incomplete = n\<rparr>)"
      using old recv n inc wf by (simp add: dict_sum_update)
  qed (use at that in \<open>auto simp: reader_at_def\<close>)
  show "reader_at sha l ms (p(mid := Suc (p mid)))
      \<lparr>rd_messages = AList.delete mid (rd_messages r),
       rd_incomplete = n - int (length ?m)\<rparr>"
    if l: "limits_ok l" "sendable l (ms mid)" and last: "\<not> Suc (p mid) < frame_count l (ms mid)"
  proof -
    have "take (Suc (p mid) * frame_size l) ?m = ?m"
      using frame_count_bounds(3) [OF l] mid last by (metis Suc_lessI take_all)
    then have "n - int (length ?m) = dict_sum ck_received (AList.delete mid (rd_messages r))"
      using old recv n inc wf by (simp add: dict_sum_delete)
    with last wf at show ?thesis
      by (auto simp: reader_at_def)
  qed
qed

lemma feed_completes:
  assumes "limits_ok l" and "\<And>b. length (sha b) = 64" and "finite S"
    and "(\<Sum>k \<in> S. int (length (msg_payload (ms k)))) \<le> max_message_bytes l"
    and "int (card S) \<le> max_incomplete_messages l"
    and "\<And>k. k \<in> S \<Longrightarrow> length k \<le> 64 \<and> sendable l (ms k)"
  shows "reader_at sha l ms p r \<Longrightarrow> set mids \<subseteq> S \<Longrightarrow> (\<And>k. k \<notin> S \<Longrightarrow> p k = 0) \<Longrightarrow>
    (\<And>k. k \<in> S \<Longrightarrow> p k + count_list mids k = frame_count l (ms k)) \<Longrightarrow>
    \<exists>r'. feed sha l ms p mids r = (r', completions ms mids) \<and>
         reader_at sha l ms (\<lambda>k. p k + count_list mids k) r'"
proof (induction mids arbitrary: p r)
  case Nil
  then show ?case by auto
next
  case (Cons mid mids)
  let ?m = "ms mid" and ?p = "p(mid := Suc (p mid))"
  have mid: "mid \<in> S" and cnt: "Suc (p mid) + count_list mids mid = frame_count l ?m"
    using Cons.prems(2) Cons.prems(4) [of mid] by simp_all
  then have lt: "p mid < frame_count l ?m" by linarith
  define n where "n = rd_incomplete r + int (length (chunk (frame_size l) (p mid) (msg_payload ?m)))"
  define r' where "r' = (if Suc (p mid) < frame_count l ?m
      then \<lparr>rd_messages = AList.update mid (chunks_at sha l ?m (Suc (p mid))) (rd_messages r), rd_incomplete = n\<rparr>
      else \<lparr>rd_messages = AList.delete mid (rd_messages r),
            rd_incomplete = n - int (length (msg_payload ?m))\<rparr>)"
  note room = reader_at_room [OF Cons.prems(1) assms(3) mid Cons.prems(3) lt]
  have "mid \<in> set mids \<longleftrightarrow> Suc (p mid) < frame_count l ?m"
    using cnt count_list_0_iff [of mids mid] by (cases "count_list mids mid") auto
  moreover have "map_of (rd_messages r) mid = (if p mid = 0 then None else Some (chunks_at sha l ?m (p mid)))"
    using Cons.prems(1) lt by (auto simp: reader_at_def)
  moreover have "p mid = 0 \<Longrightarrow> int (length (rd_messages r)) < max_incomplete_messages l"
    using room(2) assms(5) by linarith
  ultimately have acc: "reader_accept sha l (msg_kind ?m) (header_of sha mid (int (frame_count l ?m)) ?m (p mid))
      (chunk (frame_size l) (p mid) (msg_payload ?m)) r =
      (r', Inr (if mid \<in> set mids then None else Some ?m))"
    using accept_next_frame [of l ?m sha mid "p mid" r] assms(1,2,4,6) mid lt room(1)
    by (simp add: n_def r'_def Let_def)
  have "reader_at sha l ms ?p r'"
    using reader_at_step [OF Cons.prems(1) lt n_def] assms mid by (auto simp: r'_def)
  then obtain r'' where "feed sha l ms ?p mids r' = (r'', completions ms mids)"
      "reader_at sha l ms (\<lambda>k. ?p k + count_list mids k) r''"
    using Cons.IH [of ?p r'] Cons.prems mid by (fastforce split: if_splits)
  moreover have "(\<lambda>k. ?p k + count_list mids k) = (\<lambda>k. p k + count_list (mid # mids) k)"
    by auto
  ultimately show ?case
    using acc by (auto simp: Let_def)
qed


lemma reader_at_done:
  assumes "reader_at sha l ms p r" and "\<And>k. p k = 0 \<or> p k = frame_count l (ms k)"
  shows "r = reader_init"
proof -
  have "map_of (rd_messages r) k = None" for k
    using assms unfolding reader_at_def by (metis less_irrefl)
  then have "rd_messages r = []"
    by (metis list.exhaust map_of_eq_None_iff list.set_intros(1) imageI surj_pair prod.sel(1) list.simps(15) insertI1)
  with assms(1) show ?thesis
    by (cases r) (simp add: reader_at_def reader_init_def)
qed

lemma recv_loop_data:
  assumes "Stall \<notin> set s" and "length got \<le> n" and "n \<le> length got + length (sock_bytes s)"
  shows "\<exists>s'. recv_loop ai n got s = (s', Inr (got @ take (n - length got) (sock_bytes s))) \<and>
    Stall \<notin> set s' \<and> sock_bytes s' = drop (n - length got) (sock_bytes s)"
  using assms
proof (induction ai n got s rule: recv_loop.induct)
  case (2 ai n got e s)
  then show ?case
    by (cases e) (auto simp: Let_def not_less)
qed auto

subsection \<open>Bytes on the socket\<close>

lemma send_exact_prefix:
  "send_exact view es = (w, es', res) \<Longrightarrow> \<exists>rest. view = w @ rest \<and> (res = Inr () \<longleftrightarrow> rest = [])"
proof (induction view es arbitrary: w rule: send_exact.induct)
  case (2 view e es)
  show ?case
  proof (cases "view = []")
    case False
    show ?thesis
    proof (cases e)
      case (Accepts n)
      show ?thesis
      proof (cases "n = 0")
        case pos: False
        obtain w' where w': "send_exact (drop n view) es = (w', es', res)" "w = take n view @ w'"
          using 2(3) False Accepts pos by (auto split: prod.splits)
        have "\<exists>rest. drop n view = w' @ rest \<and> (res = Inr () \<longleftrightarrow> rest = [])"
          using 2(1) [OF False Accepts pos w'(1)] .
        with w'(2) show ?thesis by (metis append.assoc append_take_drop_id)
      qed (use 2(3) False Accepts in auto)
    next
      case Want_retry
      then show ?thesis using 2(2) [OF False Want_retry] 2(3) False by auto
    qed (use 2(3) False in auto)
  qed (use 2(3) in auto)
qed (auto split: if_splits)

lemma send_parts_prefix:
  "send_parts ps es = (w, es', res) \<Longrightarrow> \<exists>rest. concat ps = w @ rest \<and> (res = Inr () \<longrightarrow> rest = [])"
proof (induction ps es arbitrary: w rule: send_parts.induct)
  case (2 p ps es)
  obtain w1 es1 res1 where 1: "send_exact p es = (w1, es1, res1)" by (cases "send_exact p es")
  note p1 = send_exact_prefix [OF 1]
  show ?case
  proof (cases res1)
    case (Inl e)
    with 1 p1 2(2) show ?thesis by auto
  next
    case (Inr u)
    obtain w2 where w2: "send_parts ps es1 = (w2, es', res)" "w = w1 @ w2"
      using 2(2) 1 Inr by (auto split: prod.splits)
    have "\<exists>rest. concat ps = w2 @ rest \<and> (res = Inr () \<longrightarrow> rest = [])"
      using 2(1) [OF 1 [symmetric] refl Inr w2(1)] 1 Inr by simp
    with p1 Inr w2(2) show ?thesis by auto
  qed
qed simp


lemma json_str_Some: "json_str v = Some t \<longleftrightarrow> v = JStr t"
  by (cases v) auto

lemma json_int_Some: "json_int v = Some i \<longleftrightarrow> v = JInt i"
  by (cases v) auto

lemma accept_chunk_Some:
  "accept_chunk sha l kind mid index cnt payload st r = (r', Inr (Some m)) \<Longrightarrow>
     msg_kind m = kind \<and> msg_control m = ck_control st \<and> msg_payload m = concat (ck_parts st) @ payload \<and>
     sha (msg_payload m) = ck_digest st \<and> ck_received st + int (length payload) = ck_total st \<and>
     index + 1 = cnt \<and> index = ck_next_index st"
  by (auto simp: accept_chunk_def Let_def split: if_splits)

lemma accept_state_Some:
  assumes "accept_state sha l kind mid index cnt tot digest control payload r = (r', Inr (Some m))"
    and "reader_inv l r"
  shows "msg_kind m = kind \<and> sha (msg_payload m) = digest \<and> int (length (msg_payload m)) = tot"
proof -
  have recv: "map_of (rd_messages r) mid = Some st \<Longrightarrow> ck_received st = int (length (concat (ck_parts st)))" for st
    using assms(2) by (auto simp: reader_inv_def chunks_ok_def)
  show ?thesis
    using assms(1)
    by (auto simp: accept_state_def Let_def new_chunks_def recv dest!: accept_chunk_Some
        split: option.splits if_splits bool.splits)
qed

subsection \<open>Properties\<close>

text \<open>
  (C20) Chunked messages survive interleaving: when the frames that \<open>send_message\<close> produces for
  several messages with distinct ids arrive at one \<open>MessageReader\<close> in any interleaving, no frame is
  refused, each message comes out once, with its kind, control object and payload, on the arrival of
  its last frame, and the reader ends empty.  The messages together must fit the receive buffer.
  The digest function is any function with 64-character results.
\<close>

theorem interleaved_reassembly:
  assumes "limits_ok l" and "\<And>b. length (sha b) = 64"
    and "\<And>mid. mid \<in> set mids \<Longrightarrow> length mid \<le> 64 \<and> count_list mids mid = frame_count l (ms mid)"
    and "(\<Sum>mid \<in> set mids. int (length (msg_payload (ms mid)))) \<le> max_message_bytes l"
    and "int (card (set mids)) \<le> max_incomplete_messages l"
  shows "feed sha l ms (\<lambda>_. 0) mids reader_init = (reader_init, completions ms mids)"
proof -
  have "sendable l (ms mid)" if "mid \<in> set mids" for mid
  proof -
    have "int (length (msg_payload (ms mid))) \<le> (\<Sum>mid \<in> set mids. int (length (msg_payload (ms mid))))"
      using that by (intro member_le_sum) auto
    with assms(4) show ?thesis by (simp add: sendable_def)
  qed
  then obtain r where r: "feed sha l ms (\<lambda>_. 0) mids reader_init = (r, completions ms mids)"
      "reader_at sha l ms (\<lambda>k. 0 + count_list mids k) r"
    using feed_completes [of l sha "set mids" ms "\<lambda>_. 0" reader_init mids] assms
    by (auto simp: reader_at_def reader_init_def)
  have "r = reader_init"
    by (rule reader_at_done [OF r(2)]) (use assms(3) in \<open>auto simp: count_list_0_iff\<close>)
  with r show ?thesis by simp
qed

definition demo_limits :: remote_limits where
  "demo_limits = default_limits\<lparr>max_frame_payload_bytes := 2, max_message_bytes := 16,
     max_invocation_bytes := 16, max_result_bytes := 16\<rparr>"

definition demo_message :: "pystr \<Rightarrow> message" where
  "demo_message mid = \<lparr>msg_kind = M_SUBMIT, msg_control = [(J ''id'', JStr mid)], msg_payload = [1, 2, 3] @ mid\<rparr>"

theorem interleaved_reassembly_witness:
  "feed (\<lambda>b. replicate 64 (sum_list b mod 10 + 48)) demo_limits demo_message (\<lambda>_. 0)
     [[7], [8, 8], [7], [8, 8], [8, 8]] reader_init =
   (reader_init, [Inr None, Inr None, Inr (Some (demo_message [7])), Inr None, Inr (Some (demo_message [8, 8]))])"
proof -
  have "limits_ok demo_limits" by code_simp
  moreover have "frame_count demo_limits (demo_message [7]) = 2" "frame_count demo_limits (demo_message [8, 8]) = 3"
    by code_simp+
  moreover have "max_message_bytes demo_limits = 16" "max_incomplete_messages demo_limits = 16"
    by code_simp+
  ultimately have "feed (\<lambda>b. replicate 64 (sum_list b mod 10 + 48)) demo_limits demo_message (\<lambda>_. 0)
     [[7], [8, 8], [7], [8, 8], [8, 8]] reader_init =
     (reader_init, completions demo_message [[7], [8, 8], [7], [8, 8], [8, 8]])"
    by (intro interleaved_reassembly) (auto simp: demo_message_def insert_commute)
  then show ?thesis by (simp only: completions.simps) simp
qed

text \<open>
  (C21) Whatever frames a peer sends, valid or not and in any order, and whichever of them raise, a
  \<open>MessageReader\<close> buffers at most \<open>max_message_bytes\<close> payload bytes, in at most
  \<open>max_incomplete_messages\<close> messages of at most \<open>max_chunks\<close> parts each, and its byte counter is
  exact.
\<close>

theorem reader_memory_bounded:
  assumes "limits_ok l"
    and "r = fold (\<lambda>(kind, header, payload) r. fst (reader_accept sha l kind header payload r)) frames reader_init"
  shows "dict_sum (\<lambda>st. int (length (concat (ck_parts st)))) (rd_messages r) = rd_incomplete r \<and>
    rd_incomplete r \<le> max_message_bytes l \<and>
    int (length (rd_messages r)) \<le> max_incomplete_messages l \<and>
    (\<forall>(mid, st) \<in> set (rd_messages r). int (length (ck_parts st)) \<le> max_chunks l)"
proof -
  have "reader_inv l (fold (\<lambda>(kind, header, payload) r. fst (reader_accept sha l kind header payload r)) frames r0)"
    if "reader_inv l r0" for r0
    using that by (induction frames arbitrary: r0) (auto intro: reader_accept_inv)
  then have inv: "reader_inv l r"
    using assms by simp
  then have st: "\<forall>(mid, st) \<in> set (rd_messages r). chunks_ok l st"
    using dict_ball [of "rd_messages r" "\<lambda>_. chunks_ok l"] by (auto simp: reader_inv_def)
  then have "dict_sum (\<lambda>st. int (length (concat (ck_parts st)))) (rd_messages r) =
      dict_sum ck_received (rd_messages r)"
    unfolding dict_sum_def by (intro arg_cong [where f = sum_list] map_cong) (auto simp: chunks_ok_def)
  with inv st show ?thesis
    by (fastforce simp: reader_inv_def chunks_ok_def)
qed

theorem reader_memory_bounded_witness:
  "rd_incomplete (fold (\<lambda>(kind, header, payload) r.
       fst (reader_accept (\<lambda>_. replicate 64 48) demo_limits kind header payload r))
     [(M_SUBMIT, header_of (\<lambda>_. replicate 64 48) [7] 2 (demo_message [7]) 0, [1, 2]),
      (M_RESULT, header_of (\<lambda>_. replicate 64 48) [7] 2 (demo_message [7]) 1, [3, 7])] reader_init) \<le> 16"
proof -
  have "limits_ok demo_limits" and "max_message_bytes demo_limits = 16" by code_simp+
  then show ?thesis
    using reader_memory_bounded [OF _ refl, of demo_limits "\<lambda>_. replicate 64 48"
        "[(M_SUBMIT, header_of (\<lambda>_. replicate 64 48) [7] 2 (demo_message [7]) 0, [1, 2]),
          (M_RESULT, header_of (\<lambda>_. replicate 64 48) [7] 2 (demo_message [7]) 1, [3, 7])]"]
    by (simp only:)
qed

text \<open>
  (C22) A message handed out by the reader is what its header announced: the payload has the declared
  digest and length, within the receive limit, and the kind of the frame.
\<close>

theorem reader_output_authentic:
  assumes "reader_inv l r" and "reader_accept sha l kind header payload r = (r', Inr (Some m))"
  shows "msg_kind m = kind \<and> jget header ''digest'' = JStr (sha (msg_payload m)) \<and>
    jget header ''total'' = JInt (int (length (msg_payload m))) \<and>
    int (length (msg_payload m)) \<le> max_message_bytes l"
  using assms
  by (auto simp: reader_accept_def json_str_Some json_int_Some dest!: accept_state_Some
      split: option.splits if_splits)

theorem reader_output_authentic_witness:
  "reader_accept (\<lambda>_. replicate 64 48) demo_limits M_SUBMIT
     (header_of (\<lambda>_. replicate 64 48) [7] 1 (demo_message [] \<lparr>msg_payload := [5]\<rparr>) 0) [5] reader_init =
     (reader_init, Inr (Some (demo_message [] \<lparr>msg_payload := [5]\<rparr>))) \<and>
   int (length [5::nat]) \<le> max_message_bytes demo_limits"
proof -
  have "limits_ok demo_limits" by code_simp
  then have "reader_inv demo_limits reader_init" by simp
  moreover have "reader_accept (\<lambda>_. replicate 64 48) demo_limits M_SUBMIT
     (header_of (\<lambda>_. replicate 64 48) [7] 1 (demo_message [] \<lparr>msg_payload := [5]\<rparr>) 0) [5] reader_init =
     (reader_init, Inr (Some (demo_message [] \<lparr>msg_payload := [5]\<rparr>)))"
    by code_simp
  ultimately show ?thesis
    using reader_output_authentic by fastforce
qed

text \<open>
  The socket layer neither loses nor invents bytes: \<open>_send_exact\<close> hands the socket a prefix of
  its data, and the whole of it exactly when it returns normally; \<open>_recv_exact\<close> returns the next
  bytes of the stream however they were segmented, and leaves the rest.
\<close>

theorem socket_bytes_exact:
  "(\<forall>w es' res. send_exact view es = (w, es', res) \<longrightarrow>
      (\<exists>rest. view = w @ rest \<and> (res = Inr () \<longleftrightarrow> rest = []))) \<and>
   (Stall \<notin> set s \<and> n \<le> length (sock_bytes s) \<longrightarrow>
      (\<exists>s'. recv_exact idle n s = (s', Inr (take n (sock_bytes s))) \<and> sock_bytes s' = drop n (sock_bytes s)))"
  using send_exact_prefix recv_loop_data [of s "[]" n idle] by (auto simp: recv_exact_def)

theorem socket_bytes_exact_witness:
  "(\<exists>rest. [1, 2, 3::nat] = fst (send_exact [1, 2, 3] [Accepts 1, Want_retry, Accepts 9]) @ rest) \<and>
   (\<exists>s'. recv_exact False 3 [Data [1, 2], Data [], Data [3, 4]] = (s', Inr [1, 2, 3]) \<and> sock_bytes s' = [4])"
  using socket_bytes_exact [of "[1, 2, 3]" "[Accepts 1, Want_retry, Accepts 9]"
      "[Data [1, 2], Data [], Data [3, 4]]" 3 False]
  by (auto simp: numeral_3_eq_3)

end
