(* ===== verification/Descriptor.thy ===== *)
theory Descriptor
  imports Protocol
begin

text \<open>
  The diagnostics a terminal outcome carries (end of \<open>deadpool/remote/server.py\<close>):
  \<open>_truncate_utf8\<close>, \<open>_terminal_descriptor_fits\<close> and \<open>_fit_terminal_descriptor\<close>.  A worker's
  descriptor is a dict from field names to strings.
\<close>

subsection \<open>Encoding\<close>

definition hex_digit :: "nat \<Rightarrow> nat" where
  "hex_digit n = (if n < 10 then 48 + n else 87 + n)"

text \<open>The text \<open>\udXXX\<close> that \<open>errors="backslashreplace"\<close> puts in place of a lone surrogate.\<close>

definition surrogate_escape :: "nat \<Rightarrow> pystr" where
  "surrogate_escape c =
     [92, 117, hex_digit (c div 4096), hex_digit (c div 256 mod 16),
      hex_digit (c div 16 mod 16), hex_digit (c mod 16)]"

definition backslashreplace :: "pystr \<Rightarrow> pystr" where
  "backslashreplace s = concat (map (\<lambda>c. if is_surrogate c then surrogate_escape c else [c]) s)"

definition utf8_char :: "nat \<Rightarrow> bytes" where
  "utf8_char c =
     (if c < 0x80 then [c]
      else if c < 0x800 then [192 + c div 64, 128 + c mod 64]
      else if c < 0x10000 then [224 + c div 4096, 128 + c div 64 mod 64, 128 + c mod 64]
      else [240 + c div 262144, 128 + c div 4096 mod 64, 128 + c div 64 mod 64, 128 + c mod 64])"

definition utf8_encode :: "pystr \<Rightarrow> bytes" where
  "utf8_encode s = concat (map utf8_char s)"

text \<open>
  \<open>bytes.decode("utf-8", errors="ignore")\<close> on an encoding or a prefix of one: complete sequences are
  decoded and an incomplete one at the end is dropped.
\<close>

fun utf8_decode :: "bytes \<Rightarrow> pystr" where
  "utf8_decode [] = []"
| "utf8_decode (b # bs) =
     (if b < 0x80 then b # utf8_decode bs
      else if b < 224
      then (case bs of c1 # r \<Rightarrow> ((b - 192) * 64 + (c1 - 128)) # utf8_decode r | _ \<Rightarrow> [])
      else if b < 240
      then (case bs of c1 # c2 # r \<Rightarrow> ((b - 224) * 4096 + (c1 - 128) * 64 + (c2 - 128)) # utf8_decode r
            | _ \<Rightarrow> [])
      else (case bs of c1 # c2 # c3 # r \<Rightarrow>
              ((b - 240) * 262144 + (c1 - 128) * 4096 + (c2 - 128) * 64 + (c3 - 128)) # utf8_decode r
            | _ \<Rightarrow> []))"

definition truncate_marker :: bytes where
  "truncate_marker = lit ''...[truncated]''"

definition truncate_utf8 :: "pystr \<Rightarrow> int \<Rightarrow> pystr" where
  "truncate_utf8 v limit =
     (let encoded = utf8_encode (backslashreplace v) in
      if int (length encoded) \<le> limit then utf8_decode encoded
      else if limit \<le> int (length truncate_marker) then take (nat limit) truncate_marker
      else utf8_decode (take (nat limit - length truncate_marker) encoded) @ truncate_marker)"

subsection \<open>Fitting a descriptor into its frame\<close>

definition dict_merge :: "('k, 'v) dict \<Rightarrow> ('k, 'v) dict \<Rightarrow> ('k, 'v) dict" where
  "dict_merge d e = foldl (\<lambda>d (k, v). AList.update k v d) d e"

definition descriptor_json :: "(string, pystr) dict \<Rightarrow> (json \<times> json) list" where
  "descriptor_json d = map (\<lambda>(k, v). (J k, JStr v)) d"

definition terminal_descriptor_fits ::
    "((json \<times> json) list \<Rightarrow> bytes) \<Rightarrow> pystr \<Rightarrow> (string, pystr) dict \<Rightarrow> int \<Rightarrow> remote_limits \<Rightarrow> bool" where
  "terminal_descriptor_fits dumps request_id d payload_size l =
     (validate_message_control dumps
        (dict_merge [(J ''request_id'', JStr request_id)] (descriptor_json d)) payload_size l = Inr ())"

function fit_search :: "(pystr \<Rightarrow> bool) \<Rightarrow> (int \<Rightarrow> pystr) \<Rightarrow> int \<Rightarrow> int \<Rightarrow> pystr \<Rightarrow> pystr" where
  "fit_search ok candidate low high best =
     (if low \<le> high
      then let middle = (low + high) div 2;
               c = candidate middle
           in if ok c then fit_search ok candidate (middle + 1) high c
              else fit_search ok candidate low (middle - 1) best
      else best)"
  by pat_completeness auto
termination
  by (relation "measure (\<lambda>(ok, cand, low, high, best). nat (high - low + 1))") auto

declare fit_search.simps [simp del]

fun fit_loop ::
    "((string, pystr) dict \<Rightarrow> bool) \<Rightarrow> string list \<Rightarrow> (string, pystr) dict \<Rightarrow> (string, pystr) dict" where
  "fit_loop fits [] bounded = []"
| "fit_loop fits (name # names) bounded =
     (case map_of bounded name of
        None \<Rightarrow> fit_loop fits names bounded
      | Some original \<Rightarrow>
          let bounded' = AList.update name [] bounded
          in if \<not> fits bounded' then fit_loop fits names bounded'
             else AList.update name
                    (fit_search (\<lambda>c. fits (AList.update name c bounded')) (truncate_utf8 original)
                       0 (int (length (utf8_encode original))) [])
                    bounded')"

definition descriptor_fields :: "string list" where
  "descriptor_fields = [''module'', ''type'', ''message'', ''serialization_error'', ''traceback'']"

definition fit_order :: "string list" where
  "fit_order = [''traceback'', ''serialization_error'', ''message'', ''type'', ''module'']"

definition bound_fields :: "remote_limits \<Rightarrow> (string, pystr) dict \<Rightarrow> (string, pystr) dict" where
  "bound_fields l descriptor =
     map (\<lambda>name. (name, truncate_utf8 (the (map_of descriptor name)) (max_metadata_bytes l)))
       (filter (\<lambda>name. map_of descriptor name \<noteq> None) descriptor_fields)"

definition fit_terminal_descriptor ::
    "((json \<times> json) list \<Rightarrow> bytes) \<Rightarrow> pystr \<Rightarrow> (string, pystr) dict \<Rightarrow> int \<Rightarrow> remote_limits
       \<Rightarrow> (string, pystr) dict" where
  "fit_terminal_descriptor dumps request_id descriptor payload_size l =
     (let bounded = bound_fields l descriptor;
          fits = (\<lambda>d. terminal_descriptor_fits dumps request_id d payload_size l)
      in if fits bounded then bounded else fit_loop fits fit_order bounded)"

subsection \<open>Truncation\<close>

lemma length_utf8_char: "length (utf8_char c) = utf8_size c"
  by (simp add: utf8_char_def utf8_size_def)

lemma length_utf8_encode: "length (utf8_encode s) = sum_list (map utf8_size s)"
  by (induction s) (simp_all add: utf8_encode_def length_utf8_char)

lemma div64: "(c::nat) div 64 * 64 + c mod 64 = c"
  "c div 4096 * 64 + c div 64 mod 64 = c div 64"
  "c div 262144 * 64 + c div 4096 mod 64 = c div 4096"
proof -
  show "c div 64 * 64 + c mod 64 = c" by simp
  have "c div 4096 = c div 64 div 64" by (simp flip: div_mult2_eq)
  then show "c div 4096 * 64 + c div 64 mod 64 = c div 64" by simp
  have "c div 262144 = c div 4096 div 64" by (simp flip: div_mult2_eq)
  then show "c div 262144 * 64 + c div 4096 mod 64 = c div 4096" by simp
qed

lemma utf8_lead: "(c::nat) < 0x800 \<Longrightarrow> c div 64 < 32" "c < 0x10000 \<Longrightarrow> c div 4096 < 16"
  by (simp_all add: less_mult_imp_div_less)

lemma utf8_decode_char: "utf8_decode (utf8_char c @ bs) = c # utf8_decode bs"
proof -
  consider "c < 0x80" | "0x80 \<le> c" "c < 0x800" | "0x800 \<le> c" "c < 0x10000" | "0x10000 \<le> c"
    by linarith
  then show ?thesis
  proof cases
    case 2
    then show ?thesis using utf8_lead(1) [of c] by (simp add: utf8_char_def)
  next
    case 3
    have "c div 4096 * 4096 + c div 64 mod 64 * 64 + c mod 64 = c"
      using div64 [of c] by linarith
    then show ?thesis using 3 utf8_lead(2) [of c] by (simp add: utf8_char_def)
  next
    case 4
    have "c div 262144 * 262144 + c div 4096 mod 64 * 4096 + c div 64 mod 64 * 64 + c mod 64 = c"
      using div64 [of c] by linarith
    then show ?thesis using 4 by (simp add: utf8_char_def)
  qed (simp add: utf8_char_def)
qed

lemma utf8_decode_encode [simp]: "utf8_decode (utf8_encode s) = s"
  by (induction s) (simp_all add: utf8_encode_def utf8_decode_char)

lemma utf8_decode_incomplete:
  assumes "k < length (utf8_char c)"
  shows "utf8_decode (take k (utf8_char c)) = []"
proof -
  have "length (utf8_char c) \<le> 4" by (simp add: utf8_char_def)
  then consider "k = 0" | "k = 1" | "k = 2" | "k = 3" using assms by linarith
  then show ?thesis
    using assms utf8_lead [of c]
    by cases (simp_all add: utf8_char_def take_Cons' split: if_splits)
qed

lemma utf8_decode_prefix:
  "\<exists>t u. s = t @ u \<and> utf8_decode (take k (utf8_encode s)) = t \<and> length (utf8_encode t) \<le> k"
proof (induction s arbitrary: k)
  case Nil
  then show ?case by (simp add: utf8_encode_def)
next
  case (Cons c s)
  show ?case
  proof (cases "k < length (utf8_char c)")
    case True
    then show ?thesis
      using utf8_decode_incomplete [OF True] by (auto simp: utf8_encode_def)
  next
    case False
    obtain t u where tu: "s = t @ u" "utf8_decode (take (k - length (utf8_char c)) (utf8_encode s)) = t"
      "length (utf8_encode t) \<le> k - length (utf8_char c)"
      using Cons.IH by blast
    have "utf8_decode (take k (utf8_encode (c # s))) = c # t"
      using tu False by (simp add: utf8_encode_def utf8_decode_char)
    moreover have "length (utf8_encode (c # t)) \<le> k"
      using tu(3) False by (simp add: utf8_encode_def)
    ultimately show ?thesis
      using tu(1) by (metis append_Cons)
  qed
qed

definition well_encoded :: "int \<Rightarrow> pystr \<Rightarrow> bool" where
  "well_encoded n s \<longleftrightarrow> int (length (utf8_encode s)) \<le> n \<and> (\<forall>c \<in> set s. \<not> is_surrogate c)"

lemma utf8_length_well_encoded: "well_encoded n s \<Longrightarrow> \<exists>k \<le> n. utf8_length s = Inr k"
  by (auto simp: well_encoded_def utf8_length_def length_utf8_encode)

lemma utf8_encode_append: "utf8_encode (s @ t) = utf8_encode s @ utf8_encode t"
  by (simp add: utf8_encode_def)

lemma backslashreplace_encodable: "c \<in> set (backslashreplace s) \<Longrightarrow> \<not> is_surrogate c"
proof -
  have hex: "\<not> is_surrogate (hex_digit (x mod 16))" for x
  proof -
    have "y < 16 \<Longrightarrow> \<not> is_surrogate (hex_digit y)" for y
      by (auto simp: hex_digit_def is_surrogate_def)
    then show ?thesis by simp
  qed
  have "\<not> is_surrogate (hex_digit (x div 4096))" if "is_surrogate x" for x
    using that by (auto simp: hex_digit_def is_surrogate_def)
  then show "c \<in> set (backslashreplace s) \<Longrightarrow> \<not> is_surrogate c"
    using hex by (auto simp: backslashreplace_def surrogate_escape_def is_surrogate_def split: if_splits)
qed

lemma marker_ascii: "truncate_marker = [46, 46, 46, 91, 116, 114, 117, 110, 99, 97, 116, 101, 100, 93]"
  by code_simp

lemma utf8_encode_ascii: "(\<And>c. c \<in> set s \<Longrightarrow> c < 0x80) \<Longrightarrow> utf8_encode s = s"
  by (induction s) (simp_all add: utf8_encode_def utf8_char_def)

lemma well_encoded_ascii:
  "(\<And>c. c \<in> set s \<Longrightarrow> c < 0x80) \<Longrightarrow> int (length s) \<le> n \<Longrightarrow> well_encoded n s"
  by (force simp: well_encoded_def utf8_encode_ascii is_surrogate_def)

lemma truncate_well_encoded:
  assumes "0 \<le> limit"
  shows "well_encoded limit (truncate_utf8 v limit)"
proof -
  let ?s = "backslashreplace v" and ?n = "length truncate_marker"
  have marker: "c < 0x80" if "c \<in> set truncate_marker" for c
    using that by (auto simp: marker_ascii)
  consider "int (length (utf8_encode ?s)) \<le> limit"
    | "int (length (utf8_encode ?s)) > limit" "limit \<le> int ?n"
    | "int (length (utf8_encode ?s)) > limit" "limit > int ?n"
    by linarith
  then show ?thesis
  proof cases
    case 1
    then show ?thesis
      using backslashreplace_encodable by (auto simp: truncate_utf8_def well_encoded_def)
  next
    case 2
    then show ?thesis
      using marker set_take_subset [of "nat limit" truncate_marker] assms
      by (auto simp: truncate_utf8_def intro!: well_encoded_ascii)
  next
    case 3
    obtain t u where t: "?s = t @ u" "utf8_decode (take (nat limit - ?n) (utf8_encode ?s)) = t"
        "length (utf8_encode t) \<le> nat limit - ?n"
      using utf8_decode_prefix by blast
    have "\<not> is_surrogate c" if "c \<in> set t" for c
      using that t(1) backslashreplace_encodable [of c v] by simp
    moreover have "well_encoded (int ?n) truncate_marker"
      by (rule well_encoded_ascii) (use marker in auto)
    ultimately have "well_encoded limit (t @ truncate_marker)"
      using t(3) 3(2) by (auto simp: well_encoded_def utf8_encode_append)
    then show ?thesis
      using 3 t(2) by (simp add: truncate_utf8_def Let_def)
  qed
qed

subsection \<open>Fitting\<close>

lemma fit_search_ok: "ok best \<Longrightarrow> ok (fit_search ok candidate low high best)"
proof (induction ok candidate low high best rule: fit_search.induct)
  case (1 ok candidate low high best)
  then show ?case
    by (subst fit_search.simps) (auto simp: Let_def)
qed

lemma fit_search_candidate:
  "fit_search ok candidate low high best = best \<or>
     (\<exists>n. low \<le> n \<and> n \<le> high \<and> fit_search ok candidate low high best = candidate n)"
proof (induction ok candidate low high best rule: fit_search.induct)
  case (1 ok candidate low high best)
  let ?m = "(low + high) div 2"
  show ?case
  proof (cases "low \<le> high")
    case le: True
    then have m: "low \<le> ?m" "?m \<le> high" by auto
    show ?thesis
    proof (cases "ok (candidate ?m)")
      case True
      with le have "fit_search ok candidate low high best = fit_search ok candidate (?m + 1) high (candidate ?m)"
        by (subst fit_search.simps) (simp add: Let_def)
      moreover from 1(1) [OF le refl refl True]
      have "fit_search ok candidate (?m + 1) high (candidate ?m) = candidate ?m \<or>
          (\<exists>n. ?m + 1 \<le> n \<and> n \<le> high \<and> fit_search ok candidate (?m + 1) high (candidate ?m) = candidate n)" .
      ultimately show ?thesis
        using m by (metis add.commute dual_order.trans zle_add1_eq_le less_le_not_le linorder_le_cases)
    next
      case False
      with le have "fit_search ok candidate low high best = fit_search ok candidate low (?m - 1) best"
        by (subst fit_search.simps) (simp add: Let_def)
      with 1(2) [OF le refl refl False] m show ?thesis
        by (metis (no_types, opaque_lifting) dual_order.trans diff_le_eq le_add_diff_inverse zle_diff1_eq less_le)
    qed
  next
    case False
    then show ?thesis by (subst fit_search.simps) simp
  qed
qed

lemma fit_loop_fits: "fit_loop fits names bounded = [] \<or> fits (fit_loop fits names bounded)"
proof (induction names arbitrary: bounded)
  case (Cons name names)
  have "fits (AList.update name
      (fit_search (\<lambda>c. fits (AList.update name c bounded')) cand low high []) bounded')"
    if "fits bounded'" "bounded' = AList.update name [] bounded" for bounded' cand low high
    using that fit_search_ok [of "\<lambda>c. fits (AList.update name c bounded')" "[]"]
    by (simp add: dict_update_update)
  then show ?case
    using Cons.IH by (auto simp: Let_def split: option.splits)
qed simp

lemma well_encoded_mono: "well_encoded n s \<Longrightarrow> n \<le> m \<Longrightarrow> well_encoded m s"
  by (auto simp: well_encoded_def)

lemma fit_search_well_encoded:
  assumes "well_encoded n original"
  shows "well_encoded n (fit_search ok (truncate_utf8 original) 0 (int (length (utf8_encode original))) [])"
proof -
  have "int (length (utf8_encode original)) \<le> n" using assms by (simp add: well_encoded_def)
  then show ?thesis
    using fit_search_candidate [of ok "truncate_utf8 original" 0 "int (length (utf8_encode original))" "[]"]
      truncate_well_encoded well_encoded_ascii [of "[]" n]
    by (metis dual_order.trans empty_iff empty_set list.size(3) of_nat_0 of_nat_0_le_iff well_encoded_mono)
qed

lemma fit_loop_well_encoded:
  assumes "wf_dict bounded" and "\<And>k v. map_of bounded k = Some v \<Longrightarrow> well_encoded n v" and "0 \<le> n"
    and "map_of (fit_loop fits names bounded) k = Some v"
  shows "well_encoded n v \<and> map_of bounded k \<noteq> None"
  using assms
proof (induction names arbitrary: bounded)
  case (Cons name names)
  have nil: "well_encoded n []" using Cons.prems(3) by (simp add: well_encoded_def utf8_encode_def)
  show ?case
  proof (cases "map_of bounded name")
    case None
    with Cons.prems show ?thesis by (intro Cons.IH) auto
  next
    case (Some original)
    let ?b = "AList.update name [] bounded"
    have orig: "well_encoded n original" using Cons.prems(2) Some by blast
    show ?thesis
    proof (cases "fits ?b")
      case True
      then show ?thesis
        using Cons.prems(2,4) Some fit_search_well_encoded [OF orig]
        by (auto simp: Let_def split: if_splits)
    next
      case False
      have "well_encoded n v \<and> map_of ?b k \<noteq> None"
        using Cons.prems nil False Some by (intro Cons.IH) (auto split: if_splits)
      with Some show ?thesis by (auto split: if_splits)
    qed
  qed
qed simp

lemma bound_fields_well_encoded:
  assumes "map_of (bound_fields l d) k = Some v" and "0 \<le> max_metadata_bytes l"
  shows "well_encoded (max_metadata_bytes l) v \<and> map_of d k \<noteq> None"
  using map_of_SomeD [OF assms(1)] truncate_well_encoded assms(2) by (auto simp: bound_fields_def)

lemma wf_bound_fields: "wf_dict (bound_fields l d)"
  by (simp add: bound_fields_def descriptor_fields_def comp_def distinct_filter)

subsection \<open>Properties\<close>

text \<open>
  (C26) The diagnostics of a terminal outcome always fit on the wire: what \<open>_fit_terminal_descriptor\<close>
  returns is either empty or passes the very check \<open>send_message\<close> makes on the frame that will carry
  it, contains only fields the worker reported, and each of them is valid UTF-8 of at most
  \<open>max_metadata_bytes\<close> bytes, whatever the worker put there (lone surrogates included).
\<close>

theorem terminal_descriptor_bounded:
  assumes "limits_ok l" and "d = fit_terminal_descriptor dumps request_id descriptor payload_size l"
  shows "(d = [] \<or> terminal_descriptor_fits dumps request_id d payload_size l) \<and>
    (\<forall>k v. map_of d k = Some v \<longrightarrow>
       well_encoded (max_metadata_bytes l) v \<and> map_of descriptor k \<noteq> None)"
proof -
  let ?b = "bound_fields l descriptor"
  let ?fits = "\<lambda>d. terminal_descriptor_fits dumps request_id d payload_size l"
  have n: "0 \<le> max_metadata_bytes l" using assms(1) by (simp add: limits_ok_def)
  have d: "d = (if ?fits ?b then ?b else fit_loop ?fits fit_order ?b)"
    using assms(2) by (simp add: fit_terminal_descriptor_def Let_def)
  have "d = [] \<or> ?fits d"
    using d fit_loop_fits [of ?fits fit_order ?b] by (metis (full_types))
  moreover have "well_encoded (max_metadata_bytes l) v \<and> map_of descriptor k \<noteq> None"
    if "map_of d k = Some v" for k v
  proof (cases "?fits ?b")
    case True
    with d that n show ?thesis using bound_fields_well_encoded by auto
  next
    case False
    then have "map_of (fit_loop ?fits fit_order ?b) k = Some v" using d that by simp
    from fit_loop_well_encoded [OF wf_bound_fields _ n this] n
    have "well_encoded (max_metadata_bytes l) v \<and> map_of ?b k \<noteq> None"
      using bound_fields_well_encoded by blast
    then show ?thesis using bound_fields_well_encoded n by blast
  qed
  ultimately show ?thesis by blast
qed

theorem terminal_descriptor_bounded_witness:
  "fit_terminal_descriptor (\<lambda>_. []) [97, 58, 49] [(''message'', [120, 0xD800])] 5 default_limits =
     [(''message'', 120 # surrogate_escape 0xD800)] \<and>
   well_encoded (max_metadata_bytes default_limits) (120 # surrogate_escape 0xD800)"
proof -
  have lim: "max_metadata_bytes default_limits = 16384" "max_message_bytes default_limits = 67108864"
      "max_frame_payload_bytes default_limits = 1048576" "max_chunks default_limits = 256"
      "max_control_bytes default_limits = 65536"
    by code_simp+
  have esc: "surrogate_escape 0xD800 = [92, 117, 100, 56, 48, 48]"
    by (simp add: surrogate_escape_def hex_digit_def)
  have "truncate_utf8 [120, 0xD800] 16384 = 120 # surrogate_escape 0xD800"
    unfolding esc by (simp add: truncate_utf8_def backslashreplace_def is_surrogate_def esc
        length_utf8_encode utf8_size_def)
  moreover have "terminal_descriptor_fits (\<lambda>_. []) [97, 58, 49] [(''message'', 120 # surrogate_escape 0xD800)]
      5 default_limits"
    unfolding esc
    by (simp add: terminal_descriptor_fits_def validate_message_control_def message_chunk_count_def lim
        encode_frame_control_def json_dumps_def frame_header_def dict_merge_def descriptor_json_def
        validate_json.simps validate_pairs.simps utf8_length_def is_surrogate_def utf8_size_def
        map_replicate sum_list_replicate lit_def)
  ultimately have d: "fit_terminal_descriptor (\<lambda>_. []) [97, 58, 49] [(''message'', [120, 0xD800])] 5 default_limits =
     [(''message'', 120 # surrogate_escape 0xD800)]"
    by (simp add: fit_terminal_descriptor_def bound_fields_def descriptor_fields_def lim)
  show ?thesis
    using terminal_descriptor_bounded [OF default_limits_ok d [symmetric]] d by simp
qed

end
