(* ===== verification/Broker.thy ===== *)
theory Broker
  imports Scheduler Descriptor
begin

text \<open>
  The state of \<open>DeadpoolServer\<close> (\<open>deadpool/remote/server.py\<close>) and the operations it runs under its
  lock, up to submission, dispatch, completion, cancellation and disconnection.

  Python objects that the code mutates through shared references are entries of heaps: requests,
  connections and pool futures by a number, sessions by their session id.  A heap is a function from
  references to objects together with the number (or list) of allocated references.
\<close>

subsection \<open>Data\<close>

datatype server_state = CREATED | STARTING | SRV_RUNNING | DRAINING | STOPPING | STOPPED

datatype request_state =
    ACCEPTED_QUEUED | RUNNING | SUCCEEDED | TASK_FAILED | EXECUTION_TIMED_OUT | CANCELLED
  | QUEUE_TIMED_OUT | WORKER_LOST | RESULT_ENCODING_FAILED | RESULT_TOO_LARGE

definition state_name :: "request_state \<Rightarrow> string" where
  "state_name st = (case st of
      ACCEPTED_QUEUED \<Rightarrow> ''ACCEPTED_QUEUED''
    | RUNNING \<Rightarrow> ''RUNNING''
    | SUCCEEDED \<Rightarrow> ''SUCCEEDED''
    | TASK_FAILED \<Rightarrow> ''TASK_FAILED''
    | EXECUTION_TIMED_OUT \<Rightarrow> ''EXECUTION_TIMED_OUT''
    | CANCELLED \<Rightarrow> ''CANCELLED''
    | QUEUE_TIMED_OUT \<Rightarrow> ''QUEUE_TIMED_OUT''
    | WORKER_LOST \<Rightarrow> ''WORKER_LOST''
    | RESULT_ENCODING_FAILED \<Rightarrow> ''RESULT_ENCODING_FAILED''
    | RESULT_TOO_LARGE \<Rightarrow> ''RESULT_TOO_LARGE'')"

definition terminal :: "request_state \<Rightarrow> bool" where
  "terminal st \<longleftrightarrow> st \<in> {SUCCEEDED, TASK_FAILED, EXECUTION_TIMED_OUT, CANCELLED, QUEUE_TIMED_OUT,
     WORKER_LOST, RESULT_ENCODING_FAILED, RESULT_TOO_LARGE}"

record request =
  rq_request_id :: pystr
  rq_digest :: pystr
  rq_principal :: pystr
  rq_session_id :: pystr
  rq_connection :: nat
  rq_mode :: pystr
  rq_operation :: json
  rq_payload :: bytes
  rq_priority :: int
  rq_execution_timeout :: "rat option"
  rq_queue_deadline :: "rat option"
  rq_group_id :: json
  rq_max_result_bytes :: int
  rq_reserved_result_bytes :: int
  rq_state :: request_state
  rq_local_future :: "nat option"
  rq_terminal_kind :: "message_type option"
  rq_terminal_payload :: bytes
  rq_terminal_control :: control
  rq_reservation_released :: bool

record session =
  ss_client_id :: pystr
  ss_principal :: pystr
  ss_connection :: nat
  ss_max_result_bytes :: int
  ss_watermark :: int
  ss_reserved_outcomes :: int
  ss_reserved_outcome_bytes :: int
  ss_requests :: "(pystr, nat) dict"

text \<open>
  The outbound queue of a connection: messages, writer barriers and the stop marker, in the order of
  their sequence numbers (all have priority 0, so the \<open>PriorityQueue\<close> is FIFO).  \<open>cn_wire\<close> is what the
  writer thread has handed to the socket, \<open>cn_phase\<close> where the connection's own thread is.
\<close>

datatype outbound = O_message message | O_barrier | O_stop

datatype conn_phase = C_hello | C_open | C_done

datatype transport = UNIX | TCP

record connection =
  cn_transport :: transport
  cn_session :: "pystr option"
  cn_closed :: bool
  cn_clean_close :: bool
  cn_outbound :: "outbound list"
  cn_writer_alive :: bool
  cn_wire :: "message list"
  cn_phase :: conn_phase

text \<open>
  What a pool future ends with: a \<open>WorkerOutcome\<close>, an exception (with the classes \<open>_complete_local\<close>
  tells apart), or any other object.
\<close>

datatype outcome_kind = OK_result | OK_task_error | OK_result_encoding_failed | OK_result_too_large

datatype outcome =
    Worker_outcome outcome_kind bytes "(string, pystr) dict"
  | Raised_timeout pystr
  | Raised_process_or_pickling pystr
  | Raised_other pystr
  | Invalid_outcome

datatype future_state = F_pending | F_cancelled | F_finished outcome

text \<open>
  Where a \<open>_PoolFuture\<close> is: held by the dispatch loop, in the pool without a done callback, in the
  pool with it, or dropped because the pool refused it.
\<close>

datatype future_phase = P_staged | P_in_pool | P_attached | P_dropped

record pool_future =
  pf_request :: nat
  pf_state :: future_state
  pf_phase :: future_phase
  pf_pid :: "int option"

record statistics =
  st_received :: int
  st_accepted :: int
  st_rejected :: int
  st_running :: int
  st_terminal :: int
  st_connections :: int

text \<open>The program counter of the dispatch loop: between two of its lock regions it holds a future.\<close>

datatype dispatch_phase = D_idle | D_submitting nat | D_attaching nat

text \<open>The program counter of \<open>_finish_shutdown\<close>: not started, waiting, closing connections, finished.\<close>

datatype shutdown_phase = S_none | S_waiting | S_closing | S_done

record broker =
  br_state :: server_state
  br_conn :: "nat \<Rightarrow> connection"
  br_nconn :: nat
  br_connections :: "nat list"
  br_raw_sockets :: "nat list"
  br_sess :: "pystr \<Rightarrow> session"
  br_session_ids :: "pystr list"
  br_sessions :: "pystr list"
  br_client_sessions :: "(pystr, pystr) dict"
  br_req :: "nat \<Rightarrow> request"
  br_nreq :: nat
  br_requests :: "(pystr, nat) dict"
  br_reserved_outcomes :: int
  br_reserved_outcome_bytes :: int
  br_scheduler :: "nat fair_scheduler"
  br_staged :: int
  br_fut :: "nat \<Rightarrow> pool_future"
  br_nfut :: nat
  br_dispatch :: dispatch_phase
  br_statistics :: statistics
  br_killed :: "int list"
  br_ready :: bool
  br_shutdown_phase :: shutdown_phase
  br_shutdown_cancel_futures :: bool
  br_shutdown_deadline_at :: "rat option"

datatype disconnect_policy = CANCEL_QUEUED | CONTINUE | TERMINATE

text \<open>
  What a server is constructed with, and the functions of the environment it calls: \<open>sv_sha256\<close> and
  \<open>sv_dumps\<close> as in theory \<open>Protocol\<close>, \<open>sv_int\<close> is Python's \<open>int(text)\<close> (\<open>None\<close> for \<open>ValueError\<close>),
  \<open>sv_authorizer\<close> and \<open>sv_authenticator\<close> the application's callbacks, \<open>sv_uid\<close> is \<open>os.getuid()\<close>.
\<close>

record server_config =
  sv_limits :: remote_limits
  sv_task_registry :: "pystr list"
  sv_disconnect_policy :: disconnect_policy
  sv_uid :: int
  sv_authorizer :: "(pystr \<Rightarrow> pystr \<Rightarrow> control \<Rightarrow> bool result) option"
  sv_authenticator :: "(peer_info \<Rightarrow> control \<Rightarrow> principal result) option"
  sv_serializer_name :: pystr
  sv_serializer_protocol :: json
  sv_python :: "int \<times> int"
  sv_registry_fingerprint :: "pystr option"
  sv_application_fingerprint :: "pystr option"
  sv_server_id :: pystr
  sv_epoch :: pystr
  sv_sha256 :: "bytes \<Rightarrow> pystr"
  sv_dumps :: "control \<Rightarrow> bytes"
  sv_int :: "pystr \<Rightarrow> int option"

subsection \<open>Heap updates\<close>

definition upd_req :: "nat \<Rightarrow> (request \<Rightarrow> request) \<Rightarrow> broker \<Rightarrow> broker" where
  "upd_req r f b = b\<lparr>br_req := (br_req b)(r := f (br_req b r))\<rparr>"

definition upd_sess :: "pystr \<Rightarrow> (session \<Rightarrow> session) \<Rightarrow> broker \<Rightarrow> broker" where
  "upd_sess s f b = b\<lparr>br_sess := (br_sess b)(s := f (br_sess b s))\<rparr>"

definition upd_conn :: "nat \<Rightarrow> (connection \<Rightarrow> connection) \<Rightarrow> broker \<Rightarrow> broker" where
  "upd_conn c f b = b\<lparr>br_conn := (br_conn b)(c := f (br_conn b c))\<rparr>"

definition upd_fut :: "nat \<Rightarrow> (pool_future \<Rightarrow> pool_future) \<Rightarrow> broker \<Rightarrow> broker" where
  "upd_fut f g b = b\<lparr>br_fut := (br_fut b)(f := g (br_fut b f))\<rparr>"

definition upd_stats :: "(statistics \<Rightarrow> statistics) \<Rightarrow> broker \<Rightarrow> broker" where
  "upd_stats f b = b\<lparr>br_statistics := f (br_statistics b)\<rparr>"

subsection \<open>Connections\<close>

definition put_outbound :: "server_config \<Rightarrow> outbound \<Rightarrow> connection \<Rightarrow> connection option" where
  "put_outbound cfg item c =
     (if int (length (cn_outbound c)) \<ge> outbound_queue_size (sv_limits cfg) then None
      else Some (c\<lparr>cn_outbound := cn_outbound c @ [item]\<rparr>))"

definition connection_close :: "server_config \<Rightarrow> connection \<Rightarrow> connection" where
  "connection_close cfg c =
     (if cn_closed c then c
      else let c' = c\<lparr>cn_closed := True\<rparr>
           in case put_outbound cfg O_stop c' of None \<Rightarrow> c' | Some c'' \<Rightarrow> c'')"

definition connection_put :: "server_config \<Rightarrow> outbound \<Rightarrow> connection \<Rightarrow> connection" where
  "connection_put cfg item c =
     (if cn_closed c then c
      else case put_outbound cfg item c of
        None \<Rightarrow> connection_close cfg c
      | Some c' \<Rightarrow> c')"

definition conn_send :: "server_config \<Rightarrow> nat \<Rightarrow> message_type \<Rightarrow> control \<Rightarrow> bytes \<Rightarrow> broker \<Rightarrow> broker" where
  "conn_send cfg c kind control payload =
     upd_conn c (connection_put cfg
       (O_message \<lparr>msg_kind = kind, msg_control = control, msg_payload = payload\<rparr>))"

definition conn_flush :: "server_config \<Rightarrow> nat \<Rightarrow> broker \<Rightarrow> broker" where
  "conn_flush cfg c = upd_conn c (connection_put cfg O_barrier)"

definition conn_close :: "server_config \<Rightarrow> nat \<Rightarrow> broker \<Rightarrow> broker" where
  "conn_close cfg c = upd_conn c (connection_close cfg)"

text \<open>
  One iteration of \<open>_writer_loop\<close>; \<open>sent\<close> says whether \<open>send_message\<close> returned or raised one of the
  exceptions the loop catches.
\<close>

definition writer_step :: "server_config \<Rightarrow> bool \<Rightarrow> connection \<Rightarrow> connection" where
  "writer_step cfg sent c =
     (if \<not> cn_writer_alive c then c
      else case cn_outbound c of
        [] \<Rightarrow> c
      | O_stop # rest \<Rightarrow> c\<lparr>cn_outbound := rest, cn_writer_alive := False\<rparr>
      | O_barrier # rest \<Rightarrow> c\<lparr>cn_outbound := rest\<rparr>
      | O_message m # rest \<Rightarrow>
          if sent then c\<lparr>cn_outbound := rest, cn_wire := cn_wire c @ [m]\<rparr>
          else (connection_close cfg (c\<lparr>cn_outbound := rest\<rparr>))\<lparr>cn_writer_alive := False\<rparr>)"

subsection \<open>Terminal transitions and reservations\<close>

definition unqueue :: "nat \<Rightarrow> broker \<Rightarrow> broker" where
  "unqueue r b =
     b\<lparr>br_scheduler := (case sched_remove r (br_scheduler b) of Inl _ \<Rightarrow> br_scheduler b | Inr (_, s) \<Rightarrow> s)\<rparr>"

definition terminal_locked ::
    "server_config \<Rightarrow> nat \<Rightarrow> request_state \<Rightarrow> message_type \<Rightarrow> control \<Rightarrow> bytes \<Rightarrow> broker \<Rightarrow> broker" where
  "terminal_locked cfg r st kind control payload b =
     (if terminal (rq_state (br_req b r)) then b
      else conn_send cfg (rq_connection (br_req b r)) kind
             (dict_merge [(J ''request_id'', JStr (rq_request_id (br_req b r)))] control) payload
             (upd_stats (\<lambda>s. s\<lparr>st_terminal := st_terminal s + 1\<rparr>)
               (upd_req r (\<lambda>q. q\<lparr>rq_state := st, rq_payload := [], rq_terminal_kind := Some kind,
                                 rq_terminal_control := control, rq_terminal_payload := payload\<rparr>) b)))"

definition release_reservation_locked :: "pystr \<Rightarrow> nat \<Rightarrow> broker \<Rightarrow> broker" where
  "release_reservation_locked s r b =
     (if rq_reservation_released (br_req b r) then b
      else let n = rq_reserved_result_bytes (br_req b r);
               b' = upd_sess s (\<lambda>ss. ss\<lparr>ss_reserved_outcomes := ss_reserved_outcomes ss - 1,
                                        ss_reserved_outcome_bytes := ss_reserved_outcome_bytes ss - n\<rparr>)
                      (upd_req r (\<lambda>q. q\<lparr>rq_reservation_released := True\<rparr>) b)
           in b'\<lparr>br_reserved_outcomes := br_reserved_outcomes b' - 1,
                 br_reserved_outcome_bytes := br_reserved_outcome_bytes b' - n\<rparr>)"

definition remove_request_locked :: "nat \<Rightarrow> broker \<Rightarrow> broker" where
  "remove_request_locked r b =
     (let s = rq_session_id (br_req b r); i = rq_request_id (br_req b r) in
      if s \<notin> set (br_sessions b) then b
      else let b1 = release_reservation_locked s r b;
               b2 = upd_req r (\<lambda>q. q\<lparr>rq_payload := [], rq_terminal_payload := []\<rparr>) b1;
               b3 = upd_sess s (\<lambda>ss. ss\<lparr>ss_requests := AList.delete i (ss_requests ss)\<rparr>) b2
           in b3\<lparr>br_requests := AList.delete i (br_requests b3)\<rparr>)"

definition purge_record :: "nat \<Rightarrow> broker \<Rightarrow> broker" where
  "purge_record r b = (if terminal (rq_state (br_req b r)) then remove_request_locked r b else b)"

definition purge_session_locked :: "pystr \<Rightarrow> broker \<Rightarrow> broker" where
  "purge_session_locked s b =
     (let b' = fold purge_record (map snd (ss_requests (br_sess b s))) b in
      if ss_requests (br_sess b' s) \<noteq> [] then b'
      else b'\<lparr>br_sessions := remove1 s (br_sessions b'),
              br_client_sessions :=
                (if map_of (br_client_sessions b') (ss_client_id (br_sess b' s)) = Some s
                 then AList.delete (ss_client_id (br_sess b' s)) (br_client_sessions b')
                 else br_client_sessions b')\<rparr>)"

subsection \<open>Completion of pool futures\<close>

fun worker_mapping :: "outcome_kind \<Rightarrow> request_state \<times> message_type" where
  "worker_mapping OK_result = (SUCCEEDED, M_RESULT)"
| "worker_mapping OK_task_error = (TASK_FAILED, M_TASK_ERROR)"
| "worker_mapping OK_result_encoding_failed = (RESULT_ENCODING_FAILED, M_RESULT_ENCODING_FAILED)"
| "worker_mapping OK_result_too_large = (RESULT_TOO_LARGE, M_RESULT_TOO_LARGE)"

definition outcome_terminal ::
    "server_config \<Rightarrow> pystr \<Rightarrow> outcome \<Rightarrow> request_state \<times> message_type \<times> control \<times> bytes" where
  "outcome_terminal cfg request_id out =
     (case out of
        Worker_outcome k payload descriptor \<Rightarrow>
          (fst (worker_mapping k), snd (worker_mapping k),
           descriptor_json (fit_terminal_descriptor (sv_dumps cfg) request_id descriptor
             (int (length payload)) (sv_limits cfg)), payload)
      | Raised_timeout msg \<Rightarrow> (EXECUTION_TIMED_OUT, M_TIMED_OUT, ctl [(''message'', JStr msg)], [])
      | Raised_process_or_pickling msg \<Rightarrow> (WORKER_LOST, M_WORKER_LOST, ctl [(''message'', JStr msg)], [])
      | Raised_other msg \<Rightarrow> (WORKER_LOST, M_WORKER_LOST, ctl [(''message'', JStr msg)], [])
      | Invalid_outcome \<Rightarrow>
          (WORKER_LOST, M_WORKER_LOST, ctl [(''message'', J ''invalid worker outcome'')], []))"

text \<open>The common end of both paths of \<open>_complete_local\<close>.\<close>

definition unstage :: "nat \<Rightarrow> broker \<Rightarrow> broker" where
  "unstage r b =
     (let b' = (if br_staged b \<noteq> 0 then b\<lparr>br_staged := br_staged b - 1\<rparr> else b);
          s = rq_session_id (br_req b r)
      in if cn_closed (br_conn b' (rq_connection (br_req b' r))) \<and> s \<in> set (br_sessions b')
         then purge_session_locked s b' else b')"

definition complete_local :: "server_config \<Rightarrow> nat \<Rightarrow> outcome \<Rightarrow> broker \<Rightarrow> broker" where
  "complete_local cfg r out b =
     (if terminal (rq_state (br_req b r)) then unstage r b
      else case outcome_terminal cfg (rq_request_id (br_req b r)) out of
        (st, kind, control, payload) \<Rightarrow> unstage r (terminal_locked cfg r st kind control payload b))"

text \<open>
  \<open>_pool_done\<close>: a cancelled future raises \<open>CancelledError\<close> from \<open>result()\<close>.
\<close>

definition pool_done :: "server_config \<Rightarrow> nat \<Rightarrow> broker \<Rightarrow> broker" where
  "pool_done cfg f b =
     (case pf_state (br_fut b f) of
        F_finished out \<Rightarrow> complete_local cfg (pf_request (br_fut b f)) out b
      | F_cancelled \<Rightarrow> complete_local cfg (pf_request (br_fut b f)) (Raised_other (lit ''CancelledError()'')) b
      | F_pending \<Rightarrow> b)"

text \<open>
  \<open>Future.cancel()\<close>: only a pending future changes, and an attached done callback runs at once, in
  the calling thread, which holds the broker's reentrant lock.
\<close>

definition future_cancel :: "server_config \<Rightarrow> nat \<Rightarrow> broker \<Rightarrow> broker" where
  "future_cancel cfg f b =
     (if pf_state (br_fut b f) \<noteq> F_pending then b
      else let b' = upd_fut f (\<lambda>p. p\<lparr>pf_state := F_cancelled\<rparr>) b
           in if pf_phase (br_fut b f) = P_attached then pool_done cfg f b' else b')"

definition cancel_local_future :: "server_config \<Rightarrow> nat \<Rightarrow> broker \<Rightarrow> broker" where
  "cancel_local_future cfg r b =
     (case rq_local_future (br_req b r) of None \<Rightarrow> b | Some f \<Rightarrow> future_cancel cfg f b)"

text \<open>\<open>cancel_and_kill_if_running\<close>: the killed process ids are recorded in \<open>br_killed\<close>.\<close>

definition kill_local_future :: "server_config \<Rightarrow> nat \<Rightarrow> broker \<Rightarrow> broker" where
  "kill_local_future cfg r b =
     (case rq_local_future (br_req b r) of
        None \<Rightarrow> b
      | Some f \<Rightarrow>
          let b' = future_cancel cfg f b
          in case pf_pid (br_fut b' f) of
               None \<Rightarrow> b'
             | Some pid \<Rightarrow> if pid = 0 then b' else b'\<lparr>br_killed := br_killed b' @ [pid]\<rparr>)"

text \<open>The three statements with which every canceller ends a queued request.\<close>

definition cancel_queued ::
    "server_config \<Rightarrow> nat \<Rightarrow> request_state \<Rightarrow> message_type \<Rightarrow> string \<Rightarrow> broker \<Rightarrow> broker" where
  "cancel_queued cfg r st kind reason b =
     cancel_local_future cfg r
       (terminal_locked cfg r st kind (ctl [(''reason'', J reason)]) [] (unqueue r b))"

definition cancel_running :: "server_config \<Rightarrow> nat \<Rightarrow> string \<Rightarrow> broker \<Rightarrow> broker" where
  "cancel_running cfg r reason b =
     kill_local_future cfg r
       (terminal_locked cfg r CANCELLED M_CANCELLED (ctl [(''reason'', J reason)]) [] b)"

subsection \<open>Numbers\<close>

text \<open>
  \<open>float(i)\<close> for \<open>0 \<le> i < 2 ^ 63\<close>, the integers a control object can hold: the nearest number with
  a 53-bit significand, ties to even.
\<close>

definition float_of_int :: "int \<Rightarrow> int" where
  "float_of_int i =
     (case find (\<lambda>k. i < 2 ^ (53 + k)) [0 ..< 11] of
        None \<Rightarrow> i
      | Some k \<Rightarrow>
          let q = i div 2 ^ k; rest = i mod 2 ^ k; half = 2 ^ k div 2
          in if k > 0 \<and> (rest > half \<or> rest = half \<and> odd q) then (q + 1) * 2 ^ k else q * 2 ^ k)"

definition finite_nonnegative :: "json \<Rightarrow> string \<Rightarrow> rat result" where
  "finite_nonnegative v msg =
     (case v of
        JInt i \<Rightarrow> if i < 0 then Inl (RemoteProtocolError msg) else Inr (of_int (float_of_int i))
      | JFloat (Finite r) \<Rightarrow> if r < 0 then Inl (RemoteProtocolError msg) else Inr r
      | _ \<Rightarrow> Inl (RemoteProtocolError msg))"

definition optional_finite_nonnegative :: "json \<Rightarrow> string \<Rightarrow> rat option result" where
  "optional_finite_nonnegative v msg =
     (if v = JNull then Inr None
      else case finite_nonnegative v msg of Inl e \<Rightarrow> Inl e | Inr x \<Rightarrow> Inr (Some x))"

subsection \<open>Ownership, authorization and replies\<close>

definition owned_request :: "nat \<Rightarrow> json \<Rightarrow> broker \<Rightarrow> nat option" where
  "owned_request c request_id b =
     (case (cn_session (br_conn b c), json_str request_id) of
        (Some s, Some i) \<Rightarrow> map_of (ss_requests (br_sess b s)) i
      | _ \<Rightarrow> None)"

definition authorized :: "server_config \<Rightarrow> nat \<Rightarrow> pystr \<Rightarrow> control \<Rightarrow> broker \<Rightarrow> bool result" where
  "authorized cfg c operation metadata b =
     (case cn_session (br_conn b c) of
        None \<Rightarrow> Inr False
      | Some s \<Rightarrow>
          (case sv_authorizer cfg of
             None \<Rightarrow> Inr (cn_transport (br_conn b c) = UNIX \<and>
                          ss_principal (br_sess b s) = lit ''uid:'' @ int_digits (sv_uid cfg))
           | Some f \<Rightarrow> f (ss_principal (br_sess b s)) operation metadata))"

definition reject :: "server_config \<Rightarrow> nat \<Rightarrow> pystr \<Rightarrow> string \<Rightarrow> broker \<Rightarrow> broker" where
  "reject cfg c request_id reason b =
     conn_send cfg c M_REJECTED (ctl [(''request_id'', JStr request_id), (''reason'', J reason)]) []
       (upd_stats (\<lambda>s. s\<lparr>st_rejected := st_rejected s + 1\<rparr>) b)"

definition accepted_control :: "request \<Rightarrow> control" where
  "accepted_control q =
     ctl [(''request_id'', JStr (rq_request_id q)), (''state'', J (state_name (rq_state q)))]"

definition send_record :: "server_config \<Rightarrow> nat \<Rightarrow> broker \<Rightarrow> broker" where
  "send_record cfg r b =
     (let q = br_req b r in
      case rq_state q of
        ACCEPTED_QUEUED \<Rightarrow> conn_send cfg (rq_connection q) M_ACCEPTED (accepted_control q) [] b
      | RUNNING \<Rightarrow>
          conn_send cfg (rq_connection q) M_RUNNING
            (ctl [(''request_id'', JStr (rq_request_id q)),
                  (''pid'', (case rq_local_future q of
                               None \<Rightarrow> JNull
                             | Some f \<Rightarrow> (case pf_pid (br_fut b f) of None \<Rightarrow> JNull | Some p \<Rightarrow> JInt p))),
                  (''worker_id'', JNull)]) [] b
      | _ \<Rightarrow>
          (case rq_terminal_kind q of
             None \<Rightarrow> b
           | Some kind \<Rightarrow>
               conn_send cfg (rq_connection q) kind
                 (dict_merge [(J ''request_id'', JStr (rq_request_id q))] (rq_terminal_control q))
                 (rq_terminal_payload q) b))"

subsection \<open>Submission\<close>

definition request_sequence :: "server_config \<Rightarrow> pystr \<Rightarrow> int option" where
  "request_sequence cfg request_id = sv_int cfg (rev (takeWhile (\<lambda>ch. ch \<noteq> 58) (rev request_id)))"

text \<open>A \<open>list\<close> or \<open>dict\<close> cannot be looked up in a \<open>set\<close> or \<open>dict\<close>: that raises \<open>TypeError\<close>.\<close>

fun hashable :: "json \<Rightarrow> bool" where
  "hashable (JList _) = False"
| "hashable (JDict _) = False"
| "hashable _ = True"

definition queue_full :: "server_config \<Rightarrow> pystr \<Rightarrow> broker \<Rightarrow> bool" where
  "queue_full cfg s b =
     (let l = sv_limits cfg; ss = br_sess b s;
          principal_records = length (filter (\<lambda>(_, r). rq_principal (br_req b r) = ss_principal ss) (br_requests b))
      in int (length (ss_requests ss)) \<ge> max_pending_per_session l \<or>
         int principal_records \<ge> max_pending_per_principal l \<or>
         int (length (br_requests b)) \<ge> max_pending_global l \<or>
         ss_reserved_outcomes ss \<ge> max_retained_outcomes_per_session l \<or>
         br_reserved_outcomes b \<ge> max_retained_outcomes_global l \<or>
         ss_reserved_outcome_bytes ss + ss_max_result_bytes ss > max_retained_outcome_bytes_per_session l \<or>
         br_reserved_outcome_bytes b + ss_max_result_bytes ss > max_retained_outcome_bytes_global l)"

text \<open>The registration of an accepted request, from the construction of its record on.\<close>

definition accept_request ::
    "server_config \<Rightarrow> pystr \<Rightarrow> request \<Rightarrow> broker \<Rightarrow> broker" where
  "accept_request cfg s q b =
     (let r = br_nreq b;
          b1 = b\<lparr>br_req := (br_req b)(r := q), br_nreq := Suc r\<rparr>;
          b2 = upd_sess s (\<lambda>ss. ss\<lparr>ss_requests := AList.update (rq_request_id q) r (ss_requests ss),
                                   ss_reserved_outcomes := ss_reserved_outcomes ss + 1,
                                   ss_reserved_outcome_bytes := ss_reserved_outcome_bytes ss + rq_reserved_result_bytes q\<rparr>) b1;
          b3 = b2\<lparr>br_requests := AList.update (rq_request_id q) r (br_requests b2),
                   br_reserved_outcomes := br_reserved_outcomes b2 + 1,
                   br_reserved_outcome_bytes := br_reserved_outcome_bytes b2 + rq_reserved_result_bytes q,
                   br_scheduler := sched_put r (rq_priority q) (rq_principal q) (br_scheduler b2)\<rparr>
      in conn_send cfg (rq_connection q) M_ACCEPTED (accepted_control q) []
           (upd_stats (\<lambda>st. st\<lparr>st_accepted := st_accepted st + 1\<rparr>) b3))"

text \<open>The three numeric options of a submission, validated in the order of the code.\<close>

definition submit_numbers :: "control \<Rightarrow> (rat \<times> rat option \<times> rat option) result" where
  "submit_numbers control =
     (case finite_nonnegative (if jhas control ''priority'' then jget control ''priority'' else JInt 0)
             ''priority must be finite and non-negative'' of
        Inl e \<Rightarrow> Inl e
      | Inr prio \<Rightarrow>
        (case optional_finite_nonnegative (jget control ''execution_timeout'')
                ''execution_timeout must be finite and non-negative'' of
           Inl e \<Rightarrow> Inl e
         | Inr et \<Rightarrow>
           (case optional_finite_nonnegative (jget control ''queue_timeout'')
                   ''queue_timeout must be finite and non-negative'' of
              Inl e \<Rightarrow> Inl e
            | Inr qt \<Rightarrow> Inr (prio, et, qt))))"

definition submit_mode ::
    "server_config \<Rightarrow> control \<Rightarrow> (string + pystr \<times> pystr) result" where
  "submit_mode cfg control =
     (let mode = jget control ''mode''; operation = jget control ''operation'' in
      if \<not> hashable mode then Inl (TypeError ''unhashable type'')
      else if mode = J ''callable'' then Inr (Inr (lit ''callable'', lit ''submit_callable''))
      else if mode \<noteq> J ''registered'' then Inr (Inl ''invalid_mode'')
      else if \<not> hashable operation then Inl (TypeError ''unhashable type'')
      else case json_str operation of
        None \<Rightarrow> Inr (Inl ''unknown_operation'')
      | Some name \<Rightarrow>
          if name \<in> set (sv_task_registry cfg)
          then Inr (Inr (lit ''registered'', lit ''submit_task:'' @ name))
          else Inr (Inl ''unknown_operation''))"

definition new_request ::
    "pystr \<Rightarrow> pystr \<Rightarrow> session \<Rightarrow> pystr \<Rightarrow> nat \<Rightarrow> pystr \<Rightarrow> control \<Rightarrow> bytes \<Rightarrow> rat \<Rightarrow> rat \<times> rat option \<times> rat option
       \<Rightarrow> request" where
  "new_request request_id digest ss s c mode control payload now nums =
     \<lparr>rq_request_id = request_id, rq_digest = digest, rq_principal = ss_principal ss, rq_session_id = s,
      rq_connection = c, rq_mode = mode, rq_operation = jget control ''operation'', rq_payload = payload,
      rq_priority = \<lfloor>fst nums\<rfloor>, rq_execution_timeout = fst (snd nums),
      rq_queue_deadline = map_option (\<lambda>t. now + t) (snd (snd nums)),
      rq_group_id = jget control ''group_id'', rq_max_result_bytes = ss_max_result_bytes ss,
      rq_reserved_result_bytes = ss_max_result_bytes ss, rq_state = ACCEPTED_QUEUED,
      rq_local_future = None, rq_terminal_kind = None, rq_terminal_payload = [],
      rq_terminal_control = [], rq_reservation_released = False\<rparr>"

text \<open>The admission decision of \<open>_submit\<close> for a new sequence number, after the watermark has moved.\<close>

definition submit_new ::
    "server_config \<Rightarrow> nat \<Rightarrow> pystr \<Rightarrow> pystr \<Rightarrow> pystr \<Rightarrow> message \<Rightarrow> rat \<Rightarrow> broker \<Rightarrow> broker \<times> unit result" where
  "submit_new cfg c s request_id digest m now b =
     (if br_state b \<noteq> SRV_RUNNING then (reject cfg c request_id ''server_draining'' b, Inr ())
      else if queue_full cfg s b then (reject cfg c request_id ''queue_full'' b, Inr ())
      else if int (length (msg_payload m)) > max_invocation_bytes (sv_limits cfg)
      then (reject cfg c request_id ''invocation_too_large'' b, Inr ())
      else case submit_mode cfg (msg_control m) of
        Inl e \<Rightarrow> (b, Inl e)
      | Inr (Inl reason) \<Rightarrow> (reject cfg c request_id reason b, Inr ())
      | Inr (Inr (mode, action)) \<Rightarrow>
        (case authorized cfg c action (msg_control m) b of
           Inl e \<Rightarrow> (b, Inl e)
         | Inr False \<Rightarrow> (reject cfg c request_id ''unauthorized'' b, Inr ())
         | Inr True \<Rightarrow>
           (case submit_numbers (msg_control m) of
              Inl e \<Rightarrow> (b, Inl e)
            | Inr nums \<Rightarrow>
                (accept_request cfg s
                   (new_request request_id digest (br_sess b s) s c mode (msg_control m) (msg_payload m) now nums) b,
                 Inr ()))))"

definition submit_locked ::
    "server_config \<Rightarrow> nat \<Rightarrow> pystr \<Rightarrow> pystr \<Rightarrow> int \<Rightarrow> pystr \<Rightarrow> message \<Rightarrow> rat \<Rightarrow> broker \<Rightarrow> broker \<times> unit result" where
  "submit_locked cfg c s request_id sequence digest m now b =
     (case map_of (ss_requests (br_sess b s)) request_id of
        Some r \<Rightarrow>
          if rq_digest (br_req b r) \<noteq> digest
          then (b, Inl (RemoteProtocolError ''request ID reused with different payload''))
          else (send_record cfg r b, Inr ())
      | None \<Rightarrow>
          if sequence \<le> ss_watermark (br_sess b s)
          then (reject cfg c request_id ''stale_request'' b, Inr ())
          else submit_new cfg c s request_id digest m now
                 (upd_sess s (\<lambda>ss. ss\<lparr>ss_watermark := sequence\<rparr>) b))"

definition submit :: "server_config \<Rightarrow> nat \<Rightarrow> message \<Rightarrow> rat \<Rightarrow> broker \<Rightarrow> broker \<times> unit result" where
  "submit cfg c m now b =
     (case cn_session (br_conn b c) of
        None \<Rightarrow> (b, Inl (RemoteProtocolError ''submission before handshake''))
      | Some s \<Rightarrow>
        (let b1 = upd_stats (\<lambda>st. st\<lparr>st_received := st_received st + 1\<rparr>) b in
         case json_str (jget (msg_control m) ''request_id'') of
           None \<Rightarrow> (b1, Inl (RemoteProtocolError ''request ID does not belong to the client instance''))
         | Some request_id \<Rightarrow>
             if take (length (ss_client_id (br_sess b s) @ [58])) request_id \<noteq> ss_client_id (br_sess b s) @ [58]
             then (b1, Inl (RemoteProtocolError ''request ID does not belong to the client instance''))
             else (case request_sequence cfg request_id of
                     None \<Rightarrow> (b1, Inl (RemoteProtocolError ''invalid request sequence''))
                   | Some sequence \<Rightarrow>
                       let digest = sv_sha256 cfg (msg_payload m)
                       in if jget (msg_control m) ''digest'' \<noteq> JStr digest
                          then (b1, Inl (RemoteProtocolError ''invocation digest mismatch''))
                          else submit_locked cfg c s request_id sequence digest m now b1)))"

subsection \<open>Dispatch\<close>

definition expire_record :: "server_config \<Rightarrow> rat \<Rightarrow> nat \<Rightarrow> broker \<Rightarrow> broker" where
  "expire_record cfg now r b =
     (if rq_state (br_req b r) = ACCEPTED_QUEUED \<and>
         (case rq_queue_deadline (br_req b r) of None \<Rightarrow> False | Some d \<Rightarrow> now \<ge> d)
      then cancel_queued cfg r QUEUE_TIMED_OUT M_QUEUE_TIMED_OUT ''queue_timeout'' b
      else b)"

definition expire_queued_locked :: "server_config \<Rightarrow> rat \<Rightarrow> broker \<Rightarrow> broker" where
  "expire_queued_locked cfg now b = fold (expire_record cfg now) (map snd (br_requests b)) b"

text \<open>
  One pass of \<open>_dispatch_loop\<close> through its first lock region: expire, and if the lane is open take the
  next record and stage it with a fresh future.
\<close>

definition dispatch_next :: "server_config \<Rightarrow> rat \<Rightarrow> broker \<Rightarrow> broker" where
  "dispatch_next cfg now b0 =
     (if br_dispatch b0 \<noteq> D_idle then b0
      else let b = expire_queued_locked cfg now b0 in
           if br_state b \<notin> {SRV_RUNNING, DRAINING} \<or> \<not> sched_bool (br_scheduler b) \<or>
              br_staged b \<ge> max_staged_tasks (sv_limits cfg)
           then b
           else case sched_pop (br_scheduler b) of
             Inl _ \<Rightarrow> b
           | Inr (r, s) \<Rightarrow>
               let b1 = b\<lparr>br_scheduler := s\<rparr> in
               if rq_state (br_req b1 r) \<noteq> ACCEPTED_QUEUED then b1
               else let f = br_nfut b1;
                        b2 = b1\<lparr>br_fut := (br_fut b1)(f := \<lparr>pf_request = r, pf_state = F_pending,
                                                             pf_phase = P_staged, pf_pid = None\<rparr>),
                                br_nfut := Suc f\<rparr>
                    in (upd_req r (\<lambda>q. q\<lparr>rq_local_future := Some f\<rparr>) b2)
                         \<lparr>br_staged := br_staged b2 + 1, br_dispatch := D_submitting f\<rparr>)"

text \<open>
  The three ways \<open>_submit_future\<close> of the pool can answer: the job is queued, the queue is full, or
  another exception.
\<close>

datatype pool_answer = Pool_ok | Pool_full | Pool_raised outcome

definition dispatch_submit :: "server_config \<Rightarrow> pool_answer \<Rightarrow> broker \<Rightarrow> broker" where
  "dispatch_submit cfg answer b =
     (case br_dispatch b of
        D_submitting f \<Rightarrow>
          (let r = pf_request (br_fut b f) in
           case answer of
             Pool_ok \<Rightarrow> (upd_fut f (\<lambda>p. p\<lparr>pf_phase := P_in_pool\<rparr>) b)\<lparr>br_dispatch := D_attaching f\<rparr>
           | Pool_full \<Rightarrow>
               let b1 = (upd_fut f (\<lambda>p. p\<lparr>pf_phase := P_dropped\<rparr>)
                           (upd_req r (\<lambda>q. q\<lparr>rq_local_future := None\<rparr>) b))
                          \<lparr>br_staged := br_staged b - 1, br_dispatch := D_idle\<rparr>
               in if rq_state (br_req b1 r) = ACCEPTED_QUEUED
                  then b1\<lparr>br_scheduler := sched_put_front r (rq_priority (br_req b1 r))
                                            (rq_principal (br_req b1 r)) (br_scheduler b1)\<rparr>
                  else b1
           | Pool_raised out \<Rightarrow>
               complete_local cfg r out
                 ((upd_fut f (\<lambda>p. p\<lparr>pf_phase := P_dropped\<rparr>) b)\<lparr>br_dispatch := D_idle\<rparr>))
      | _ \<Rightarrow> b)"

definition dispatch_attach :: "server_config \<Rightarrow> broker \<Rightarrow> broker" where
  "dispatch_attach cfg b =
     (case br_dispatch b of
        D_attaching f \<Rightarrow>
          (let b1 = (upd_fut f (\<lambda>p. p\<lparr>pf_phase := P_attached\<rparr>)
                       (upd_req (pf_request (br_fut b f)) (\<lambda>q. q\<lparr>rq_payload := []\<rparr>) b))
                      \<lparr>br_dispatch := D_idle\<rparr>
           in if pf_state (br_fut b f) = F_pending then b1 else pool_done cfg f b1)
      | _ \<Rightarrow> b)"

subsection \<open>The pool's callbacks\<close>

definition publish_running :: "server_config \<Rightarrow> nat \<Rightarrow> int \<Rightarrow> broker \<Rightarrow> broker" where
  "publish_running cfg r pid b =
     (let b1 = (case rq_local_future (br_req b r) of
                  None \<Rightarrow> b
                | Some f \<Rightarrow> upd_fut f (\<lambda>p. p\<lparr>pf_pid := Some pid\<rparr>) b)
      in conn_send cfg (rq_connection (br_req b r)) M_RUNNING
           (ctl [(''request_id'', JStr (rq_request_id (br_req b r))), (''pid'', JInt pid),
                 (''worker_id'', JStr (lit ''worker:'' @ int_digits pid))]) [] b1)"

definition claim_dispatch :: "server_config \<Rightarrow> nat \<Rightarrow> int \<Rightarrow> rat \<Rightarrow> broker \<Rightarrow> broker \<times> bool" where
  "claim_dispatch cfg r pid now b =
     (if rq_state (br_req b r) = ACCEPTED_QUEUED
      then if (case rq_queue_deadline (br_req b r) of None \<Rightarrow> False | Some d \<Rightarrow> now \<ge> d)
           then (cancel_local_future cfg r
                   (terminal_locked cfg r QUEUE_TIMED_OUT M_QUEUE_TIMED_OUT
                      (ctl [(''reason'', J ''queue_timeout'')]) [] b), False)
           else (publish_running cfg r pid
                   (upd_stats (\<lambda>s. s\<lparr>st_running := st_running s + 1\<rparr>)
                     (upd_req r (\<lambda>q. q\<lparr>rq_state := RUNNING\<rparr>) b)), True)
      else if rq_state (br_req b r) \<noteq> RUNNING then (b, False)
      else (publish_running cfg r pid b, True))"

text \<open>
  What the pool may do with a future it holds and that is still pending: ask for the claim before it
  writes the job to a worker, and finish it with an outcome.
\<close>

definition pool_holds :: "nat \<Rightarrow> broker \<Rightarrow> bool" where
  "pool_holds f b \<longleftrightarrow>
     f < br_nfut b \<and> pf_phase (br_fut b f) \<in> {P_in_pool, P_attached} \<and> pf_state (br_fut b f) = F_pending"

definition pool_claims :: "server_config \<Rightarrow> nat \<Rightarrow> int \<Rightarrow> rat \<Rightarrow> broker \<Rightarrow> broker" where
  "pool_claims cfg f pid now b =
     (if pool_holds f b then fst (claim_dispatch cfg (pf_request (br_fut b f)) pid now b) else b)"

definition pool_finishes :: "server_config \<Rightarrow> nat \<Rightarrow> outcome \<Rightarrow> broker \<Rightarrow> broker" where
  "pool_finishes cfg f out b =
     (if pool_holds f b
      then let b' = upd_fut f (\<lambda>p. p\<lparr>pf_state := F_finished out\<rparr>) b
           in if pf_phase (br_fut b f) = P_attached then pool_done cfg f b' else b'
      else b)"

subsection \<open>Cancellation and status\<close>

fun truthy :: "json \<Rightarrow> bool" where
  "truthy JNull = False"
| "truthy (JBool v) = v"
| "truthy (JInt i) = (i \<noteq> 0)"
| "truthy (JFloat f) = (f \<noteq> Finite 0)"
| "truthy (JStr s) = (s \<noteq> [])"
| "truthy (JList xs) = (xs \<noteq> [])"
| "truthy (JDict d) = (d \<noteq> [])"
| "truthy JOther = True"

definition cancel_decision ::
    "server_config \<Rightarrow> nat \<Rightarrow> nat option \<Rightarrow> bool \<Rightarrow> control \<Rightarrow> broker \<Rightarrow> (broker \<times> string) result" where
  "cancel_decision cfg c found hard control b =
     (case found of
        None \<Rightarrow> Inr (b, ''unknown'')
      | Some r \<Rightarrow>
          if rq_state (br_req b r) = ACCEPTED_QUEUED
          then Inr (cancel_queued cfg r CANCELLED M_CANCELLED ''cancelled'' b, ''cancelled'')
          else if rq_state (br_req b r) = RUNNING
          then (if hard
                then (case authorized cfg c (lit ''hard_cancel'') control b of
                        Inl e \<Rightarrow> Inl e
                      | Inr True \<Rightarrow> Inr (cancel_running cfg r ''terminated'' b, ''cancelled'')
                      | Inr False \<Rightarrow> Inr (b, ''running''))
                else Inr (b, ''running''))
          else Inr (b, ''terminal''))"

definition cancel_request :: "server_config \<Rightarrow> nat \<Rightarrow> control \<Rightarrow> broker \<Rightarrow> broker \<times> unit result" where
  "cancel_request cfg c control b =
     (case cancel_decision cfg c (owned_request c (jget control ''request_id'') b)
             (truthy (jget control ''hard'')) control b of
        Inl e \<Rightarrow> (b, Inl e)
      | Inr (b', response) \<Rightarrow>
          (conn_send cfg c M_CANCEL_RESPONSE
             (ctl [(''request_id'', jget control ''request_id''), (''response'', J response),
                   (''token'', jget control ''token'')]) [] b', Inr ()))"

text \<open>The loop of \<open>_cancel_group\<close>, with the counters of cancelled, running and terminal records.\<close>

fun cancel_group_loop ::
    "server_config \<Rightarrow> nat \<Rightarrow> bool \<Rightarrow> control \<Rightarrow> nat list \<Rightarrow> int \<times> int \<times> int \<Rightarrow> broker
       \<Rightarrow> broker \<times> (int \<times> int \<times> int) result" where
  "cancel_group_loop cfg c hard control [] counts b = (b, Inr counts)"
| "cancel_group_loop cfg c hard control (r # rs) (cancelled, running, done) b =
     (if rq_state (br_req b r) = ACCEPTED_QUEUED
      then cancel_group_loop cfg c hard control rs (cancelled + 1, running, done)
             (cancel_queued cfg r CANCELLED M_CANCELLED ''group_cancelled'' b)
      else if rq_state (br_req b r) = RUNNING
      then (case (if hard then authorized cfg c (lit ''hard_cancel'') control b else Inr False) of
              Inl e \<Rightarrow> (b, Inl e)
            | Inr True \<Rightarrow> cancel_group_loop cfg c hard control rs (cancelled + 1, running, done)
                            (cancel_running cfg r ''group_terminated'' b)
            | Inr False \<Rightarrow> cancel_group_loop cfg c hard control rs (cancelled, running + 1, done) b)
      else cancel_group_loop cfg c hard control rs (cancelled, running, done + 1) b)"

definition group_records :: "nat \<Rightarrow> json \<Rightarrow> broker \<Rightarrow> nat list" where
  "group_records c group_id b =
     (case cn_session (br_conn b c) of
        None \<Rightarrow> []
      | Some s \<Rightarrow> filter (\<lambda>r. rq_group_id (br_req b r) = group_id) (map snd (ss_requests (br_sess b s))))"

definition cancel_group :: "server_config \<Rightarrow> nat \<Rightarrow> control \<Rightarrow> broker \<Rightarrow> broker \<times> unit result" where
  "cancel_group cfg c control b =
     (let group_id = jget control ''group_id'';
          records = (if json_str group_id = None then [] else group_records c group_id b);
          unknown = (if records = [] then 1 else 0)
      in case cancel_group_loop cfg c (truthy (jget control ''hard'')) control records (0, 0, 0) b of
           (b', Inl e) \<Rightarrow> (b', Inl e)
         | (b', Inr (cancelled, running, done)) \<Rightarrow>
             (conn_send cfg c M_CANCEL_GROUP_RESPONSE
                (ctl [(''cancelled'', JInt cancelled), (''running'', JInt running),
                      (''terminal'', JInt done), (''unknown'', JInt unknown),
                      (''token'', jget control ''token'')]) [] b', Inr ()))"

definition request_status :: "server_config \<Rightarrow> nat \<Rightarrow> control \<Rightarrow> broker \<Rightarrow> broker" where
  "request_status cfg c control b =
     conn_send cfg c M_STATUS_RESPONSE
       (ctl [(''request_id'', jget control ''request_id''),
             (''state'', (case owned_request c (jget control ''request_id'') b of
                            None \<Rightarrow> J ''UNKNOWN''
                          | Some r \<Rightarrow> J (state_name (rq_state (br_req b r))))),
             (''token'', jget control ''token'')]) [] b"

subsection \<open>Disconnection\<close>

definition disconnect_record :: "server_config \<Rightarrow> nat \<Rightarrow> broker \<Rightarrow> broker" where
  "disconnect_record cfg r b =
     (if rq_state (br_req b r) = ACCEPTED_QUEUED
      then cancel_queued cfg r CANCELLED M_CANCELLED ''disconnected'' b
      else if rq_state (br_req b r) = RUNNING \<and> sv_disconnect_policy cfg = TERMINATE \<and>
              rq_local_future (br_req b r) \<noteq> None
      then cancel_running cfg r ''disconnected_terminate'' b
      else b)"

definition disconnect :: "server_config \<Rightarrow> nat \<Rightarrow> broker \<Rightarrow> broker" where
  "disconnect cfg c b0 =
     (let b1 = conn_close cfg c b0;
          b2 = b1\<lparr>br_connections := remove1 c (br_connections b1)\<rparr>;
          b = upd_stats (\<lambda>s. s\<lparr>st_connections := int (length (br_connections b2))\<rparr>) b2
      in upd_conn c (\<lambda>k. k\<lparr>cn_phase := C_done\<rparr>)
           (case cn_session (br_conn b c) of
              None \<Rightarrow> b
            | Some s \<Rightarrow>
                if \<not> cn_clean_close (br_conn b c) \<and> sv_disconnect_policy cfg \<in> {CANCEL_QUEUED, TERMINATE}
                then purge_session_locked s
                       (fold (disconnect_record cfg) (map snd (ss_requests (br_sess b s))) b)
                else purge_session_locked s b))"

subsection \<open>Messages of an established session\<close>

definition statistics_json :: "control \<Rightarrow> broker \<Rightarrow> control" where
  "statistics_json pool_statistics b =
     dict_merge
       (ctl [(''remote_tasks_received'', JInt (st_received (br_statistics b))),
             (''remote_tasks_accepted'', JInt (st_accepted (br_statistics b))),
             (''remote_tasks_rejected'', JInt (st_rejected (br_statistics b))),
             (''remote_tasks_running'', JInt (st_running (br_statistics b))),
             (''remote_tasks_terminal'', JInt (st_terminal (br_statistics b))),
             (''remote_connections'', JInt (st_connections (br_statistics b))),
             (''remote_sessions'', JInt (int (length (br_sessions b)))),
             (''remote_queued'', JInt (sched_len (br_scheduler b))),
             (''remote_staged'', JInt (br_staged b)),
             (''remote_retained_outcomes'', JInt (br_reserved_outcomes b)),
             (''remote_retained_outcome_bytes'', JInt (br_reserved_outcome_bytes b))])
       pool_statistics"

definition stats_request :: "server_config \<Rightarrow> nat \<Rightarrow> control \<Rightarrow> control \<Rightarrow> broker \<Rightarrow> broker \<times> unit result" where
  "stats_request cfg c control pool_statistics b =
     (case authorized cfg c (lit ''statistics'') control b of
        Inl e \<Rightarrow> (b, Inl e)
      | Inr True \<Rightarrow>
          (conn_send cfg c M_STATS_RESPONSE
             (ctl [(''statistics'', JDict (statistics_json pool_statistics b)),
                   (''token'', jget control ''token'')]) [] b, Inr ())
      | Inr False \<Rightarrow>
          (conn_send cfg c M_STATS_RESPONSE
             (ctl [(''error'', J ''unauthorized''), (''token'', jget control ''token'')]) [] b, Inr ()))"

definition result_ack :: "nat \<Rightarrow> control \<Rightarrow> broker \<Rightarrow> broker" where
  "result_ack c control b =
     (case owned_request c (jget control ''request_id'') b of
        None \<Rightarrow> b
      | Some r \<Rightarrow> if terminal (rq_state (br_req b r)) then remove_request_locked r b else b)"

definition close_session :: "server_config \<Rightarrow> nat \<Rightarrow> control \<Rightarrow> broker \<Rightarrow> broker \<times> unit result" where
  "close_session cfg c control b =
     (case cn_session (br_conn b c) of
        None \<Rightarrow> (b, Inl (RemoteProtocolError ''a session may close cleanly only after all requests are terminal''))
      | Some s \<Rightarrow>
          if \<exists>r \<in> set (map snd (ss_requests (br_sess b s))). \<not> terminal (rq_state (br_req b r))
          then (b, Inl (RemoteProtocolError ''a session may close cleanly only after all requests are terminal''))
          else (conn_send cfg c M_CLOSE_SESSION_RESPONSE (ctl [(''token'', jget control ''token'')]) []
                  (upd_conn c (\<lambda>k. k\<lparr>cn_clean_close := True\<rparr>) b), Inr ()))"

definition handle_message ::
    "server_config \<Rightarrow> nat \<Rightarrow> message \<Rightarrow> rat \<Rightarrow> control \<Rightarrow> broker \<Rightarrow> broker \<times> unit result" where
  "handle_message cfg c m now pool_statistics b =
     (case msg_kind m of
        M_PING \<Rightarrow> (conn_send cfg c M_PONG (ctl [(''nonce'', jget (msg_control m) ''nonce'')]) [] b, Inr ())
      | M_SUBMIT \<Rightarrow> submit cfg c m now b
      | M_CANCEL_REQUEST \<Rightarrow> cancel_request cfg c (msg_control m) b
      | M_CANCEL_GROUP \<Rightarrow> cancel_group cfg c (msg_control m) b
      | M_STATUS_REQUEST \<Rightarrow> (request_status cfg c (msg_control m) b, Inr ())
      | M_STATS_REQUEST \<Rightarrow> stats_request cfg c (msg_control m) pool_statistics b
      | M_RESULT_ACK \<Rightarrow> (result_ack c (msg_control m) b, Inr ())
      | M_CLOSE_SESSION \<Rightarrow> close_session cfg c (msg_control m) b
      | _ \<Rightarrow> (b, Inl (RemoteProtocolError ''message is invalid in this state'')))"

subsection \<open>Handshake\<close>

fun int_pair :: "json \<Rightarrow> bool" where
  "int_pair (JList [JInt _, JInt _]) = True"
| "int_pair _ = False"

definition hello_required :: "string list" where
  "hello_required = [''versions'', ''client_instance_id'', ''serializer'', ''serializer_protocol'', ''python'',
     ''capabilities'', ''max_result_bytes'', ''wire'', ''wire_limits'']"

definition nonempty_str :: "json \<Rightarrow> bool" where
  "nonempty_str v \<longleftrightarrow> (case v of JStr s \<Rightarrow> s \<noteq> [] | _ \<Rightarrow> False)"

definition positive_json :: "json \<Rightarrow> bool" where
  "positive_json v \<longleftrightarrow> (case v of JInt i \<Rightarrow> 0 < i | _ \<Rightarrow> False)"

definition validate_hello :: "control \<Rightarrow> unit result" where
  "validate_hello hello = first_error
     [check (\<forall>k \<in> set hello_required. jhas hello k) (RemoteProtocolError ''HELLO is missing required fields''),
      check (case jget hello ''versions'' of JList vs \<Rightarrow> \<forall>v \<in> set vs. int_pair v | _ \<Rightarrow> False)
        (RemoteProtocolError ''HELLO versions must be integer pairs''),
      check (int_pair (jget hello ''python''))
        (RemoteProtocolError ''HELLO python version must be an integer pair''),
      check (case jget hello ''capabilities'' of JList cs \<Rightarrow> \<forall>c \<in> set cs. json_str c \<noteq> None | _ \<Rightarrow> False)
        (RemoteProtocolError ''HELLO capabilities must be strings''),
      check (nonempty_str (jget hello ''client_instance_id''))
        (RemoteProtocolError ''HELLO client_instance_id must be a non-empty string''),
      check (nonempty_str (jget hello ''serializer''))
        (RemoteProtocolError ''HELLO serializer must be a non-empty string''),
      check (nonempty_str (jget hello ''wire''))
        (RemoteProtocolError ''HELLO wire must be a non-empty string''),
      check (case jget hello ''client_instance_id'' of JStr s \<Rightarrow> length s \<le> 128 | _ \<Rightarrow> False)
        (RemoteProtocolError ''HELLO client instance ID is too long''),
      check (json_int (jget hello ''serializer_protocol'') \<noteq> None \<or> json_str (jget hello ''serializer_protocol'') \<noteq> None)
        (RemoteProtocolError ''HELLO serializer protocol is invalid''),
      (case validate_wire_limits (jget hello ''wire_limits'') of Inl e \<Rightarrow> Inl e | Inr _ \<Rightarrow> Inr ()),
      check (positive_json (jget hello ''max_result_bytes''))
        (RemoteProtocolError ''client result limit must be a positive integer'')]"

fun json_text :: "json \<Rightarrow> pystr" where
  "json_text (JStr s) = s"
| "json_text (JInt i) = int_digits i"
| "json_text _ = []"

text \<open>The compatibility checks of \<open>_handshake\<close>: the reason sent to the client and the error raised.\<close>

definition incompatible :: "server_config \<Rightarrow> control \<Rightarrow> (string \<times> string) option" where
  "incompatible cfg hello =
     (if \<not> same_dict (case jget hello ''wire_limits'' of JDict d \<Rightarrow> d | _ \<Rightarrow> []) (wire_limits (sv_limits cfg))
      then Some (''wire_limits'', ''wire limit compatibility rejected'')
      else if \<not> (case jget hello ''versions'' of
                    JList vs \<Rightarrow> JList [JInt (int proto_major), JInt (int proto_minor)] \<in> set vs | _ \<Rightarrow> False)
      then Some (''protocol'', ''no compatible protocol version'')
      else if jget hello ''serializer'' \<noteq> JStr (sv_serializer_name cfg) \<or>
              json_text (jget hello ''serializer_protocol'') \<noteq> json_text (sv_serializer_protocol cfg)
      then Some (''serializer'', ''serializer compatibility rejected'')
      else if (case jget hello ''capabilities'' of JList cs \<Rightarrow> J ''callable'' \<in> set cs | _ \<Rightarrow> False) \<and>
              jget hello ''python'' \<noteq> JList [JInt (fst (sv_python cfg)), JInt (snd (sv_python cfg))]
      then Some (''python'', ''callable mode requires matching Python'')
      else if sv_registry_fingerprint cfg \<noteq> None \<and>
              jget hello ''registry_fingerprint'' \<noteq> opt_json (sv_registry_fingerprint cfg)
      then Some (''registry_fingerprint'', ''task registry compatibility rejected'')
      else if sv_application_fingerprint cfg \<noteq> None \<and>
              jget hello ''application_fingerprint'' \<noteq> opt_json (sv_application_fingerprint cfg)
      then Some (''application_fingerprint'', ''application compatibility rejected'')
      else None)"

text \<open>Authentication: \<open>None\<close> stands for any exception of the block, which rejects the peer.\<close>

definition authenticate :: "server_config \<Rightarrow> transport \<Rightarrow> peer_info \<Rightarrow> control \<Rightarrow> pystr option" where
  "authenticate cfg tr peer hello =
     (let name =
        (case sv_authenticator cfg of
           Some f \<Rightarrow> (case f peer hello of Inl _ \<Rightarrow> None | Inr p \<Rightarrow> Some (principal_name p))
         | None \<Rightarrow>
             if tr = UNIX
             then (case pi_uid peer of
                     Some u \<Rightarrow> if u \<noteq> sv_uid cfg then None else Some (lit ''uid:'' @ int_digits u)
                   | None \<Rightarrow> Some (lit ''uid:'' @ int_digits (sv_uid cfg)))
             else (case pi_certificate peer of
                     Some cert \<Rightarrow> Some (lit ''tls:'' @ sv_sha256 cfg cert)
                   | None \<Rightarrow> Some (lit ''tcp:loopback'')))
      in if name = Some [] then None else name)"

definition effective_result_limit :: "server_config \<Rightarrow> int \<Rightarrow> int" where
  "effective_result_limit cfg offered =
     min (min offered (max_result_bytes (sv_limits cfg)))
         (min (max_retained_outcome_bytes_per_session (sv_limits cfg))
              (max_retained_outcome_bytes_global (sv_limits cfg)))"

definition welcome_control :: "server_config \<Rightarrow> pystr \<Rightarrow> int \<Rightarrow> control" where
  "welcome_control cfg s result_limit =
     ctl [(''version'', JList [JInt (int proto_major), JInt (int proto_minor)]),
          (''features'', JList [J ''callable'', J ''registered'', J ''chunking'']),
          (''wire'', J ''experimental-deadpool-private-v1''),
          (''wire_limits'', JDict (wire_limits (sv_limits cfg))),
          (''server_id'', JStr (sv_server_id cfg)),
          (''epoch'', JStr (sv_epoch cfg)),
          (''session_id'', JStr s),
          (''serializer'', JStr (sv_serializer_name cfg)),
          (''serializer_protocol'', sv_serializer_protocol cfg),
          (''registry_fingerprint'', opt_json (sv_registry_fingerprint cfg)),
          (''application_fingerprint'', opt_json (sv_application_fingerprint cfg)),
          (''limits'', JDict (ctl
             [(''max_invocation_bytes'', JInt (max_invocation_bytes (sv_limits cfg))),
              (''max_result_bytes'', JInt result_limit),
              (''max_pending_per_session'', JInt (max_pending_per_session (sv_limits cfg))),
              (''max_pending_per_principal'', JInt (max_pending_per_principal (sv_limits cfg))),
              (''max_pending_global'', JInt (max_pending_global (sv_limits cfg)))])),
          (''resumption'', JBool False)]"

definition handshake_rejected :: "server_config \<Rightarrow> nat \<Rightarrow> string \<Rightarrow> broker \<Rightarrow> broker" where
  "handshake_rejected cfg c reason = conn_send cfg c M_HANDSHAKE_REJECTED (ctl [(''reason'', J reason)]) []"

definition open_session :: "server_config \<Rightarrow> nat \<Rightarrow> pystr \<Rightarrow> pystr \<Rightarrow> pystr \<Rightarrow> int \<Rightarrow> broker \<Rightarrow> broker" where
  "open_session cfg c s client_id who result_limit b =
     conn_send cfg c M_WELCOME (welcome_control cfg s result_limit) []
       (upd_conn c (\<lambda>k. k\<lparr>cn_session := Some s, cn_phase := C_open\<rparr>)
         (b\<lparr>br_sess := (br_sess b)(s := \<lparr>ss_client_id = client_id, ss_principal = who, ss_connection = c,
                                        ss_max_result_bytes = result_limit, ss_watermark = 0,
                                        ss_reserved_outcomes = 0, ss_reserved_outcome_bytes = 0,
                                        ss_requests = []\<rparr>),
            br_session_ids := br_session_ids b @ [s],
            br_sessions := br_sessions b @ [s],
            br_client_sessions := AList.update client_id s (br_client_sessions b)\<rparr>))"

definition handshake ::
    "server_config \<Rightarrow> nat \<Rightarrow> peer_info \<Rightarrow> pystr \<Rightarrow> control \<Rightarrow> broker \<Rightarrow> broker \<times> unit result" where
  "handshake cfg c peer s hello b =
     (case validate_hello hello of
        Inl e \<Rightarrow> (b, Inl e)
      | Inr _ \<Rightarrow>
        (case incompatible cfg hello of
           Some (reason, msg) \<Rightarrow> (handshake_rejected cfg c reason b, Inl (RemoteProtocolError msg))
         | None \<Rightarrow>
           (case authenticate cfg (cn_transport (br_conn b c)) peer hello of
              None \<Rightarrow> (handshake_rejected cfg c ''authentication'' b,
                        Inl (RemoteProtocolError ''peer authentication rejected''))
            | Some who \<Rightarrow>
              (case (json_int (jget hello ''max_result_bytes''), json_str (jget hello ''client_instance_id'')) of
                 (Some offered, Some client_id) \<Rightarrow>
                   if client_id \<in> set (dkeys (br_client_sessions b))
                   then (handshake_rejected cfg c ''duplicate_client_instance'' b,
                         Inl (RemoteProtocolError ''client instance already has a live session''))
                   else if int (length (filter (\<lambda>x. ss_principal (br_sess b x) = who) (br_sessions b)))
                             \<ge> max_connections_per_principal (sv_limits cfg)
                   then (handshake_rejected cfg c ''connection_limit'' b,
                         Inl (RemoteProtocolError ''principal connection limit exceeded''))
                   else (open_session cfg c s client_id who (effective_result_limit cfg offered) b, Inr ())
               | _ \<Rightarrow> (b, Inl (RemoteProtocolError ''client result limit must be a positive integer''))))))"

end
