(* ===== verification/Server.thy ===== *)
theory Server
  imports Broker
begin

text \<open>
  The threads of \<open>DeadpoolServer\<close> around the broker's operations: listening, the life of a
  connection, start-up and shutdown, and the interleaving of all of them as one step function on
  \<open>server_event\<close>s.  Each event is one lock region of the code (or one unlocked statement), so every
  interleaving of the real threads is a sequence of events.
\<close>

subsection \<open>Listening\<close>

definition accept_socket_loop :: "server_config \<Rightarrow> nat \<Rightarrow> broker \<Rightarrow> broker" where
  "accept_socket_loop cfg sock b =
     (let unauthenticated = length (br_raw_sockets b) +
            length (filter (\<lambda>c. cn_session (br_conn b c) = None) (br_connections b));
          tot = length (br_raw_sockets b) + length (br_connections b)
      in if br_state b \<notin> {SRV_RUNNING, DRAINING} \<or> sock \<in> set (br_raw_sockets b) \<or>
            int unauthenticated \<ge> max_unauthenticated_connections (sv_limits cfg) \<or>
            int tot \<ge> max_connections_global (sv_limits cfg)
         then b
         else b\<lparr>br_raw_sockets := br_raw_sockets b @ [sock]\<rparr>)"

definition new_connection :: "transport \<Rightarrow> connection" where
  "new_connection tr =
     \<lparr>cn_transport = tr, cn_session = None, cn_closed = False, cn_clean_close = False, cn_outbound = [],
      cn_writer_alive = True, cn_wire = [], cn_phase = C_hello\<rparr>"

text \<open>
  \<open>_prepare_connection\<close> up to the connection loop: \<open>ready\<close> says whether \<open>prepare_accepted_socket\<close>
  succeeded.
\<close>

definition prepare_connection :: "server_config \<Rightarrow> nat \<Rightarrow> bool \<Rightarrow> transport \<Rightarrow> broker \<Rightarrow> broker" where
  "prepare_connection cfg sock ready tr b =
     (let b1 = b\<lparr>br_raw_sockets := remove1 sock (br_raw_sockets b)\<rparr> in
      if \<not> ready then b1
      else let c = br_nconn b1;
               b2 = b1\<lparr>br_conn := (br_conn b1)(c := new_connection tr), br_nconn := Suc c\<rparr>
           in if br_state b2 \<notin> {SRV_RUNNING, DRAINING}
              then upd_conn c (\<lambda>k. k\<lparr>cn_phase := C_done\<rparr>) (conn_close cfg c b2)
              else let b3 = b2\<lparr>br_connections := br_connections b2 @ [c]\<rparr>
                   in upd_stats (\<lambda>st. st\<lparr>st_connections := int (length (br_connections b3))\<rparr>) b3)"

subsection \<open>The connection loop\<close>

fun exn_text :: "exn \<Rightarrow> pystr" where
  "exn_text (RemoteProtocolError msg) = lit msg"
| "exn_text (IndexError msg) = lit ''malformed peer message: '' @ lit msg"
| "exn_text (ValueError msg) = lit ''malformed peer message: '' @ lit msg"
| "exn_text (TypeError msg) = lit ''malformed peer message: '' @ lit msg"
| "exn_text _ = lit ''malformed peer message: ''"

fun quiet_exn :: "exn \<Rightarrow> bool" where
  "quiet_exn (EOFError _) = True"
| "quiet_exn (OSError _) = True"
| "quiet_exn (TimeoutError _) = True"
| "quiet_exn _ = False"

text \<open>The \<open>except\<close> and \<open>finally\<close> clauses of \<open>_connection_loop\<close>.\<close>

definition connection_failed :: "server_config \<Rightarrow> nat \<Rightarrow> exn \<Rightarrow> broker \<Rightarrow> broker" where
  "connection_failed cfg c e b =
     disconnect cfg c
       (if quiet_exn e then b
        else conn_flush cfg c
               (conn_send cfg c M_PROTOCOL_ERROR (ctl [(''message'', JStr (take 1024 (exn_text e)))]) [] b))"

definition loop_result :: "server_config \<Rightarrow> nat \<Rightarrow> broker \<times> unit result \<Rightarrow> broker" where
  "loop_result cfg c res =
     (case res of (b, Inr _) \<Rightarrow> b | (b, Inl e) \<Rightarrow> connection_failed cfg c e b)"

definition connection_hello :: "server_config \<Rightarrow> nat \<Rightarrow> peer_info \<Rightarrow> pystr \<Rightarrow> message \<Rightarrow> broker \<Rightarrow> broker" where
  "connection_hello cfg c peer s m b =
     loop_result cfg c
       (if msg_kind m \<noteq> M_HELLO \<or> msg_payload m \<noteq> []
        then (b, Inl (RemoteProtocolError ''HELLO must be the first message''))
        else handshake cfg c peer s (msg_control m) b)"

definition connection_message :: "server_config \<Rightarrow> nat \<Rightarrow> message \<Rightarrow> rat \<Rightarrow> control \<Rightarrow> broker \<Rightarrow> broker" where
  "connection_message cfg c m now pool_statistics b =
     loop_result cfg c (handle_message cfg c m now pool_statistics b)"

subsection \<open>Start-up and shutdown\<close>

definition server_start :: "broker \<Rightarrow> broker" where
  "server_start b = (if br_state b = CREATED then b\<lparr>br_state := STARTING\<rparr> else b)"

text \<open>
  The end of \<open>serve_forever\<close>'s start-up: \<open>ok\<close> says whether the pool and at least one listener could
  be created.  A shutdown during start-up has moved the state to \<open>STOPPING\<close>.
\<close>

definition server_initialize :: "bool \<Rightarrow> broker \<Rightarrow> broker" where
  "server_initialize ok b =
     (if br_state b = STARTING
      then (if ok then b\<lparr>br_state := SRV_RUNNING, br_ready := True\<rparr>
            else b\<lparr>br_state := STOPPED, br_ready := True\<rparr>)
      else if br_state b = STOPPING \<and> \<not> br_ready b then b\<lparr>br_state := STOPPED, br_ready := True\<rparr>
      else b)"

definition validate_shutdown_deadline :: "pyval \<Rightarrow> rat option result" where
  "validate_shutdown_deadline v =
     (if v = VNone then Inr None
      else if is_bool v \<or> \<not> (is_int v \<or> is_float v) \<or> \<not> num_isfinite v \<or> num_lt0 v
      then Inl (ValueError ''deadline must be finite and non-negative'')
      else Inr (Some (num_rat v)))"

definition shutdown :: "bool \<Rightarrow> pyval \<Rightarrow> rat \<Rightarrow> broker \<Rightarrow> broker \<times> unit result" where
  "shutdown cancel_futures deadline now b =
     (case validate_shutdown_deadline deadline of
        Inl e \<Rightarrow> (b, Inl e)
      | Inr dl \<Rightarrow>
          (case br_state b of
             STOPPED \<Rightarrow> (b, Inr ())
           | CREATED \<Rightarrow> (b\<lparr>br_state := STOPPED, br_ready := True\<rparr>, Inr ())
           | STARTING \<Rightarrow> (b\<lparr>br_state := STOPPING\<rparr>, Inr ())
           | _ \<Rightarrow>
               if br_state b = STOPPING \<and> \<not> br_ready b then (b, Inr ())
               else (b\<lparr>br_state := (if br_state b = SRV_RUNNING then DRAINING else br_state b),
                       br_shutdown_cancel_futures := br_shutdown_cancel_futures b \<or> cancel_futures,
                       br_shutdown_deadline_at :=
                         (case dl of
                            None \<Rightarrow> br_shutdown_deadline_at b
                          | Some d \<Rightarrow>
                              (case br_shutdown_deadline_at b of
                                 None \<Rightarrow> Some (now + d)
                               | Some d' \<Rightarrow> Some (if now + d < d' then now + d else d'))),
                       br_shutdown_phase :=
                         (if br_shutdown_phase b = S_none then S_waiting else br_shutdown_phase b)\<rparr>,
                     Inr ())))"

definition shutdown_cancel_record :: "server_config \<Rightarrow> nat \<Rightarrow> broker \<Rightarrow> broker" where
  "shutdown_cancel_record cfg r b =
     (if rq_state (br_req b r) = ACCEPTED_QUEUED
      then cancel_queued cfg r CANCELLED M_CANCELLED ''server_shutdown'' b else b)"

definition shutdown_deadline_record :: "server_config \<Rightarrow> nat \<Rightarrow> broker \<Rightarrow> broker" where
  "shutdown_deadline_record cfg r b =
     (if rq_state (br_req b r) = ACCEPTED_QUEUED
      then cancel_queued cfg r CANCELLED M_CANCELLED ''shutdown_deadline'' b
      else if rq_state (br_req b r) = RUNNING \<and> rq_local_future (br_req b r) \<noteq> None
      then cancel_running cfg r ''shutdown_deadline'' b
      else b)"

text \<open>One iteration of the waiting loop of \<open>_finish_shutdown\<close>.\<close>

definition finish_shutdown_wait :: "server_config \<Rightarrow> rat \<Rightarrow> broker \<Rightarrow> broker" where
  "finish_shutdown_wait cfg now b =
     (if br_shutdown_phase b \<noteq> S_waiting then b
      else if \<forall>r \<in> set (map snd (br_requests b)). terminal (rq_state (br_req b r))
      then b\<lparr>br_state := STOPPING, br_shutdown_phase := S_closing\<rparr>
      else let b1 = (if br_shutdown_cancel_futures b
                     then fold (shutdown_cancel_record cfg) (map snd (br_requests b)) b else b)
           in case br_shutdown_deadline_at b1 of
                None \<Rightarrow> b1
              | Some d \<Rightarrow>
                  if now \<ge> d
                  then (fold (shutdown_deadline_record cfg) (map snd (br_requests b1)) b1)
                         \<lparr>br_state := STOPPING, br_shutdown_phase := S_closing\<rparr>
                  else b1)"

definition goodbye :: "server_config \<Rightarrow> nat \<Rightarrow> broker \<Rightarrow> broker" where
  "goodbye cfg c b =
     conn_close cfg c
       (conn_flush cfg c
         (conn_send cfg c M_GOAWAY (ctl [(''reason'', J ''server_stopped'')]) [] (conn_flush cfg c b)))"

text \<open>
  The rest of \<open>_finish_shutdown\<close>: listeners and raw sockets are closed, the pool has drained, every
  connection gets its outcomes, then GOAWAY, then is closed.  Closing the listeners and shutting down the pool are taken to
  return: an exception out of either would end the thread with the server still stopping.
\<close>

definition finish_shutdown_close :: "server_config \<Rightarrow> broker \<Rightarrow> broker" where
  "finish_shutdown_close cfg b =
     (if br_shutdown_phase b \<noteq> S_closing then b
      else (fold (goodbye cfg) (br_connections b) (b\<lparr>br_raw_sockets := []\<rparr>))
             \<lparr>br_state := STOPPED, br_shutdown_phase := S_done\<rparr>)"

subsection \<open>Events\<close>

datatype server_event =
    Ev_start
  | Ev_initialize bool
  | Ev_accept nat
  | Ev_prepare nat bool transport
  | Ev_hello nat peer_info pystr message
  | Ev_message nat message rat control
  | Ev_connection_error nat exn
  | Ev_writer nat bool
  | Ev_dispatch rat
  | Ev_pool_answer pool_answer
  | Ev_attach
  | Ev_claim nat int rat
  | Ev_finish nat outcome
  | Ev_shutdown bool pyval rat
  | Ev_shutdown_wait rat
  | Ev_shutdown_close

text \<open>
  An event that its thread cannot perform in a state leaves the state unchanged.  The session id of a
  handshake is a fresh \<open>uuid4\<close>.  A connection thread leaves its loop when it sees the connection
  closed; a message it had received before is still handled after the closing, so messages are events
  of closed connections too, and leaving the loop is \<open>Ev_connection_error\<close> with a quiet exception.
\<close>

fun server_step :: "server_config \<Rightarrow> server_event \<Rightarrow> broker \<Rightarrow> broker" where
  "server_step cfg Ev_start b = server_start b"
| "server_step cfg (Ev_initialize ok) b = server_initialize ok b"
| "server_step cfg (Ev_accept sock) b = accept_socket_loop cfg sock b"
| "server_step cfg (Ev_prepare sock ready tr) b =
     (if sock \<in> set (br_raw_sockets b) then prepare_connection cfg sock ready tr b else b)"
| "server_step cfg (Ev_hello c peer s m) b =
     (if c < br_nconn b \<and> cn_phase (br_conn b c) = C_hello \<and> s \<notin> set (br_session_ids b)
      then connection_hello cfg c peer s m b else b)"
| "server_step cfg (Ev_message c m now pool_statistics) b =
     (if c < br_nconn b \<and> cn_phase (br_conn b c) = C_open
      then connection_message cfg c m now pool_statistics b else b)"
| "server_step cfg (Ev_connection_error c e) b =
     (if c < br_nconn b \<and> cn_phase (br_conn b c) \<noteq> C_done then connection_failed cfg c e b else b)"
| "server_step cfg (Ev_writer c sent) b =
     (if c < br_nconn b then upd_conn c (writer_step cfg sent) b else b)"
| "server_step cfg (Ev_dispatch now) b = dispatch_next cfg now b"
| "server_step cfg (Ev_pool_answer answer) b = dispatch_submit cfg answer b"
| "server_step cfg Ev_attach b = dispatch_attach cfg b"
| "server_step cfg (Ev_claim f pid now) b = pool_claims cfg f pid now b"
| "server_step cfg (Ev_finish f out) b = pool_finishes cfg f out b"
| "server_step cfg (Ev_shutdown cancel deadline now) b = fst (shutdown cancel deadline now b)"
| "server_step cfg (Ev_shutdown_wait now) b = finish_shutdown_wait cfg now b"
| "server_step cfg Ev_shutdown_close b = finish_shutdown_close cfg b"

text \<open>What the constructor accepts: at least one listener and a known policy.\<close>

definition server_construct :: "nat \<Rightarrow> string \<Rightarrow> disconnect_policy result" where
  "server_construct listeners policy =
     (if listeners = 0 then Inl (ValueError ''at least one listener is required'')
      else if policy = ''cancel_queued'' then Inr CANCEL_QUEUED
      else if policy = ''continue'' then Inr CONTINUE
      else if policy = ''terminate'' then Inr TERMINATE
      else Inl (ValueError ''invalid disconnect policy''))"

definition server_init :: broker where
  "server_init =
     \<lparr>br_state = CREATED, br_conn = (\<lambda>_. new_connection UNIX), br_nconn = 0, br_connections = [],
      br_raw_sockets = [],
      br_sess = (\<lambda>_. \<lparr>ss_client_id = [], ss_principal = [], ss_connection = 0, ss_max_result_bytes = 0,
                     ss_watermark = 0, ss_reserved_outcomes = 0, ss_reserved_outcome_bytes = 0,
                     ss_requests = []\<rparr>),
      br_session_ids = [], br_sessions = [], br_client_sessions = [],
      br_req = (\<lambda>_. new_request [] []
                      \<lparr>ss_client_id = [], ss_principal = [], ss_connection = 0, ss_max_result_bytes = 0,
                       ss_watermark = 0, ss_reserved_outcomes = 0, ss_reserved_outcome_bytes = 0,
                       ss_requests = []\<rparr> [] 0 [] [] [] 0 (0, None, None)),
      br_nreq = 0, br_requests = [], br_reserved_outcomes = 0, br_reserved_outcome_bytes = 0,
      br_scheduler = sched_init, br_staged = 0,
      br_fut = (\<lambda>_. \<lparr>pf_request = 0, pf_state = F_pending, pf_phase = P_dropped, pf_pid = None\<rparr>),
      br_nfut = 0, br_dispatch = D_idle,
      br_statistics = \<lparr>st_received = 0, st_accepted = 0, st_rejected = 0, st_running = 0,
                       st_terminal = 0, st_connections = 0\<rparr>,
      br_killed = [], br_ready = False, br_shutdown_phase = S_none,
      br_shutdown_cancel_futures = False, br_shutdown_deadline_at = None\<rparr>"

inductive reachable :: "server_config \<Rightarrow> broker \<Rightarrow> bool" for cfg where
  init: "reachable cfg server_init"
| step: "reachable cfg b \<Longrightarrow> reachable cfg (server_step cfg ev b)"

definition server_run :: "server_config \<Rightarrow> server_event list \<Rightarrow> broker \<Rightarrow> broker" where
  "server_run cfg evs b = fold (server_step cfg) evs b"

end
