(* ===== verification/Lane.thy ===== *)
theory Lane
  imports Server
begin

text \<open>
  The dispatch lane of the broker: scheduler, staged futures and request states.  The invariant
  \<open>lane_inv\<close> says that every unfinished request is in exactly one place, in the scheduler or behind
  one future in flight, that the staging counter is the number of futures in flight, and that it
  respects \<open>max_staged_tasks\<close>.

  The locale \<open>work_set\<close> is what the broker relies on in its scheduler: a container of distinct items.
\<close>

subsection \<open>The scheduler as a set of requests\<close>

locale work_set =
  fixes good :: "'s \<Rightarrow> bool" and num :: "'a \<Rightarrow> 's \<Rightarrow> int" and busy :: "'s \<Rightarrow> bool"
    and put_at :: "bool \<Rightarrow> 'a \<Rightarrow> int \<Rightarrow> pystr \<Rightarrow> 's \<Rightarrow> 's"
    and pop :: "'s \<Rightarrow> ('a \<times> 's) result"
    and remove :: "'a \<Rightarrow> 's \<Rightarrow> (bool \<times> 's) result"
  assumes put_good: "good s \<Longrightarrow> good (put_at front x k who s)"
    and put_num: "good s \<Longrightarrow> num y (put_at front x k who s) = num y s + of_bool (y = x)"
    and pop_ok: "good s \<Longrightarrow> busy s \<Longrightarrow>
      \<exists>x s'. pop s = Inr (x, s') \<and> good s' \<and> (\<forall>y. num y s' = num y s - of_bool (y = x))"
    and remove_ok: "good s \<Longrightarrow>
      \<exists>found s'. remove x s = Inr (found, s') \<and> good s' \<and>
        (if found then \<forall>y. num y s' = num y s - of_bool (y = x) else s' = s \<and> num x s = 0)"
    and num_nonneg: "good s \<Longrightarrow> 0 \<le> num x s"
begin

definition holds :: "'s \<Rightarrow> 'a set \<Rightarrow> bool" where
  "holds s A \<longleftrightarrow> good s \<and> (\<forall>x. num x s = of_bool (x \<in> A))"

lemma put_holds: "holds s A \<Longrightarrow> x \<notin> A \<Longrightarrow> holds (put_at front x k who s) (insert x A)"
  by (auto simp: holds_def put_good put_num)

lemma pop_holds:
  assumes "holds s A" and "busy s"
  shows "\<exists>x s'. pop s = Inr (x, s') \<and> x \<in> A \<and> holds s' (A - {x})"
proof -
  obtain x s' where p: "pop s = Inr (x, s')" "good s'" "\<forall>y. num y s' = num y s - of_bool (y = x)"
    using pop_ok [of s] assms by (auto simp: holds_def)
  have "x \<in> A"
  proof (rule ccontr)
    assume "x \<notin> A"
    then have "num x s' = -1" using assms p by (simp add: holds_def)
    with num_nonneg [OF p(2), of x] show False by simp
  qed
  then have "holds s' (A - {x})"
    using assms p by (auto simp: holds_def)
  with p(1) \<open>x \<in> A\<close> show ?thesis by blast
qed

lemma remove_holds:
  assumes "holds s A"
  shows "\<exists>found s'. remove x s = Inr (found, s') \<and> holds s' (A - {x})"
proof -
  obtain found s' where r: "remove x s = Inr (found, s')" "good s'"
      "if found then \<forall>y. num y s' = num y s - of_bool (y = x) else s' = s \<and> num x s = 0"
    using remove_ok [of s x] assms by (auto simp: holds_def)
  have "x \<in> A" if found
  proof (rule ccontr)
    assume "x \<notin> A"
    then have "num x s' = -1" using assms r that by (simp add: holds_def)
    with num_nonneg [OF r(2), of x] show False by simp
  qed
  then have "holds s' (A - {x})"
    using assms r by (cases found) (auto simp: holds_def)
  with r(1) show ?thesis by blast
qed

end

interpretation ws: work_set sched_inv sched_count sched_bool sched_put_at sched_pop sched_remove
proof unfold_locales
  fix s :: "'a fair_scheduler" and front x k who y
  assume inv: "sched_inv s"
  show "sched_inv (sched_put_at front x k who s)" using inv by (rule sched_put_at_spec)
  show "sched_count y (sched_put_at front x k who s) = sched_count y s + of_bool (y = x)"
    using sched_put_at_weight [OF inv] by (auto simp: sched_count_def)
  show "0 \<le> sched_count x s"
    unfolding sched_count_def using inv by (rule fs.weight_nonneg) simp
  show "\<exists>x s'. sched_pop s = Inr (x, s') \<and> sched_inv s' \<and>
      (\<forall>y. sched_count y s' = sched_count y s - of_bool (y = x))" if "sched_bool s"
    using sched_pop_spec [OF inv] that by (auto simp: sched_count_def sched_bool_def)
  show "\<exists>found s'. sched_remove x s = Inr (found, s') \<and> sched_inv s' \<and>
      (if found then \<forall>y. sched_count y s' = sched_count y s - of_bool (y = x)
       else s' = s \<and> sched_count x s = 0)"
    using sched_remove_spec [OF inv, of x] by (fastforce simp: sched_count_def)
qed

subsection \<open>The lane invariant\<close>

definition inflight :: "pool_future \<Rightarrow> bool" where
  "inflight p \<longleftrightarrow> pf_phase p = P_staged \<or> pf_phase p = P_in_pool \<or>
     (pf_phase p = P_attached \<and> pf_state p = F_pending)"

definition waiting :: "request \<Rightarrow> bool" where
  "waiting q \<longleftrightarrow> rq_state q = ACCEPTED_QUEUED \<and> rq_local_future q = None"

definition waiting_set :: "broker \<Rightarrow> nat set" where
  "waiting_set b = {r. r < br_nreq b \<and> waiting (br_req b r)}"

definition inflight_one :: "pool_future \<Rightarrow> int" where
  "inflight_one p = (if inflight p then 1 else 0)"

definition inflight_count :: "broker \<Rightarrow> int" where
  "inflight_count b = (\<Sum>f < br_nfut b. inflight_one (br_fut b f))"

definition futures_ok :: "broker \<Rightarrow> bool" where
  "futures_ok b \<longleftrightarrow>
     (\<forall>f < br_nfut b.
        pf_request (br_fut b f) < br_nreq b \<and>
        (inflight (br_fut b f) \<longrightarrow> rq_local_future (br_req b (pf_request (br_fut b f))) = Some f) \<and>
        (pf_phase (br_fut b f) = P_staged \<longleftrightarrow> br_dispatch b = D_submitting f) \<and>
        (pf_phase (br_fut b f) = P_in_pool \<longleftrightarrow> br_dispatch b = D_attaching f)) \<and>
     (\<forall>f. br_dispatch b = D_submitting f \<or> br_dispatch b = D_attaching f \<longrightarrow> f < br_nfut b) \<and>
     (\<forall>r < br_nreq b. \<forall>f. rq_local_future (br_req b r) = Some f \<longrightarrow>
        f < br_nfut b \<and> pf_request (br_fut b f) = r)"

definition served :: "broker \<Rightarrow> nat \<Rightarrow> bool" where
  "served b r \<longleftrightarrow> terminal (rq_state (br_req b r)) \<or>
     (rq_local_future (br_req b r) = None \<and> rq_state (br_req b r) = ACCEPTED_QUEUED) \<or>
     (\<exists>f. rq_local_future (br_req b r) = Some f \<and> inflight (br_fut b f) \<and>
         (pf_phase (br_fut b f) = P_staged \<longrightarrow> rq_state (br_req b r) = ACCEPTED_QUEUED))"

text \<open>
  The invariant, with two parameters for the states inside an operation: \<open>k\<close> futures have just
  completed and not yet been counted down, and the requests of \<open>X\<close> are between places.
\<close>

definition lane_x :: "server_config \<Rightarrow> int \<Rightarrow> nat set \<Rightarrow> broker \<Rightarrow> bool" where
  "lane_x cfg k X b \<longleftrightarrow>
     ws.holds (br_scheduler b) (waiting_set b) \<and>
     br_staged b = inflight_count b + k \<and> br_staged b \<le> max_staged_tasks (sv_limits cfg) \<and>
     futures_ok b \<and> (\<forall>r < br_nreq b. r \<notin> X \<longrightarrow> served b r)"

abbreviation lane_inv :: "server_config \<Rightarrow> broker \<Rightarrow> bool" where
  "lane_inv cfg \<equiv> lane_x cfg 0 {}"

text \<open>The part of the state the invariant reads; most operations do not touch it.\<close>

definition lane where
  "lane b = (br_nreq b, (\<lambda>r. (rq_state (br_req b r), rq_local_future (br_req b r))), br_scheduler b, br_staged b,
     (\<lambda>f. (pf_request (br_fut b f), pf_state (br_fut b f), pf_phase (br_fut b f))), br_nfut b, br_dispatch b)"

named_theorems lane_simps "operations that leave the lane as it is"

lemma lane_cong:
  assumes "lane b = lane b'"
  shows "lane_x cfg k X b \<longleftrightarrow> lane_x cfg k X b'"
proof -
  have eqs: "br_nreq b = br_nreq b'" "br_scheduler b = br_scheduler b'" "br_staged b = br_staged b'"
    "br_nfut b = br_nfut b'" "br_dispatch b = br_dispatch b'"
    "\<And>r. rq_state (br_req b r) = rq_state (br_req b' r)"
    "\<And>r. rq_local_future (br_req b r) = rq_local_future (br_req b' r)"
    "\<And>f. pf_request (br_fut b f) = pf_request (br_fut b' f)"
    "\<And>f. pf_state (br_fut b f) = pf_state (br_fut b' f)"
    "\<And>f. pf_phase (br_fut b f) = pf_phase (br_fut b' f)"
    using assms by (auto simp: lane_def fun_eq_iff)
  show ?thesis
    unfolding lane_x_def waiting_set_def waiting_def inflight_count_def inflight_one_def futures_ok_def
      served_def inflight_def
    by (simp only: eqs)
qed

lemmas upd_defs = upd_req_def upd_sess_def upd_conn_def upd_fut_def upd_stats_def

lemma lane_upd_conn [lane_simps]: "lane (upd_conn c g b) = lane b"
  "lane (upd_stats h b) = lane b" "lane (upd_sess s k b) = lane b"
  "lane (conn_send cfg c kind control payload b) = lane b"
  "lane (conn_flush cfg c b) = lane b" "lane (conn_close cfg c b) = lane b"
  by (simp_all add: lane_def upd_defs conn_send_def conn_flush_def conn_close_def)

lemma lane_upd_req [lane_simps]:
  "(\<And>q. rq_state (g q) = rq_state q) \<Longrightarrow> (\<And>q. rq_local_future (g q) = rq_local_future q) \<Longrightarrow>
     lane (upd_req r g b) = lane b"
  by (auto simp: lane_def upd_defs fun_eq_iff)

lemma lane_fields [lane_simps]:
  "lane (b\<lparr>br_requests := x\<rparr>) = lane b" "lane (b\<lparr>br_sessions := y\<rparr>) = lane b"
  "lane (b\<lparr>br_client_sessions := z\<rparr>) = lane b" "lane (b\<lparr>br_reserved_outcomes := u\<rparr>) = lane b"
  "lane (b\<lparr>br_reserved_outcome_bytes := v\<rparr>) = lane b" "lane (b\<lparr>br_killed := w\<rparr>) = lane b"
  "lane (b\<lparr>br_connections := cs\<rparr>) = lane b" "lane (b\<lparr>br_raw_sockets := rs\<rparr>) = lane b"
  "lane (b\<lparr>br_state := st\<rparr>) = lane b" "lane (b\<lparr>br_ready := t\<rparr>) = lane b"
  "lane (b\<lparr>br_shutdown_phase := sp\<rparr>) = lane b"
  by (simp_all add: lane_def)

lemma lane_release [lane_simps]: "lane (release_reservation_locked s r b) = lane b"
  by (simp add: release_reservation_locked_def Let_def lane_simps)

lemma lane_remove_request [lane_simps]: "lane (remove_request_locked r b) = lane b"
  by (simp add: remove_request_locked_def Let_def lane_simps)

lemma lane_fold: "(\<And>x b. lane (g x b) = lane b) \<Longrightarrow> lane (fold g xs b) = lane b"
  by (induction xs arbitrary: b) auto

lemma lane_purge [lane_simps]: "lane (purge_session_locked s b) = lane b"
proof -
  have "lane (purge_record r b) = lane b" for r b
    by (simp add: purge_record_def lane_simps)
  then have "lane (fold purge_record rs b) = lane b" for rs b
    by (rule lane_fold)
  then show ?thesis
    by (simp add: purge_session_locked_def Let_def lane_simps)
qed

lemma lane_send_record [lane_simps]: "lane (send_record cfg r b) = lane b"
  by (cases "rq_state (br_req b r)"; cases "rq_terminal_kind (br_req b r)")
    (simp_all only: send_record_def Let_def lane_upd_conn request_state.case option.case)

lemma lane_reject [lane_simps]: "lane (reject cfg c i reason b) = lane b"
  by (simp add: reject_def lane_simps)

lemma lane_result_ack [lane_simps]: "lane (result_ack c control b) = lane b"
  by (simp add: result_ack_def lane_simps split: option.splits)

lemma lane_inv_cong: "lane b = lane b' \<Longrightarrow> lane_x cfg k X b' \<Longrightarrow> lane_x cfg k X b"
  using lane_cong [of b b'] by blast

subsection \<open>Terminal transitions\<close>

lemma lane_terminal:
  assumes "\<not> terminal (rq_state (br_req b r))"
  shows "lane (terminal_locked cfg r st kind control payload b) = lane (upd_req r (\<lambda>q. q\<lparr>rq_state := st\<rparr>) b)"
  using assms by (auto simp: terminal_locked_def lane_simps lane_def upd_defs fun_eq_iff conn_send_def)

lemma terminal_queued [simp]: "\<not> terminal ACCEPTED_QUEUED" "\<not> terminal RUNNING"
  by (simp_all add: terminal_def)

lemma state_lane_x:
  assumes "lane_x cfg k X b" and "r < br_nreq b" and "terminal st"
    and "rq_local_future (br_req b r) \<noteq> None"
  shows "lane_x cfg k (X - {r}) (upd_req r (\<lambda>q. q\<lparr>rq_state := st\<rparr>) b)"
proof -
  have "waiting_set (upd_req r (\<lambda>q. q\<lparr>rq_state := st\<rparr>) b) = waiting_set b"
    using assms(3,4) by (auto simp: waiting_set_def waiting_def upd_req_def)
  then show ?thesis
    using assms by (auto simp: lane_x_def upd_req_def inflight_count_def futures_ok_def served_def)
qed

lemma served_terminal: "terminal (rq_state (br_req b r)) \<Longrightarrow> served b r"
  by (simp add: served_def)

lemma lane_x_weaken: "lane_x cfg k X b \<Longrightarrow> X \<subseteq> Y \<Longrightarrow> lane_x cfg k Y b"
  by (auto simp: lane_x_def)

lemma lane_x_served: "lane_x cfg k X b \<Longrightarrow> served b r \<Longrightarrow> lane_x cfg k (X - {r}) b"
  by (auto simp: lane_x_def)

lemma terminal_lane_x:
  assumes "lane_x cfg k X b" and "r < br_nreq b" and "terminal st"
    and "rq_local_future (br_req b r) \<noteq> None \<or> terminal (rq_state (br_req b r))"
  shows "lane_x cfg k (X - {r}) (terminal_locked cfg r st kind control payload b)"
proof (cases "terminal (rq_state (br_req b r))")
  case True
  then show ?thesis
    using assms(1) served_terminal [OF True] by (simp add: terminal_locked_def lane_x_served)
next
  case False
  show ?thesis
    by (rule lane_inv_cong [OF lane_terminal [OF False] state_lane_x]) (use assms False in auto)
qed

text \<open>Taking a queued request out of the scheduler and ending it.\<close>

lemma unqueue_fields: "br_req (unqueue r b) = br_req b" "br_nreq (unqueue r b) = br_nreq b"
  "br_fut (unqueue r b) = br_fut b" "br_nfut (unqueue r b) = br_nfut b"
  "br_staged (unqueue r b) = br_staged b" "br_dispatch (unqueue r b) = br_dispatch b"
  by (simp_all add: unqueue_def)

lemma unqueue_holds:
  assumes "ws.holds (br_scheduler b) A"
  shows "ws.holds (br_scheduler (unqueue r b)) (A - {r})"
  using ws.remove_holds [OF assms, of r] by (auto simp: unqueue_def)

lemma unqueue_terminal_lane:
  assumes "lane_x cfg k X b" and "r < br_nreq b" and "terminal st"
  shows "lane_x cfg k X (terminal_locked cfg r st kind control payload (unqueue r b))"
proof (cases "terminal (rq_state (br_req b r))")
  case True
  then have "waiting_set b - {r} = waiting_set b"
    by (auto simp: waiting_set_def waiting_def)
  with True assms(1) unqueue_holds [of b "waiting_set b" r] show ?thesis
    by (simp add: terminal_locked_def lane_x_def waiting_set_def inflight_count_def futures_ok_def
        served_def unqueue_fields)
next
  case False
  let ?b = "upd_req r (\<lambda>q. q\<lparr>rq_state := st\<rparr>) (unqueue r b)"
  have "waiting_set ?b = waiting_set b - {r}"
    using assms(2,3) by (auto simp: waiting_set_def waiting_def upd_req_def unqueue_fields)
  then have "ws.holds (br_scheduler ?b) (waiting_set ?b)"
    using assms(1) unqueue_holds [of b "waiting_set b" r] by (simp add: lane_x_def upd_req_def)
  then have "lane_x cfg k X ?b"
    using assms by (auto simp: lane_x_def upd_req_def inflight_count_def futures_ok_def served_def unqueue_fields)
  moreover have "\<not> terminal (rq_state (br_req (unqueue r b) r))"
    using False by (simp add: unqueue_fields)
  ultimately show ?thesis
    by (rule lane_inv_cong [OF lane_terminal, rotated])
qed

subsection \<open>Completion\<close>

lemma sum_heap_update:
  fixes w :: "'a \<Rightarrow> int" and n :: nat
  assumes "f < n"
  shows "(\<Sum>i < n. w ((h(f := x)) i)) = (\<Sum>i < n. w (h i)) + w x - w (h f)"
proof -
  have "(\<Sum>i < n. w ((h(f := x)) i)) = w x + (\<Sum>i \<in> {..<n} - {f}. w ((h(f := x)) i))"
    using assms by (subst sum.remove [of _ f]) auto
  also have "(\<Sum>i \<in> {..<n} - {f}. w ((h(f := x)) i)) = (\<Sum>i \<in> {..<n} - {f}. w (h i))"
    by (intro sum.cong) auto
  finally show ?thesis
    using assms by (simp add: sum.remove [of _ f])
qed

lemma inflight_count_nonneg: "0 \<le> inflight_count b"
  by (simp add: inflight_count_def inflight_one_def sum_nonneg)

lemma unstage_lane:
  assumes "lane_x cfg 1 X b"
  shows "lane_x cfg 0 X (unstage r b)"
proof -
  have "br_staged b \<noteq> 0"
    using assms inflight_count_nonneg [of b] by (simp add: lane_x_def)
  then have "lane (unstage r b) = lane (b\<lparr>br_staged := br_staged b - 1\<rparr>)"
    by (simp add: unstage_def Let_def lane_simps)
  moreover have "lane_x cfg 0 X (b\<lparr>br_staged := br_staged b - 1\<rparr>)"
    using assms by (simp add: lane_x_def waiting_set_def inflight_count_def futures_ok_def served_def)
  ultimately show ?thesis by (rule lane_inv_cong)
qed

lemma outcome_terminal_state: "terminal (fst (outcome_terminal cfg i out))"
proof -
  have "terminal (fst (worker_mapping k))" for k
    by (cases k) (simp_all add: terminal_def)
  then show ?thesis
    by (cases out) (simp_all add: outcome_terminal_def terminal_def)
qed

lemma br_nreq_terminal [simp]: "br_nreq (terminal_locked cfg r st kind control payload b) = br_nreq b"
  by (simp add: terminal_locked_def conn_send_def upd_defs)

lemma complete_local_lane:
  assumes "lane_x cfg 1 {r} b" and "r < br_nreq b"
    and "rq_local_future (br_req b r) \<noteq> None \<or> terminal (rq_state (br_req b r))"
  shows "lane_inv cfg (complete_local cfg r out b)"
proof (cases "terminal (rq_state (br_req b r))")
  case True
  then show ?thesis
    using unstage_lane [OF lane_x_served [OF assms(1) served_terminal [OF True]]]
    by (simp add: complete_local_def)
next
  case False
  obtain st kind control payload where o: "outcome_terminal cfg (rq_request_id (br_req b r)) out = (st, kind, control, payload)"
    by (metis prod_cases4)
  have "terminal st"
    using outcome_terminal_state [of cfg "rq_request_id (br_req b r)" out] o by simp
  then have "lane_x cfg 1 {} (terminal_locked cfg r st kind control payload b)"
    using terminal_lane_x [OF assms(1,2) _ assms(3), of st kind control payload] by simp
  with False o show ?thesis
    by (simp add: complete_local_def unstage_lane)
qed

lemma nreq_lane: "lane b = lane b' \<Longrightarrow> br_nreq b = br_nreq b'"
  by (simp add: lane_def)

lemma nreq_unstage [simp]: "br_nreq (unstage r b) = br_nreq b"
proof -
  have "br_nreq (purge_session_locked s b) = br_nreq b" for s b
    by (rule nreq_lane) (simp add: lane_simps)
  then show ?thesis by (simp add: unstage_def Let_def)
qed

lemma nreq_complete_local [simp]: "br_nreq (complete_local cfg r out b) = br_nreq b"
  by (simp add: complete_local_def split: prod.splits)

lemma nreq_pool_done [simp]: "br_nreq (pool_done cfg f b) = br_nreq b"
  by (simp add: pool_done_def split: future_state.splits)

lemma nreq_future_cancel [simp]: "br_nreq (future_cancel cfg f b) = br_nreq b"
  by (simp add: future_cancel_def Let_def upd_fut_def)

lemma nreq_cancel_local_future [simp]: "br_nreq (cancel_local_future cfg r b) = br_nreq b"
  by (simp add: cancel_local_future_def split: option.splits)

lemma nreq_kill_local_future [simp]: "br_nreq (kill_local_future cfg r b) = br_nreq b"
  by (simp add: kill_local_future_def Let_def split: option.splits)

lemma nreq_cancel [simp]: "br_nreq (cancel_queued cfg r st kind reason b) = br_nreq b"
  "br_nreq (cancel_running cfg r reason b) = br_nreq b"
  by (simp_all add: cancel_queued_def cancel_running_def unqueue_fields)

subsection \<open>Futures\<close>

lemma upd_fut_lane:
  assumes inv: "lane_x cfg k X b" and f: "f < br_nfut b"
    and g: "pf_request (g (br_fut b f)) = pf_request (br_fut b f)"
      "pf_phase (g (br_fut b f)) = pf_phase (br_fut b f)"
      "inflight (g (br_fut b f)) \<Longrightarrow> inflight (br_fut b f)"
  shows "lane_x cfg (k + inflight_one (br_fut b f) - inflight_one (g (br_fut b f)))
    (X \<union> (if inflight (g (br_fut b f)) = inflight (br_fut b f) then {} else {pf_request (br_fut b f)}))
    (upd_fut f g b)"
proof -
  have cnt: "inflight_count (upd_fut f g b) =
      inflight_count b + inflight_one (g (br_fut b f)) - inflight_one (br_fut b f)"
    unfolding inflight_count_def upd_fut_def
    using sum_heap_update [OF f, of inflight_one "br_fut b" "g (br_fut b f)"] by simp
  have fut: "futures_ok (upd_fut f g b)"
    using inv g unfolding lane_x_def futures_ok_def upd_fut_def by auto
  have "served (upd_fut f g b) r"
    if r: "served b r" "r < br_nreq b" "inflight (g (br_fut b f)) = inflight (br_fut b f) \<or> r \<noteq> pf_request (br_fut b f)" for r
  proof -
    have "inflight (g (br_fut b f)) = inflight (br_fut b f)" if "rq_local_future (br_req b r) = Some f"
      using r inv that unfolding lane_x_def futures_ok_def by blast
    with r(1) g(2) show ?thesis by (fastforce simp: served_def upd_fut_def)
  qed
  with inv cnt fut show ?thesis
    by (auto simp: lane_x_def upd_fut_def waiting_set_def split: if_splits)
qed

lemma pool_done_lane:
  assumes "lane_x cfg 1 {pf_request (br_fut b f)} b" and "f < br_nfut b" and "pf_state (br_fut b f) \<noteq> F_pending"
    and "rq_local_future (br_req b (pf_request (br_fut b f))) \<noteq> None \<or>
      terminal (rq_state (br_req b (pf_request (br_fut b f))))"
  shows "lane_inv cfg (pool_done cfg f b)"
proof -
  have "pf_request (br_fut b f) < br_nreq b"
    using assms(1,2) by (simp add: lane_x_def futures_ok_def)
  then show ?thesis
    using complete_local_lane [OF assms(1) _ assms(4)] assms(3)
    by (auto simp: pool_done_def split: future_state.splits)
qed

text \<open>Ending a pending future: with the callback attached the completion runs at once.\<close>

lemma end_future_lane:
  assumes inv: "lane_inv cfg b" and f: "f < br_nfut b" "pf_state (br_fut b f) = F_pending"
    and st: "st \<noteq> F_pending"
    and r: "rq_local_future (br_req b (pf_request (br_fut b f))) \<noteq> None \<or>
      terminal (rq_state (br_req b (pf_request (br_fut b f))))"
  shows "lane_inv cfg (let b' = upd_fut f (\<lambda>p. p\<lparr>pf_state := st\<rparr>) b
           in if pf_phase (br_fut b f) = P_attached then pool_done cfg f b' else b')"
proof -
  let ?b = "upd_fut f (\<lambda>p. p\<lparr>pf_state := st\<rparr>) b"
  have upd: "lane_x cfg (0 + inflight_one (br_fut b f) - inflight_one ((br_fut b f)\<lparr>pf_state := st\<rparr>))
    ({} \<union> (if inflight ((br_fut b f)\<lparr>pf_state := st\<rparr>) = inflight (br_fut b f) then {} else {pf_request (br_fut b f)})) ?b"
    by (rule upd_fut_lane [OF inv f(1), where g = "\<lambda>p. p\<lparr>pf_state := st\<rparr>"])
      (use st in \<open>auto simp: inflight_def\<close>)
  show ?thesis
  proof (cases "pf_phase (br_fut b f) = P_attached")
    case True
    then have "lane_x cfg 1 {pf_request (br_fut ?b f)} ?b"
      using upd f st by (simp add: inflight_one_def inflight_def upd_fut_def)
    then have "lane_inv cfg (pool_done cfg f ?b)"
      by (rule pool_done_lane) (use f st r in \<open>auto simp: upd_fut_def\<close>)
    with True show ?thesis by simp
  next
    case False
    then have "lane_inv cfg ?b"
      using upd by (simp add: inflight_one_def inflight_def)
    with False show ?thesis by simp
  qed
qed

lemma future_cancel_lane:
  assumes "lane_inv cfg b" and "f < br_nfut b" and "terminal (rq_state (br_req b (pf_request (br_fut b f))))"
  shows "lane_inv cfg (future_cancel cfg f b)"
  using end_future_lane [of cfg b f F_cancelled] assms by (auto simp: future_cancel_def Let_def)

lemma local_future_ok:
  assumes "lane_x cfg k X b" and "r < br_nreq b" and "rq_local_future (br_req b r) = Some f"
  shows "f < br_nfut b" "pf_request (br_fut b f) = r"
  using assms by (auto simp: lane_x_def futures_ok_def)

lemma cancel_local_future_lane:
  assumes "lane_inv cfg b" and "r < br_nreq b" and "terminal (rq_state (br_req b r))"
  shows "lane_inv cfg (cancel_local_future cfg r b)"
  using assms local_future_ok [OF assms(1,2)] future_cancel_lane [OF assms(1)]
  by (auto simp: cancel_local_future_def split: option.splits)

lemma kill_local_future_lane:
  assumes "lane_inv cfg b" and "r < br_nreq b" and "terminal (rq_state (br_req b r))"
  shows "lane_inv cfg (kill_local_future cfg r b)"
proof -
  have "lane (kill_local_future cfg r b) = lane (cancel_local_future cfg r b)"
    by (simp add: kill_local_future_def cancel_local_future_def Let_def lane_simps split: option.splits)
  then show ?thesis
    using cancel_local_future_lane [OF assms] by (rule lane_inv_cong)
qed

lemma terminal_locked_state:
  "terminal st \<Longrightarrow> terminal (rq_state (br_req (terminal_locked cfg r st kind control payload b) r))"
  by (simp add: terminal_locked_def conn_send_def upd_defs)

lemma cancel_queued_lane:
  assumes "lane_inv cfg b" and "r < br_nreq b" and "terminal st"
  shows "lane_inv cfg (cancel_queued cfg r st kind reason b)"
  unfolding cancel_queued_def
  by (rule cancel_local_future_lane [OF unqueue_terminal_lane [OF assms]])
    (use assms in \<open>simp_all add: unqueue_fields terminal_locked_state\<close>)

lemma running_future:
  assumes "lane_inv cfg b" and "r < br_nreq b" and "rq_state (br_req b r) = RUNNING"
  shows "rq_local_future (br_req b r) \<noteq> None"
  using assms by (auto simp: lane_x_def served_def terminal_def)

lemma cancel_running_lane:
  assumes "lane_inv cfg b" and "r < br_nreq b" and "rq_state (br_req b r) = RUNNING"
  shows "lane_inv cfg (cancel_running cfg r reason b)"
proof -
  have c: "terminal CANCELLED" by (simp add: terminal_def)
  have "lane_x cfg 0 ({} - {r}) (terminal_locked cfg r CANCELLED M_CANCELLED (ctl [(''reason'', J reason)]) [] b)"
    by (rule terminal_lane_x [OF assms(1,2) c]) (use running_future [OF assms] in simp)
  then show ?thesis
    unfolding cancel_running_def
    by (intro kill_local_future_lane) (use assms c in \<open>simp_all add: terminal_locked_state\<close>)
qed

lemma fold_lane:
  assumes "\<And>r b. lane_inv cfg b \<Longrightarrow> r < br_nreq b \<Longrightarrow> lane_inv cfg (g r b)"
    and "\<And>r b. br_nreq (g r b) = br_nreq b"
  shows "lane_inv cfg b \<Longrightarrow> \<forall>r \<in> set rs. r < br_nreq b \<Longrightarrow>
    lane_inv cfg (fold g rs b) \<and> br_nreq (fold g rs b) = br_nreq b"
  using assms by (induction rs arbitrary: b) auto

subsection \<open>Dispatch\<close>

definition refs_ok :: "broker \<Rightarrow> bool" where
  "refs_ok b \<longleftrightarrow> (\<forall>r \<in> snd ` set (br_requests b). r < br_nreq b) \<and>
     (\<forall>s. \<forall>r \<in> snd ` set (ss_requests (br_sess b s)). r < br_nreq b)"

lemma expire_record_lane:
  "lane_inv cfg b \<Longrightarrow> r < br_nreq b \<Longrightarrow> lane_inv cfg (expire_record cfg now r b)"
  by (auto simp: expire_record_def terminal_def intro!: cancel_queued_lane)

lemma nreq_expire_record [simp]: "br_nreq (expire_record cfg now r b) = br_nreq b"
  by (simp add: expire_record_def)

lemma expire_queued_lane:
  assumes "lane_inv cfg b" and "refs_ok b"
  shows "lane_inv cfg (expire_queued_locked cfg now b)" "br_nreq (expire_queued_locked cfg now b) = br_nreq b"
  using fold_lane [of cfg "expire_record cfg now" b "map snd (br_requests b)"] assms
  by (auto simp: expire_queued_locked_def refs_ok_def expire_record_lane)

lemma stage_lane:
  assumes inv: "lane_inv cfg b" and r: "r \<in> waiting_set b" and idle: "br_dispatch b = D_idle"
    and s: "ws.holds s (waiting_set b - {r})" and room: "br_staged b < max_staged_tasks (sv_limits cfg)"
  shows "lane_inv cfg ((upd_req r (\<lambda>q. q\<lparr>rq_local_future := Some (br_nfut b)\<rparr>)
      (b\<lparr>br_scheduler := s, br_fut := (br_fut b)(br_nfut b := \<lparr>pf_request = r, pf_state = F_pending,
          pf_phase = P_staged, pf_pid = None\<rparr>), br_nfut := Suc (br_nfut b)\<rparr>))
      \<lparr>br_staged := br_staged b + 1, br_dispatch := D_submitting (br_nfut b)\<rparr>)"
    (is "lane_inv cfg ?b")
proof -
  have "r < br_nreq b" "waiting (br_req b r)" using r by (auto simp: waiting_set_def)
  have ws: "waiting_set ?b = waiting_set b - {r}"
    by (auto simp: waiting_set_def waiting_def upd_req_def)
  have cnt: "inflight_count ?b = inflight_count b + 1"
    by (auto simp: inflight_count_def upd_req_def inflight_one_def inflight_def)
  have old: "br_fut ?b f = br_fut b f" if "f < br_nfut b" for f
    using that by (simp add: upd_req_def)
  have fut: "futures_ok ?b"
    using inv \<open>r < br_nreq b\<close> \<open>waiting (br_req b r)\<close> idle
    unfolding lane_x_def futures_ok_def waiting_def
    by (auto simp: upd_req_def less_Suc_eq)
  have "served ?b x" if "x < br_nreq b" for x
  proof (cases "x = r")
    case True
    then show ?thesis
      using \<open>waiting (br_req b r)\<close> by (simp add: served_def upd_req_def inflight_def waiting_def)
  next
    case False
    have "served b x" using inv that by (simp add: lane_x_def)
    moreover have "rq_local_future (br_req b x) = Some f \<Longrightarrow> f < br_nfut b" for f
      using local_future_ok [OF inv that] by blast
    ultimately show ?thesis using False by (fastforce simp: served_def upd_req_def)
  qed
  then show ?thesis
    using inv ws cnt fut s room by (simp add: lane_x_def upd_req_def)
qed

lemma dispatch_expire [simp]: "br_dispatch (expire_queued_locked cfg now b) = br_dispatch b"
proof -
  have send: "br_dispatch (terminal_locked cfg r st kind control payload b) = br_dispatch b"
    "br_dispatch (unqueue r b) = br_dispatch b" for r st kind control payload b
    by (simp_all add: terminal_locked_def conn_send_def upd_defs unqueue_def)
  have purge: "br_dispatch (purge_session_locked s b) = br_dispatch b" for s b
    using lane_purge [of s b] by (simp add: lane_def)
  have "br_dispatch (future_cancel cfg f b) = br_dispatch b" for f b
    by (auto simp: future_cancel_def Let_def pool_done_def complete_local_def unstage_def purge send upd_fut_def
        split: future_state.splits prod.splits)
  then have "br_dispatch (expire_record cfg now r b) = br_dispatch b" for r b
    by (simp add: expire_record_def cancel_queued_def cancel_local_future_def send split: option.splits)
  then have "br_dispatch (fold (expire_record cfg now) rs b) = br_dispatch b" for rs b
    by (induction rs arbitrary: b) auto
  then show ?thesis by (simp add: expire_queued_locked_def)
qed

lemma dispatch_next_lane:
  assumes "lane_inv cfg b" and "refs_ok b"
  shows "lane_inv cfg (dispatch_next cfg now b)"
proof (cases "br_dispatch b = D_idle")
  case True
  define b1 where "b1 = expire_queued_locked cfg now b"
  have b1: "lane_inv cfg b1" "br_dispatch b1 = D_idle"
    using expire_queued_lane [OF assms] True by (simp_all add: b1_def)
  show ?thesis
  proof (cases "br_state b1 \<notin> {SRV_RUNNING, DRAINING} \<or> \<not> sched_bool (br_scheduler b1) \<or>
      br_staged b1 \<ge> max_staged_tasks (sv_limits cfg)")
    case blocked: True
    then have "dispatch_next cfg now b = b1"
      using True by (simp add: dispatch_next_def b1_def Let_def)
    with b1 show ?thesis by simp
  next
    case False
    then obtain r s where p: "sched_pop (br_scheduler b1) = Inr (r, s)" "r \<in> waiting_set b1"
        "ws.holds s (waiting_set b1 - {r})"
      using ws.pop_holds [of "br_scheduler b1" "waiting_set b1"] b1(1) by (auto simp: lane_x_def)
    have "rq_state (br_req b1 r) = ACCEPTED_QUEUED"
      using p(2) by (simp add: waiting_set_def waiting_def)
    then have "dispatch_next cfg now b = (upd_req r (\<lambda>q. q\<lparr>rq_local_future := Some (br_nfut b1)\<rparr>)
      (b1\<lparr>br_scheduler := s, br_fut := (br_fut b1)(br_nfut b1 := \<lparr>pf_request = r, pf_state = F_pending,
          pf_phase = P_staged, pf_pid = None\<rparr>), br_nfut := Suc (br_nfut b1)\<rparr>))
      \<lparr>br_staged := br_staged b1 + 1, br_dispatch := D_submitting (br_nfut b1)\<rparr>"
      using True False p(1) by (auto simp: dispatch_next_def b1_def [symmetric] Let_def)
    with stage_lane [OF b1(1) p(2) b1(2) p(3)] False show ?thesis by simp
  qed
qed (use assms in \<open>simp add: dispatch_next_def\<close>)


lemma submitted_future:
  assumes "lane_inv cfg b" and "br_dispatch b = D_submitting f \<or> br_dispatch b = D_attaching f"
  shows "f < br_nfut b" "pf_request (br_fut b f) < br_nreq b" "inflight (br_fut b f)"
    "rq_local_future (br_req b (pf_request (br_fut b f))) = Some f"
    "br_dispatch b = D_submitting f \<Longrightarrow> pf_phase (br_fut b f) = P_staged"
    "br_dispatch b = D_attaching f \<Longrightarrow> pf_phase (br_fut b f) = P_in_pool"
  using assms unfolding lane_x_def futures_ok_def by (auto simp: inflight_def)

lemma phase_futures_ok:
  assumes "futures_ok b" and "br_dispatch b = D_submitting f \<or> br_dispatch b = D_attaching f"
    and "ph = P_dropped \<and> d = D_idle \<or> ph = P_attached \<and> d = D_idle \<or> ph = P_in_pool \<and> d = D_attaching f"
  shows "futures_ok ((upd_fut f (\<lambda>p. p\<lparr>pf_phase := ph\<rparr>) b)\<lparr>br_dispatch := d\<rparr>)"
proof -
  have "f < br_nfut b" and "inflight (br_fut b f)"
    using assms(1,2) by (auto simp: futures_ok_def inflight_def)
  then show ?thesis
    using assms unfolding futures_ok_def upd_fut_def by (auto simp: inflight_def)
qed

lemma pool_accepts_lane:
  assumes inv: "lane_inv cfg b" and d: "br_dispatch b = D_submitting f"
  shows "lane_inv cfg ((upd_fut f (\<lambda>p. p\<lparr>pf_phase := P_in_pool\<rparr>) b)\<lparr>br_dispatch := D_attaching f\<rparr>)"
    (is "lane_inv cfg ?b")
proof -
  note f = submitted_future [OF inv disjI1 [OF d]]
  have inf: "inflight (br_fut ?b x) = inflight (br_fut b x)" for x
    using f(3) by (auto simp: upd_fut_def inflight_def)
  then have "inflight_count ?b = inflight_count b"
    by (simp add: inflight_count_def inflight_one_def) (simp add: upd_fut_def)
  moreover have "futures_ok ?b"
    using inv d by (intro phase_futures_ok) (auto simp: lane_x_def)
  moreover have "served ?b x" if "served b x" for x
    using that by (fastforce simp: served_def upd_fut_def inflight_def)
  ultimately show ?thesis
    using inv by (auto simp: lane_x_def) (simp_all add: upd_fut_def waiting_set_def)
qed

text \<open>A future the pool refused, and one whose completion is about to run, leave the count of flights.\<close>

lemma phase_lane_x:
  assumes inv: "lane_inv cfg b" and d: "br_dispatch b = D_submitting f \<or> br_dispatch b = D_attaching f"
    and ph: "ph = P_dropped \<or> ph = P_attached"
    and fin: "\<not> inflight ((br_fut b f)\<lparr>pf_phase := ph\<rparr>)"
  shows "lane_x cfg 1 {pf_request (br_fut b f)} ((upd_fut f (\<lambda>p. p\<lparr>pf_phase := ph\<rparr>) b)\<lparr>br_dispatch := D_idle\<rparr>)"
    (is "lane_x cfg 1 _ ?b")
proof -
  note f = submitted_future [OF inv d]
  have "inflight_count ?b = inflight_count b - 1"
    using sum_heap_update [OF f(1), of inflight_one "br_fut b" "(br_fut b f)\<lparr>pf_phase := ph\<rparr>"] f(3) fin
    by (simp add: inflight_count_def inflight_one_def upd_fut_def)
  moreover have "futures_ok ?b"
    using inv d ph by (intro phase_futures_ok) (auto simp: lane_x_def)
  moreover have "served ?b x" if "x < br_nreq b" "x \<noteq> pf_request (br_fut b f)" for x
  proof -
    have "served b x" using inv that by (simp add: lane_x_def)
    moreover have "rq_local_future (br_req b x) \<noteq> Some f"
      using local_future_ok(2) [OF inv that(1)] that(2) by blast
    ultimately show ?thesis by (auto simp: served_def upd_fut_def)
  qed
  ultimately show ?thesis
    using inv by (auto simp: lane_x_def upd_fut_def waiting_set_def)
qed

lemma drop_future_ok:
  assumes "futures_ok b" and "rq_local_future (br_req b r) = Some f" and "\<not> inflight (br_fut b f)"
  shows "futures_ok (upd_req r (\<lambda>q. q\<lparr>rq_local_future := None\<rparr>) b)"
proof -
  let ?b = "upd_req r (\<lambda>q. q\<lparr>rq_local_future := None\<rparr>) b"
  have "pf_request (br_fut b x) \<noteq> r" if "x < br_nfut b" "inflight (br_fut b x)" for x
  proof
    assume "pf_request (br_fut b x) = r"
    then have "Some x = Some f" using assms(1,2) that unfolding futures_ok_def by force
    with assms(3) that(2) show False by simp
  qed
  then show ?thesis
    using assms(1) unfolding futures_ok_def upd_req_def by (simp add: if_distrib cong: if_cong)
qed

lemma pool_full_lane:
  assumes inv: "lane_inv cfg b" and d: "br_dispatch b = D_submitting f"
  shows "lane_inv cfg (dispatch_submit cfg Pool_full b)"
proof -
  define r where "r = pf_request (br_fut b f)"
  note f = submitted_future [OF inv disjI1 [OF d], folded r_def]
  define b1 where "b1 = (upd_fut f (\<lambda>p. p\<lparr>pf_phase := P_dropped\<rparr>) b)\<lparr>br_dispatch := D_idle\<rparr>"
  define b2 where "b2 = (upd_req r (\<lambda>q. q\<lparr>rq_local_future := None\<rparr>) b1)\<lparr>br_staged := br_staged b - 1\<rparr>"
  have x1: "lane_x cfg 1 {r} b1"
    unfolding b1_def r_def by (rule phase_lane_x [OF inv]) (use d in \<open>simp_all add: inflight_def\<close>)
  have b1: "br_req b1 = br_req b" "br_nreq b1 = br_nreq b" "br_staged b1 = br_staged b"
    "br_scheduler b1 = br_scheduler b" "\<not> inflight (br_fut b1 f)"
    by (simp_all add: b1_def upd_fut_def inflight_def)
  have b2: "br_fut b2 = br_fut b1" "br_nfut b2 = br_nfut b1" "br_nreq b2 = br_nreq b" "br_staged b2 = br_staged b - 1"
    "br_scheduler b2 = br_scheduler b" "br_dispatch b2 = br_dispatch b1"
    "br_req b2 = (br_req b)(r := (br_req b r)\<lparr>rq_local_future := None\<rparr>)"
    by (simp_all add: b2_def upd_req_def b1)
  have w: "waiting_set b2 = (if rq_state (br_req b r) = ACCEPTED_QUEUED then insert r (waiting_set b) else waiting_set b)"
    "r \<notin> waiting_set b"
    using f(2,4) by (auto simp: b2 waiting_set_def waiting_def)
  have "futures_ok (upd_req r (\<lambda>q. q\<lparr>rq_local_future := None\<rparr>) b1)"
    using x1 by (intro drop_future_ok [where f = f]) (use f b1 in \<open>simp_all add: lane_x_def\<close>)
  then have "futures_ok b2" by (simp add: futures_ok_def b2_def)
  moreover have "inflight_count b2 = inflight_count b1"
    by (simp add: inflight_count_def b2)
  moreover have "served b2 x" if "x < br_nreq b" for x
  proof (cases "x = r")
    case True
    have "served b r" using inv f(2) by (simp add: lane_x_def)
    then have "terminal (rq_state (br_req b r)) \<or> rq_state (br_req b r) = ACCEPTED_QUEUED"
      using f(4) f(5) [OF d] by (auto simp: served_def)
    then show ?thesis by (auto simp: served_def b2 True)
  next
    case False
    then have "served b1 x" using x1 that b1 by (simp add: lane_x_def)
    with False show ?thesis by (auto simp: served_def b2 b1)
  qed
  ultimately have rest: "br_staged b2 = inflight_count b2" "br_staged b2 \<le> max_staged_tasks (sv_limits cfg)"
      "futures_ok b2" "\<forall>x < br_nreq b2. served b2 x"
    using x1 b1 b2 by (auto simp: lane_x_def)
  have hold: "ws.holds (br_scheduler b) (waiting_set b)"
    using inv by (simp add: lane_x_def)
  define b3 where "b3 = (if rq_state (br_req b2 r) = ACCEPTED_QUEUED
      then b2\<lparr>br_scheduler := sched_put_front r (rq_priority (br_req b2 r)) (rq_principal (br_req b2 r)) (br_scheduler b2)\<rparr>
      else b2)"
  have "ws.holds (br_scheduler b3) (waiting_set b2)"
    using hold ws.put_holds [OF hold w(2)] w(1) by (simp add: b3_def b2 sched_put_front_def)
  then have "lane_inv cfg b3"
    using rest by (auto simp: b3_def lane_x_def waiting_set_def inflight_count_def futures_ok_def served_def)
  moreover have "dispatch_submit cfg Pool_full b = b3"
    using d by (simp add: dispatch_submit_def b3_def b2_def b1_def r_def [symmetric] Let_def)
      (simp add: upd_fut_def upd_req_def)
  ultimately show ?thesis by simp
qed

lemma dispatch_submit_lane:
  assumes inv: "lane_inv cfg b"
  shows "lane_inv cfg (dispatch_submit cfg answer b)"
proof (cases "br_dispatch b")
  case (D_submitting f)
  note f = submitted_future [OF inv disjI1 [OF D_submitting]]
  show ?thesis
  proof (cases answer)
    case Pool_ok
    then show ?thesis
      using pool_accepts_lane [OF inv D_submitting] D_submitting by (simp add: dispatch_submit_def Let_def)
  next
    case Pool_full
    then show ?thesis using pool_full_lane [OF inv D_submitting] by simp
  next
    case (Pool_raised out)
    have "lane_x cfg 1 {pf_request (br_fut b f)}
        ((upd_fut f (\<lambda>p. p\<lparr>pf_phase := P_dropped\<rparr>) b)\<lparr>br_dispatch := D_idle\<rparr>)"
      by (rule phase_lane_x [OF inv]) (use D_submitting in \<open>simp_all add: inflight_def\<close>)
    then have "lane_inv cfg (complete_local cfg (pf_request (br_fut b f)) out
        ((upd_fut f (\<lambda>p. p\<lparr>pf_phase := P_dropped\<rparr>) b)\<lparr>br_dispatch := D_idle\<rparr>))"
      by (rule complete_local_lane) (use f in \<open>simp_all add: upd_fut_def\<close>)
    then show ?thesis using Pool_raised D_submitting by (simp add: dispatch_submit_def Let_def)
  qed
qed (use inv in \<open>simp_all add: dispatch_submit_def\<close>)

lemma dispatch_attach_lane:
  assumes inv: "lane_inv cfg b"
  shows "lane_inv cfg (dispatch_attach cfg b)"
proof (cases "br_dispatch b")
  case (D_attaching f)
  note f = submitted_future [OF inv disjI2 [OF D_attaching]]
  let ?r = "pf_request (br_fut b f)"
  let ?b0 = "upd_req ?r (\<lambda>q. q\<lparr>rq_payload := []\<rparr>) b"
  let ?b1 = "(upd_fut f (\<lambda>p. p\<lparr>pf_phase := P_attached\<rparr>) ?b0)\<lparr>br_dispatch := D_idle\<rparr>"
  have inv0: "lane_inv cfg ?b0"
    by (rule lane_inv_cong [OF _ inv]) (simp add: lane_simps)
  have same: "br_fut ?b0 = br_fut b" "br_dispatch ?b0 = D_attaching f"
    using D_attaching by (simp_all add: upd_req_def)
  show ?thesis
  proof (cases "pf_state (br_fut b f) = F_pending")
    case True
    have inf: "inflight (br_fut ?b1 x) = inflight (br_fut ?b0 x)" for x
      using True f(3) by (auto simp: upd_fut_def inflight_def upd_req_def)
    then have "inflight_count ?b1 = inflight_count ?b0"
      by (simp add: inflight_count_def inflight_one_def) (simp add: upd_fut_def)
    moreover have "futures_ok ?b1"
      using inv0 same by (intro phase_futures_ok) (auto simp: lane_x_def)
    moreover have "served ?b1 x" if "served ?b0 x" for x
      using that True by (fastforce simp: served_def upd_fut_def upd_req_def inflight_def)
    ultimately have "lane_inv cfg ?b1"
      using inv0 by (auto simp: lane_x_def) (simp_all add: upd_fut_def waiting_set_def)
    with True D_attaching show ?thesis by (simp add: dispatch_attach_def Let_def)
  next
    case False
    have "lane_x cfg 1 {pf_request (br_fut ?b0 f)} ?b1"
      by (rule phase_lane_x [OF inv0]) (use same False in \<open>simp_all add: inflight_def\<close>)
    then have "lane_inv cfg (pool_done cfg f ?b1)"
      by (intro pool_done_lane) (use f False in \<open>simp_all add: upd_fut_def upd_req_def\<close>)
    with False D_attaching show ?thesis by (simp add: dispatch_attach_def Let_def)
  qed
qed (use inv in \<open>simp_all add: dispatch_attach_def\<close>)

subsection \<open>The pool's callbacks\<close>

lemma lane_publish [lane_simps]: "lane (publish_running cfg r pid b) = lane b"
  by (auto simp: publish_running_def Let_def lane_simps lane_def upd_defs conn_send_def fun_eq_iff split: option.splits)

lemma running_lane:
  assumes inv: "lane_inv cfg b" and f: "rq_local_future (br_req b r) = Some f" "pf_phase (br_fut b f) \<noteq> P_staged"
    and st: "rq_state (br_req b r) = ACCEPTED_QUEUED" and r: "r < br_nreq b"
  shows "lane_inv cfg (upd_req r (\<lambda>q. q\<lparr>rq_state := RUNNING\<rparr>) b)" (is "lane_inv cfg ?b")
proof -
  have "waiting_set ?b = waiting_set b"
    using f by (auto simp: waiting_set_def waiting_def upd_req_def)
  moreover have "inflight (br_fut b f)"
    using inv f st r by (auto simp: lane_x_def served_def)
  then have "served ?b x" if "served b x" for x
    using that f by (auto simp: served_def upd_req_def)
  ultimately show ?thesis
    using inv by (auto simp: lane_x_def futures_ok_def inflight_count_def upd_req_def)
qed

lemma pool_holds_future:
  assumes inv: "lane_inv cfg b" and f: "pool_holds f b"
  shows "f < br_nfut b" "pf_state (br_fut b f) = F_pending" "pf_phase (br_fut b f) \<noteq> P_staged"
    "pf_request (br_fut b f) < br_nreq b" "rq_local_future (br_req b (pf_request (br_fut b f))) = Some f"
proof -
  show "f < br_nfut b" "pf_state (br_fut b f) = F_pending" "pf_phase (br_fut b f) \<noteq> P_staged"
    using f by (auto simp: pool_holds_def)
  moreover have "inflight (br_fut b f)"
    using f by (auto simp: pool_holds_def inflight_def)
  ultimately show "pf_request (br_fut b f) < br_nreq b"
      "rq_local_future (br_req b (pf_request (br_fut b f))) = Some f"
    using inv unfolding lane_x_def futures_ok_def by blast+
qed

lemma claim_dispatch_lane:
  assumes inv: "lane_inv cfg b" and f: "pool_holds f b"
  shows "lane_inv cfg (fst (claim_dispatch cfg (pf_request (br_fut b f)) pid now b))"
proof -
  let ?r = "pf_request (br_fut b f)"
  note r = pool_holds_future(4,5,3) [OF inv f]
  have q: "terminal QUEUE_TIMED_OUT" by (simp add: terminal_def)
  have expire: "lane_inv cfg (cancel_local_future cfg ?r
      (terminal_locked cfg ?r QUEUE_TIMED_OUT M_QUEUE_TIMED_OUT control payload b))" for control payload
    using terminal_lane_x [OF inv r(1) q, of M_QUEUE_TIMED_OUT control payload] r q
    by (intro cancel_local_future_lane) (simp_all add: terminal_locked_state)
  have claim: "lane_inv cfg (publish_running cfg ?r pid
      (upd_stats g (upd_req ?r (\<lambda>q. q\<lparr>rq_state := RUNNING\<rparr>) b)))"
    if "rq_state (br_req b ?r) = ACCEPTED_QUEUED" for g
    by (rule lane_inv_cong [OF _ running_lane [OF inv r(2,3) that r(1)]]) (simp add: lane_simps)
  have again: "lane_inv cfg (publish_running cfg ?r pid b)"
    by (rule lane_inv_cong [OF _ inv]) (simp add: lane_simps)
  show ?thesis
    using expire claim again inv by (simp add: claim_dispatch_def)
qed

lemma pool_claims_lane: "lane_inv cfg b \<Longrightarrow> lane_inv cfg (pool_claims cfg f pid now b)"
  by (simp add: pool_claims_def claim_dispatch_lane)

lemma pool_finishes_lane:
  assumes "lane_inv cfg b"
  shows "lane_inv cfg (pool_finishes cfg f out b)"
proof (cases "pool_holds f b")
  case True
  note f = pool_holds_future [OF assms True]
  show ?thesis
    using end_future_lane [OF assms f(1,2), of "F_finished out"] f(5) True by (simp add: pool_finishes_def)
qed (use assms in \<open>simp add: pool_finishes_def\<close>)

subsection \<open>Client messages\<close>

lemma accept_request_lane:
  assumes inv: "lane_inv cfg b" and q: "rq_state q = ACCEPTED_QUEUED" "rq_local_future q = None"
  shows "lane_inv cfg (accept_request cfg s q b)"
proof -
  let ?r = "br_nreq b"
  let ?b = "b\<lparr>br_req := (br_req b)(?r := q), br_nreq := Suc ?r,
      br_scheduler := sched_put ?r (rq_priority q) (rq_principal q) (br_scheduler b)\<rparr>"
  have "lane (accept_request cfg s q b) = lane ?b"
    by (simp add: accept_request_def Let_def lane_def upd_defs conn_send_def)
  moreover have "lane_inv cfg ?b"
  proof -
    have w: "waiting_set ?b = insert ?r (waiting_set b)" "?r \<notin> waiting_set b"
      using q by (auto simp: waiting_set_def waiting_def)
    have "ws.holds (br_scheduler ?b) (waiting_set ?b)"
      using inv ws.put_holds [of "br_scheduler b" "waiting_set b" ?r] w
      by (simp add: lane_x_def sched_put_def)
    moreover have "futures_ok ?b"
    proof -
      have "pf_request (br_fut b f) \<noteq> ?r" "pf_request (br_fut b f) < Suc ?r" if "f < br_nfut b" for f
        using inv that by (auto simp: lane_x_def futures_ok_def less_Suc_eq)
      with inv q(2) show ?thesis
        unfolding lane_x_def futures_ok_def by (simp add: less_Suc_eq)
    qed
    moreover have "served ?b x" if "x < Suc ?r" for x
    proof (cases "x = ?r")
      case False
      then have "served b x" using inv that by (simp add: lane_x_def)
      with False show ?thesis by (simp add: served_def)
    qed (simp add: served_def q)
    ultimately show ?thesis
      using inv by (simp add: lane_x_def inflight_count_def)
  qed
  ultimately show ?thesis by (rule lane_inv_cong)
qed

lemma submit_new_lane:
  assumes inv: "lane_inv cfg b"
  shows "lane_inv cfg (fst (submit_new cfg c s i digest m now b))"
proof -
  have rej: "lane_inv cfg (reject cfg c i reason b)" for reason
    by (rule lane_inv_cong [OF _ inv]) (simp add: lane_simps)
  have acc: "lane_inv cfg (accept_request cfg s (new_request i digest ss s c mode control payload now nums) b)"
    for mode ss control payload nums
    by (rule accept_request_lane [OF inv]) (simp_all add: new_request_def)
  show ?thesis
    using rej acc inv by (simp add: submit_new_def split: sum.splits prod.splits bool.splits)
qed

lemma submit_lane:
  assumes inv: "lane_inv cfg b"
  shows "lane_inv cfg (fst (submit cfg c m now b))"
proof -
  have upd: "lane_inv cfg (upd_stats g b)" for g
    by (rule lane_inv_cong [OF _ inv]) (simp add: lane_simps)
  have "lane_inv cfg (fst (submit_locked cfg c s i sequence digest m now b))" if b: "lane_inv cfg b" for s i sequence digest b
  proof -
    have "lane_inv cfg (upd_sess s g b)" "lane_inv cfg (reject cfg c i reason b)" "lane_inv cfg (send_record cfg r b)"
      for g r reason
      by (rule lane_inv_cong [OF _ b], simp add: lane_simps)+
    with b show ?thesis
      by (simp add: submit_locked_def submit_new_lane split: option.splits)
  qed
  with upd inv show ?thesis
    by (simp add: submit_def Let_def split: option.splits)
qed

lemma owned_request_ref: "refs_ok b \<Longrightarrow> owned_request c v b = Some r \<Longrightarrow> r < br_nreq b"
  by (force simp: owned_request_def refs_ok_def dest: map_of_SomeD split: option.splits)

lemma lane_inv_send: "lane_inv cfg b \<Longrightarrow> lane_inv cfg (conn_send cfg c kind control payload b)"
  by (erule lane_inv_cong [rotated]) (simp add: lane_simps)

lemma terminal_cancelled [simp]: "terminal CANCELLED"
  by (simp add: terminal_def)

lemma cancel_decision_lane:
  assumes "lane_inv cfg b" and "\<And>r. found = Some r \<Longrightarrow> r < br_nreq b"
    and "cancel_decision cfg c found hard control b = Inr (b', response)"
  shows "lane_inv cfg b'"
  using assms
  by (auto simp: cancel_decision_def intro: cancel_queued_lane cancel_running_lane
      split: option.splits if_splits sum.splits bool.splits)

lemma cancel_request_lane:
  assumes "lane_inv cfg b" and "refs_ok b"
  shows "lane_inv cfg (fst (cancel_request cfg c control b))"
proof -
  have "lane_inv cfg b'" if "cancel_decision cfg c (owned_request c v b) hard control b = Inr (b', response)"
    for v hard b' response
    by (rule cancel_decision_lane [OF assms(1) owned_request_ref [OF assms(2)] that])
  with assms show ?thesis
    by (auto simp: cancel_request_def intro!: lane_inv_send split: sum.splits prod.splits)
qed

lemma cancel_group_loop_lane:
  "lane_inv cfg b \<Longrightarrow> \<forall>r \<in> set rs. r < br_nreq b \<Longrightarrow>
     lane_inv cfg (fst (cancel_group_loop cfg c hard control rs counts b))"
proof (induction cfg c hard control rs counts b rule: cancel_group_loop.induct)
  case (2 cfg c hard control r rs cancelled running ended b)
  show ?case
    using 2 cancel_queued_lane [OF 2(5), of r] cancel_running_lane [OF 2(5), of r]
    by (auto split: sum.splits bool.splits)
qed simp

lemma group_records_ref: "refs_ok b \<Longrightarrow> r \<in> set (group_records c g b) \<Longrightarrow> r < br_nreq b"
  by (auto simp: group_records_def refs_ok_def split: option.splits)

lemma cancel_group_lane:
  assumes "lane_inv cfg b" and "refs_ok b"
  shows "lane_inv cfg (fst (cancel_group cfg c control b))"
proof -
  have "lane_inv cfg (fst (cancel_group_loop cfg c hard control
      (if json_str g = None then [] else group_records c g b) (0, 0, 0) b))" for hard g
    by (rule cancel_group_loop_lane) (use assms group_records_ref in auto)
  note loop = this
  let ?g = "jget control ''group_id''" and ?hard = "truthy (jget control ''hard'')"
  obtain b' res where l: "cancel_group_loop cfg c ?hard control
      (if json_str ?g = None then [] else group_records c ?g b) (0, 0, 0) b = (b', res)"
    by fastforce
  then have "lane_inv cfg b'" using loop [of ?hard ?g] by simp
  then show ?thesis
    by (cases res) (simp_all add: cancel_group_def Let_def l lane_inv_send split: prod.splits)
qed

lemma handle_message_lane:
  assumes inv: "lane_inv cfg b" and refs: "refs_ok b"
  shows "lane_inv cfg (fst (handle_message cfg c m now pool_statistics b))"
proof -
  have same: "lane_inv cfg (request_status cfg c control b)" "lane_inv cfg (result_ack c control b)"
    "lane_inv cfg (fst (stats_request cfg c control st b))" "lane_inv cfg (fst (close_session cfg c control b))"
    for control st
    by (rule lane_inv_cong [OF _ inv],
        simp add: request_status_def stats_request_def close_session_def lane_simps split: sum.splits option.splits bool.splits)+
  show ?thesis
    using same inv refs submit_lane [OF inv] cancel_request_lane [OF inv refs] cancel_group_lane [OF inv refs]
    by (cases "msg_kind m") (simp_all add: handle_message_def lane_inv_send)
qed

subsection \<open>Connections, start-up and shutdown\<close>

lemma nreq_disconnect_record [simp]: "br_nreq (disconnect_record cfg r b) = br_nreq b"
  by (simp add: disconnect_record_def)

lemma disconnect_record_lane:
  "lane_inv cfg b \<Longrightarrow> r < br_nreq b \<Longrightarrow> lane_inv cfg (disconnect_record cfg r b)"
  by (auto simp: disconnect_record_def intro: cancel_queued_lane cancel_running_lane)

lemma disconnect_lane:
  assumes inv: "lane_inv cfg b" and refs: "refs_ok b"
  shows "lane_inv cfg (disconnect cfg c b)"
proof -
  define b0 where "b0 = (conn_close cfg c b)\<lparr>br_connections := remove1 c (br_connections (conn_close cfg c b))\<rparr>"
  define b1 where "b1 = upd_stats (\<lambda>s. s\<lparr>st_connections := int (length (br_connections b0))\<rparr>) b0"
  have lane1: "lane_inv cfg b1"
    by (rule lane_inv_cong [OF _ inv]) (simp add: b1_def b0_def lane_simps)
  have same: "br_nreq b1 = br_nreq b" "br_sess b1 = br_sess b"
    by (simp_all add: b1_def b0_def upd_stats_def conn_close_def upd_conn_def)
  have "lane_inv cfg (fold (disconnect_record cfg) (map snd (ss_requests (br_sess b1 s))) b1)" for s
    using fold_lane [of cfg "disconnect_record cfg" b1 "map snd (ss_requests (br_sess b1 s))"]
      disconnect_record_lane lane1 refs same by (auto simp: refs_ok_def)
  then have fold: "lane_inv cfg (purge_session_locked s (fold (disconnect_record cfg) (map snd (ss_requests (br_sess b1 s))) b1))" for s
    by (rule lane_inv_cong [OF lane_purge])
  have purge: "lane_inv cfg (purge_session_locked s b1)" for s
    by (rule lane_inv_cong [OF lane_purge lane1])
  have "disconnect cfg c b = upd_conn c (\<lambda>k. k\<lparr>cn_phase := C_done\<rparr>)
      (case cn_session (br_conn b1 c) of None \<Rightarrow> b1
       | Some s \<Rightarrow> if \<not> cn_clean_close (br_conn b1 c) \<and> sv_disconnect_policy cfg \<in> {CANCEL_QUEUED, TERMINATE}
           then purge_session_locked s (fold (disconnect_record cfg) (map snd (ss_requests (br_sess b1 s))) b1)
           else purge_session_locked s b1)"
    by (simp only: disconnect_def Let_def b1_def b0_def)
  then show ?thesis
    using lane1 fold purge lane_inv_cong [OF lane_upd_conn(1)] by (simp split: option.splits)
qed

lemma connection_failed_lane:
  assumes inv: "lane_inv cfg b" and refs: "refs_ok b"
  shows "lane_inv cfg (connection_failed cfg c e b)"
proof -
  let ?b = "conn_flush cfg c (conn_send cfg c M_PROTOCOL_ERROR (ctl [(''message'', JStr (take 1024 (exn_text e)))]) [] b)"
  have "lane_inv cfg ?b"
    by (rule lane_inv_cong [OF _ inv]) (simp add: lane_simps)
  moreover have "refs_ok ?b"
    using refs by (simp add: refs_ok_def conn_flush_def conn_send_def upd_conn_def)
  ultimately show ?thesis
    using inv refs by (simp add: connection_failed_def disconnect_lane)
qed

lemma loop_result_lane:
  "lane_inv cfg (fst res) \<Longrightarrow> refs_ok (fst res) \<Longrightarrow> lane_inv cfg (loop_result cfg c res)"
  by (auto simp: loop_result_def connection_failed_lane split: prod.splits sum.splits)

lemma lane_handshake [lane_simps]: "lane (fst (handshake cfg c peer s hello b)) = lane b"
proof -
  have "lane (open_session cfg c s client_id who n b) = lane b" for client_id who n
    by (simp add: open_session_def lane_def conn_send_def upd_defs)
  then show ?thesis
    by (simp add: handshake_def handshake_rejected_def lane_simps split: sum.splits option.splits prod.splits)
qed

lemma nreq_shutdown_record [simp]: "br_nreq (shutdown_cancel_record cfg r b) = br_nreq b"
  "br_nreq (shutdown_deadline_record cfg r b) = br_nreq b"
  by (simp_all add: shutdown_cancel_record_def shutdown_deadline_record_def)

lemma shutdown_record_lane:
  "lane_inv cfg b \<Longrightarrow> r < br_nreq b \<Longrightarrow> lane_inv cfg (shutdown_cancel_record cfg r b)"
  "lane_inv cfg b \<Longrightarrow> r < br_nreq b \<Longrightarrow> lane_inv cfg (shutdown_deadline_record cfg r b)"
  by (auto simp: shutdown_cancel_record_def shutdown_deadline_record_def
      intro: cancel_queued_lane cancel_running_lane)

definition cancelled_for_shutdown :: "server_config \<Rightarrow> broker \<Rightarrow> broker" where
  "cancelled_for_shutdown cfg b =
     (if br_shutdown_cancel_futures b then fold (shutdown_cancel_record cfg) (map snd (br_requests b)) b else b)"

lemma cancelled_for_shutdown_lane:
  assumes "lane_inv cfg b" and "refs_ok b"
  shows "lane_inv cfg (cancelled_for_shutdown cfg b)" "br_nreq (cancelled_for_shutdown cfg b) = br_nreq b"
  using fold_lane [of cfg "shutdown_cancel_record cfg" b "map snd (br_requests b)"]
    shutdown_record_lane(1) assms by (auto simp: cancelled_for_shutdown_def refs_ok_def)

lemma finish_shutdown_wait_lane:
  assumes inv: "lane_inv cfg b" and refs: "refs_ok b" "refs_ok (cancelled_for_shutdown cfg b)"
  shows "lane_inv cfg (finish_shutdown_wait cfg now b)"
proof -
  define b1 where "b1 = cancelled_for_shutdown cfg b"
  have b1: "lane_inv cfg b1" "refs_ok b1"
    using cancelled_for_shutdown_lane [OF inv refs(1)] refs(2) by (simp_all add: b1_def)
  then have "lane_inv cfg (fold (shutdown_deadline_record cfg) (map snd (br_requests b1)) b1)"
    using fold_lane [of cfg "shutdown_deadline_record cfg" b1 "map snd (br_requests b1)"]
      shutdown_record_lane(2) by (auto simp: refs_ok_def)
  then have "lane_inv cfg ((fold (shutdown_deadline_record cfg) (map snd (br_requests b1)) b1)
      \<lparr>br_state := STOPPING, br_shutdown_phase := S_closing\<rparr>)"
    by (rule lane_inv_cong [rotated]) (simp add: lane_simps)
  moreover have "lane_inv cfg (b\<lparr>br_state := STOPPING, br_shutdown_phase := S_closing\<rparr>)"
    by (rule lane_inv_cong [OF _ inv]) (simp add: lane_simps)
  ultimately show ?thesis
    using inv b1 unfolding finish_shutdown_wait_def cancelled_for_shutdown_def [symmetric] b1_def [symmetric]
    by (simp add: Let_def split: option.splits)
qed

lemma finish_shutdown_close_lane:
  assumes inv: "lane_inv cfg b"
  shows "lane_inv cfg (finish_shutdown_close cfg b)"
proof -
  have "lane (fold (goodbye cfg) cs b) = lane b" for cs b
    by (rule lane_fold) (simp add: goodbye_def lane_simps)
  then have "lane (finish_shutdown_close cfg b) = lane b"
    by (simp add: finish_shutdown_close_def lane_simps)
  then show ?thesis using inv by (rule lane_inv_cong)
qed

lemma quiet_event_lane [lane_simps]:
  "lane (server_start b) = lane b" "lane (server_initialize ok b) = lane b"
  "lane (accept_socket_loop cfg sock b) = lane b" "lane (prepare_connection cfg sock ready tr b) = lane b"
  "lane (fst (shutdown cancel deadline now b)) = lane b"
  by (simp_all add: server_start_def server_initialize_def accept_socket_loop_def prepare_connection_def
      shutdown_def Let_def lane_def conn_close_def upd_defs split: sum.splits server_state.splits)

text \<open>Every event keeps the lane, as long as the tables hold only allocated requests.\<close>

lemma server_step_lane:
  assumes inv: "lane_inv cfg b" and refs: "refs_ok b" "refs_ok (cancelled_for_shutdown cfg b)"
    and step: "\<And>c m now st. refs_ok (fst (handle_message cfg c m now st b))"
      "\<And>c peer s hello. s \<notin> set (br_session_ids b) \<Longrightarrow> refs_ok (fst (handshake cfg c peer s hello b))"
  shows "lane_inv cfg (server_step cfg ev b)"
proof (cases ev)
  case (Ev_hello c peer s m)
  have "lane_inv cfg (fst (handshake cfg c peer s (msg_control m) b))"
    by (rule lane_inv_cong [OF _ inv]) (simp add: lane_simps)
  then show ?thesis
    using inv refs step Ev_hello by (auto simp: connection_hello_def intro!: loop_result_lane)
next
  case (Ev_message c m now st)
  then show ?thesis
    using inv refs step handle_message_lane [OF inv refs(1)]
    by (auto simp: connection_message_def intro!: loop_result_lane)
next
  case (Ev_writer c sent)
  then show ?thesis
    using inv lane_inv_cong [OF lane_upd_conn(1) inv] by simp
qed (use inv refs lane_inv_cong [OF quiet_event_lane(1) inv] lane_inv_cong [OF quiet_event_lane(2) inv]
      lane_inv_cong [OF quiet_event_lane(3) inv] lane_inv_cong [OF quiet_event_lane(4) inv]
      lane_inv_cong [OF quiet_event_lane(5) inv]
    in \<open>simp_all add: connection_failed_lane dispatch_next_lane dispatch_submit_lane dispatch_attach_lane
      pool_claims_lane pool_finishes_lane finish_shutdown_wait_lane finish_shutdown_close_lane\<close>)

lemma server_init_lane: "limits_ok (sv_limits cfg) \<Longrightarrow> lane_inv cfg server_init"
  by (simp add: lane_x_def server_init_def waiting_set_def inflight_count_def futures_ok_def ws.holds_def
      sched_init_inv limits_ok_def) (simp add: sched_count_def sched_weight_def sched_init_def)

end
