(* ===== verification/Accounts.thy ===== *)
theory Accounts
  imports Lane
begin

text \<open>
  The broker's bookkeeping: which requests are retained by which session, and the reservations held
  for their results.  The invariant \<open>acct_inv\<close> says that every counter is the exact number of retained
  requests (or of the result bytes reserved for them) and that no counter ever exceeds its limit.
\<close>

definition session_ok :: "server_config \<Rightarrow> broker \<Rightarrow> pystr \<Rightarrow> bool" where
  "session_ok cfg b s \<longleftrightarrow>
     (let ss = br_sess b s in
      wf_dict (ss_requests ss) \<and>
      (\<forall>i r. map_of (ss_requests ss) i = Some r \<longrightarrow>
         r < br_nreq b \<and> rq_request_id (br_req b r) = i \<and> rq_session_id (br_req b r) = s \<and>
         \<not> rq_reservation_released (br_req b r)) \<and>
      ss_reserved_outcomes ss = int (length (ss_requests ss)) \<and>
      ss_reserved_outcome_bytes ss = ss_reserved_outcomes ss * ss_max_result_bytes ss \<and>
      0 < ss_max_result_bytes ss \<and>
      ss_reserved_outcomes ss \<le> max_pending_per_session (sv_limits cfg) \<and>
      ss_reserved_outcomes ss \<le> max_retained_outcomes_per_session (sv_limits cfg) \<and>
      ss_reserved_outcome_bytes ss \<le> max_retained_outcome_bytes_per_session (sv_limits cfg))"

definition request_ok :: "broker \<Rightarrow> nat \<Rightarrow> bool" where
  "request_ok b r \<longleftrightarrow>
     (let q = br_req b r; ss = br_sess b (rq_session_id q) in
      rq_session_id q \<in> set (br_session_ids b) \<and>
      rq_reserved_result_bytes q = ss_max_result_bytes ss \<and>
      rq_connection q = ss_connection ss \<and> rq_principal q = ss_principal ss \<and>
      (\<not> rq_reservation_released q \<longrightarrow> map_of (ss_requests ss) (rq_request_id q) = Some r))"

definition totals_ok :: "server_config \<Rightarrow> broker \<Rightarrow> bool" where
  "totals_ok cfg b \<longleftrightarrow>
     br_reserved_outcomes b = (\<Sum>s \<in> set (br_session_ids b). ss_reserved_outcomes (br_sess b s)) \<and>
     br_reserved_outcome_bytes b = (\<Sum>s \<in> set (br_session_ids b). ss_reserved_outcome_bytes (br_sess b s)) \<and>
     br_reserved_outcomes b \<le> max_retained_outcomes_global (sv_limits cfg) \<and>
     br_reserved_outcome_bytes b \<le> max_retained_outcome_bytes_global (sv_limits cfg)"

definition tables_ok :: "server_config \<Rightarrow> broker \<Rightarrow> bool" where
  "tables_ok cfg b \<longleftrightarrow>
     wf_dict (br_requests b) \<and>
     (\<forall>i r. map_of (br_requests b) i = Some r \<longrightarrow>
        r < br_nreq b \<and> rq_request_id (br_req b r) = i \<and> \<not> rq_reservation_released (br_req b r)) \<and>
     int (length (br_requests b)) \<le> max_pending_global (sv_limits cfg) \<and>
     distinct (br_session_ids b) \<and> distinct (br_sessions b) \<and> set (br_sessions b) \<subseteq> set (br_session_ids b) \<and>
     (\<forall>s. s \<notin> set (br_session_ids b) \<longrightarrow> ss_requests (br_sess b s) = [])"

definition conns_ok :: "broker \<Rightarrow> bool" where
  "conns_ok b \<longleftrightarrow>
     (\<forall>c s. cn_session (br_conn b c) = Some s \<longrightarrow>
        s \<in> set (br_session_ids b) \<and> ss_connection (br_sess b s) = c)"

definition acct_inv :: "server_config \<Rightarrow> broker \<Rightarrow> bool" where
  "acct_inv cfg b \<longleftrightarrow>
     (\<forall>s \<in> set (br_session_ids b). session_ok cfg b s) \<and> (\<forall>r < br_nreq b. request_ok b r) \<and>
     totals_ok cfg b \<and> tables_ok cfg b \<and> conns_ok b"

lemmas acct_defs = acct_inv_def session_ok_def request_ok_def totals_ok_def tables_ok_def conns_ok_def

definition acct where
  "acct b = (br_nreq b,
     (\<lambda>r. (rq_request_id (br_req b r), rq_session_id (br_req b r), rq_connection (br_req b r),
           rq_principal (br_req b r), rq_reserved_result_bytes (br_req b r), rq_reservation_released (br_req b r))),
     br_sess b, br_session_ids b, br_sessions b, br_requests b,
     br_reserved_outcomes b, br_reserved_outcome_bytes b, (\<lambda>c. cn_session (br_conn b c)))"

named_theorems acct_simps "operations that leave the accounts as they are"

lemma acct_eqs:
  assumes "acct b = acct b'"
  shows "br_nreq b = br_nreq b'" "br_sess b = br_sess b'" "br_session_ids b = br_session_ids b'"
    "br_sessions b = br_sessions b'" "br_requests b = br_requests b'"
    "br_reserved_outcomes b = br_reserved_outcomes b'"
    "br_reserved_outcome_bytes b = br_reserved_outcome_bytes b'"
    "\<And>r. rq_request_id (br_req b r) = rq_request_id (br_req b' r)"
    "\<And>r. rq_session_id (br_req b r) = rq_session_id (br_req b' r)"
    "\<And>r. rq_connection (br_req b r) = rq_connection (br_req b' r)"
    "\<And>r. rq_principal (br_req b r) = rq_principal (br_req b' r)"
    "\<And>r. rq_reserved_result_bytes (br_req b r) = rq_reserved_result_bytes (br_req b' r)"
    "\<And>r. rq_reservation_released (br_req b r) = rq_reservation_released (br_req b' r)"
    "\<And>c. cn_session (br_conn b c) = cn_session (br_conn b' c)"
  using assms by (simp_all add: acct_def fun_eq_iff)

lemma acct_cong:
  assumes "acct b = acct b'" and "acct_inv cfg b'"
  shows "acct_inv cfg b"
proof -
  have "acct_inv cfg b = acct_inv cfg b'"
    unfolding acct_defs Let_def by (simp only: acct_eqs [OF assms(1)])
  with assms(2) show ?thesis by simp
qed

lemma put_session [simp]: "cn_session (connection_put cfg item c) = cn_session c"
  "cn_session (connection_close cfg c) = cn_session c"
  by (auto simp: connection_put_def connection_close_def put_outbound_def Let_def)

lemma acct_upd [acct_simps]:
  "(\<And>k. cn_session (g k) = cn_session k) \<Longrightarrow> acct (upd_conn c g b) = acct b"
  "acct (upd_stats h b) = acct b" "acct (upd_fut f k b) = acct b"
  "acct (conn_send cfg c kind control payload b) = acct b"
  "acct (conn_flush cfg c b) = acct b" "acct (conn_close cfg c b) = acct b"
  "acct (unqueue r b) = acct b"
  by (auto simp: acct_def upd_defs conn_send_def conn_flush_def conn_close_def unqueue_def fun_eq_iff)

lemma acct_upd_req [acct_simps]:
  "acct (upd_req r (\<lambda>q. q\<lparr>rq_payload := p\<rparr>) b) = acct b"
  "acct (upd_req r (\<lambda>q. q\<lparr>rq_local_future := f\<rparr>) b) = acct b"
  "acct (upd_req r (\<lambda>q. q\<lparr>rq_state := st\<rparr>) b) = acct b"
  by (auto simp: acct_def upd_req_def fun_eq_iff)

lemma acct_fields [acct_simps]:
  "acct (b\<lparr>br_killed := w\<rparr>) = acct b" "acct (b\<lparr>br_connections := cs\<rparr>) = acct b"
  "acct (b\<lparr>br_raw_sockets := rs\<rparr>) = acct b" "acct (b\<lparr>br_state := st\<rparr>) = acct b"
  "acct (b\<lparr>br_ready := t\<rparr>) = acct b" "acct (b\<lparr>br_shutdown_phase := sp\<rparr>) = acct b"
  "acct (b\<lparr>br_staged := n\<rparr>) = acct b" "acct (b\<lparr>br_scheduler := sc\<rparr>) = acct b"
  "acct (b\<lparr>br_dispatch := d\<rparr>) = acct b" "acct (b\<lparr>br_fut := h, br_nfut := m\<rparr>) = acct b"
  by (simp_all add: acct_def)

lemma acct_terminal [acct_simps]: "acct (terminal_locked cfg r st kind control payload b) = acct b"
  by (auto simp: terminal_locked_def acct_simps) (auto simp: acct_def upd_req_def fun_eq_iff)

lemma acct_send_record [acct_simps]: "acct (send_record cfg r b) = acct b"
  by (cases "rq_state (br_req b r)"; cases "rq_terminal_kind (br_req b r)")
    (simp_all only: send_record_def Let_def acct_upd request_state.case option.case)

lemma acct_reject [acct_simps]: "acct (reject cfg c i reason b) = acct b"
  by (simp add: reject_def acct_simps)

lemma acct_publish [acct_simps]: "acct (publish_running cfg r pid b) = acct b"
  by (simp add: publish_running_def Let_def acct_simps split: option.splits)

lemma session_refs:
  assumes "acct_inv cfg b" and "map_of (ss_requests (br_sess b s)) i = Some r"
  shows "s \<in> set (br_session_ids b)" "r < br_nreq b" "rq_request_id (br_req b r) = i"
    "rq_session_id (br_req b r) = s" "\<not> rq_reservation_released (br_req b r)"
proof -
  show s: "s \<in> set (br_session_ids b)"
  proof (rule ccontr)
    assume "s \<notin> set (br_session_ids b)"
    then have "ss_requests (br_sess b s) = []"
      using assms(1) by (simp add: acct_inv_def tables_ok_def)
    with assms(2) show False by simp
  qed
  have "session_ok cfg b s" using assms(1) s by (simp add: acct_inv_def)
  with assms(2) show "r < br_nreq b" "rq_request_id (br_req b r) = i"
      "rq_session_id (br_req b r) = s" "\<not> rq_reservation_released (br_req b r)"
    by (simp_all add: session_ok_def Let_def)
qed

lemma session_wf: "acct_inv cfg b \<Longrightarrow> wf_dict (ss_requests (br_sess b s))"
proof (cases "s \<in> set (br_session_ids b)")
  case True
  assume "acct_inv cfg b"
  then have "session_ok cfg b s" using True by (simp add: acct_inv_def)
  then show ?thesis by (simp add: session_ok_def Let_def)
next
  case False
  assume "acct_inv cfg b"
  then have "ss_requests (br_sess b s) = []" using False by (simp add: acct_inv_def tables_ok_def)
  then show ?thesis by simp
qed

lemma acct_refs:
  assumes "acct_inv cfg b"
  shows "refs_ok b"
proof -
  have "r < br_nreq b" if "(i, r) \<in> set (ss_requests (br_sess b s))" for s i r
    using session_refs(2) [OF assms] that in_dict_map_of [OF session_wf [OF assms]] by blast
  moreover have "r < br_nreq b" if "(i, r) \<in> set (br_requests b)" for i r
  proof -
    have t: "tables_ok cfg b" using assms by (simp add: acct_inv_def)
    then have "wf_dict (br_requests b)" by (simp add: tables_ok_def)
    then have "map_of (br_requests b) i = Some r" using that in_dict_map_of by fast
    with t show ?thesis by (simp add: tables_ok_def)
  qed
  ultimately show ?thesis
    unfolding refs_ok_def by auto
qed

subsection \<open>Releasing a request\<close>

lemma sum_set_update:
  fixes w :: "'a \<Rightarrow> int"
  assumes "s \<in> set ids"
  shows "(\<Sum>x \<in> set ids. w ((h(s := y)) x)) = (\<Sum>x \<in> set ids. w (h x)) + w y - w (h s)"
proof -
  have "(\<Sum>x \<in> set ids. w ((h(s := y)) x)) = w y + (\<Sum>x \<in> set ids - {s}. w ((h(s := y)) x))"
    using assms by (subst sum.remove [of _ s]) auto
  also have "(\<Sum>x \<in> set ids - {s}. w ((h(s := y)) x)) = (\<Sum>x \<in> set ids - {s}. w (h x))"
    by (intro sum.cong) auto
  finally show ?thesis
    using assms by (simp add: sum.remove [of _ s])
qed

text \<open>A request that its session still lists is released with its reservation, and only it.\<close>

lemma remove_mapped:
  assumes inv: "acct_inv cfg b" and r: "map_of (ss_requests (br_sess b s)) i = Some r"
    and live: "s \<in> set (br_sessions b)"
  defines "b' \<equiv> remove_request_locked r b"
  shows "acct_inv cfg b'" "br_nreq b' = br_nreq b" "br_sessions b' = br_sessions b"
    "\<And>t. ss_requests (br_sess b' t) = (if t = s then AList.delete i (ss_requests (br_sess b s)) else ss_requests (br_sess b t))"
    "\<And>x. rq_state (br_req b' x) = rq_state (br_req b x)"
    "\<And>x. rq_request_id (br_req b' x) = rq_request_id (br_req b x)"
proof -
  note ref = session_refs [OF inv r]
  let ?q = "br_req b r" and ?ss = "br_sess b s"
  define q' where "q' = ?q\<lparr>rq_reservation_released := True, rq_payload := [], rq_terminal_payload := []\<rparr>"
  define ss' where "ss' = ?ss\<lparr>ss_reserved_outcomes := ss_reserved_outcomes ?ss - 1,
      ss_reserved_outcome_bytes := ss_reserved_outcome_bytes ?ss - rq_reserved_result_bytes ?q,
      ss_requests := AList.delete i (ss_requests ?ss)\<rparr>"
  have b': "b' = b\<lparr>br_req := (br_req b)(r := q'), br_sess := (br_sess b)(s := ss'),
      br_requests := AList.delete i (br_requests b), br_reserved_outcomes := br_reserved_outcomes b - 1,
      br_reserved_outcome_bytes := br_reserved_outcome_bytes b - rq_reserved_result_bytes ?q\<rparr>"
    using ref live
    by (simp add: b'_def remove_request_locked_def release_reservation_locked_def Let_def upd_defs q'_def ss'_def)
  then show "br_nreq b' = br_nreq b" "br_sessions b' = br_sessions b"
    "\<And>t. ss_requests (br_sess b' t) = (if t = s then AList.delete i (ss_requests (br_sess b s)) else ss_requests (br_sess b t))"
    "\<And>x. rq_state (br_req b' x) = rq_state (br_req b x)"
    "\<And>x. rq_request_id (br_req b' x) = rq_request_id (br_req b x)"
    by (simp_all add: q'_def ss'_def)
  have ok: "session_ok cfg b s" and rq: "request_ok b r" and tot: "totals_ok cfg b" and tab: "tables_ok cfg b"
    using inv ref by (simp_all add: acct_inv_def)
  have n: "rq_reserved_result_bytes ?q = ss_max_result_bytes ?ss" "0 < ss_max_result_bytes ?ss"
    using rq ok ref by (simp_all add: request_ok_def session_ok_def Let_def)
  have len: "int (length (AList.delete i (ss_requests ?ss))) = int (length (ss_requests ?ss)) - 1"
    using dict_sum_delete [of "ss_requests ?ss" "\<lambda>_. 1" i] ok r
    by (simp add: session_ok_def Let_def dict_sum_def sum_list_triv case_prod_unfold)
  have same: "rq_request_id q' = i" "rq_session_id q' = s"
    using ref by (simp_all add: q'_def)
  have sess: "session_ok cfg b' t" if t: "t \<in> set (br_session_ids b)" for t
  proof (cases "t = s")
    case True
    have "map_of (AList.delete i (ss_requests ?ss)) j = Some x \<Longrightarrow> x \<noteq> r" for j x
      using ok ref by (auto simp: session_ok_def Let_def split: if_splits)
    then show ?thesis
      using ok n len True
      by (auto simp: session_ok_def Let_def b' ss'_def algebra_simps split: if_splits)
  next
    case False
    have "session_ok cfg b t" using inv t by (simp add: acct_inv_def)
    moreover have "map_of (ss_requests (br_sess b t)) j = Some x \<Longrightarrow> x \<noteq> r" for j x
      using session_refs(4) [OF inv, of t j x] ref(4) False by blast
    ultimately show ?thesis
      using False by (auto simp: session_ok_def Let_def b')
  qed
  have req: "request_ok b' x" if "x < br_nreq b" for x
  proof (cases "x = r")
    case True
    then show ?thesis using rq ref by (simp add: request_ok_def Let_def b' q'_def ss'_def)
  next
    case False
    have x: "request_ok b x" using inv that by (simp add: acct_inv_def)
    have "rq_request_id (br_req b x) \<noteq> i"
      if "\<not> rq_reservation_released (br_req b x)" "rq_session_id (br_req b x) = s"
    proof
      assume "rq_request_id (br_req b x) = i"
      then have "Some x = Some r" using x that r by (simp add: request_ok_def Let_def)
      with False show False by simp
    qed
    with x False show ?thesis
      by (auto simp: request_ok_def Let_def b' ss'_def)
  qed
  have "totals_ok cfg b'"
    using tot n ref(1) sum_set_update [of s "br_session_ids b" ss_reserved_outcomes "br_sess b" ss']
      sum_set_update [of s "br_session_ids b" ss_reserved_outcome_bytes "br_sess b" ss']
    by (simp add: totals_ok_def b') (simp add: ss'_def)
  moreover have "tables_ok cfg b'"
  proof -
    have "map_of (br_requests b) j = Some x \<Longrightarrow> j \<noteq> i \<Longrightarrow> x \<noteq> r" for j x
      using tab ref(3) by (auto simp: tables_ok_def)
    with tab length_dict_delete [of i "br_requests b"] show ?thesis
      by (auto simp: tables_ok_def b' ss'_def ref(1) split: if_splits)
  qed
  moreover have "conns_ok b'"
    using inv by (simp add: acct_inv_def conns_ok_def b' ss'_def)
  ultimately show "acct_inv cfg b'"
    using sess req by (simp add: acct_inv_def b')
qed


lemma purge_records:
  assumes "acct_inv cfg b" and "s \<in> set (br_sessions b)" and "distinct rs"
    and "\<And>r. r \<in> set rs \<Longrightarrow> map_of (ss_requests (br_sess b s)) (rq_request_id (br_req b r)) = Some r"
  shows "acct_inv cfg (fold purge_record rs b)"
  using assms
proof (induction rs arbitrary: b)
  case (Cons r rs)
  let ?i = "rq_request_id (br_req b r)"
  have r: "map_of (ss_requests (br_sess b s)) ?i = Some r" using Cons.prems(4) by simp
  show ?case
  proof (cases "terminal (rq_state (br_req b r))")
    case True
    note rm = remove_mapped [OF Cons.prems(1) r Cons.prems(2)]
    have "acct_inv cfg (fold purge_record rs (remove_request_locked r b))"
    proof (rule Cons.IH)
      fix x assume x: "x \<in> set rs"
      then have mx: "map_of (ss_requests (br_sess b s)) (rq_request_id (br_req b x)) = Some x"
        using Cons.prems(4) by simp
      moreover have "rq_request_id (br_req b x) \<noteq> ?i"
        using mx r x Cons.prems(3) by (metis distinct.simps(2) option.inject)
      ultimately show "map_of (ss_requests (br_sess (remove_request_locked r b) s))
          (rq_request_id (br_req (remove_request_locked r b) x)) = Some x"
        unfolding rm(4,6) by simp
    qed (use rm(1,3) Cons.prems in simp_all)
    moreover have "purge_record r b = remove_request_locked r b"
      using True by (simp add: purge_record_def)
    ultimately show ?thesis by simp
  next
    case False
    then have "purge_record r b = b" by (simp add: purge_record_def)
    moreover have "acct_inv cfg (fold purge_record rs b)"
      by (rule Cons.IH) (use Cons.prems in simp_all)
    ultimately show ?thesis by simp
  qed
qed simp

lemma session_values_distinct:
  assumes inv: "acct_inv cfg b"
  shows "distinct (map snd (ss_requests (br_sess b s)))"
proof -
  have "inj_on snd (set (ss_requests (br_sess b s)))"
  proof (rule inj_onI)
    fix p p' assume p: "p \<in> set (ss_requests (br_sess b s))" "p' \<in> set (ss_requests (br_sess b s))" "snd p = snd p'"
    have "fst x = rq_request_id (br_req b (snd x))" if "x \<in> set (ss_requests (br_sess b s))" for x
      using session_refs(3) [OF inv, of s "fst x" "snd x"] that in_dict_map_of [OF session_wf [OF inv], of "fst x" "snd x"]
      by simp
    then show "p = p'" using p by (simp add: prod_eq_iff)
  qed
  moreover have "distinct (ss_requests (br_sess b s))"
    using session_wf [OF inv, of s] by (simp add: distinct_map)
  ultimately show ?thesis by (simp add: distinct_map)
qed

lemma session_values_mapped:
  assumes inv: "acct_inv cfg b" and "r \<in> set (map snd (ss_requests (br_sess b s)))"
  shows "map_of (ss_requests (br_sess b s)) (rq_request_id (br_req b r)) = Some r"
proof -
  obtain i where "map_of (ss_requests (br_sess b s)) i = Some r"
    using assms in_dict_map_of [OF session_wf [OF inv]] by auto
  then show ?thesis using session_refs(3) [OF inv] by blast
qed

lemma purge_session_acct:
  assumes inv: "acct_inv cfg b"
  shows "acct_inv cfg (purge_session_locked s b)"
proof -
  let ?rs = "map snd (ss_requests (br_sess b s))"
  have fold: "acct_inv cfg (fold purge_record ?rs b)"
  proof (cases "s \<in> set (br_sessions b)")
    case True
    then show ?thesis
      using purge_records [OF inv True session_values_distinct [OF inv]] session_values_mapped [OF inv] by blast
  next
    case False
    have "fold purge_record rs b = b" if "set rs \<subseteq> set ?rs" for rs
      using that
    proof (induction rs)
      case (Cons r rs)
      then have "rq_session_id (br_req b r) = s"
        using session_refs(4) [OF inv session_values_mapped [OF inv, of r s]] by simp
      then have "purge_record r b = b"
        using False by (simp add: purge_record_def remove_request_locked_def Let_def)
      with Cons show ?case by simp
    qed simp
    with inv show ?thesis by simp
  qed
  have drop: "acct_inv cfg (b'\<lparr>br_sessions := remove1 s (br_sessions b'), br_client_sessions := x\<rparr>)"
    if "acct_inv cfg b'" for b' x
    using that set_remove1_subset [of s "br_sessions b'"]
    by (auto simp: acct_inv_def session_ok_def request_ok_def totals_ok_def tables_ok_def conns_ok_def)
  show ?thesis
    using fold drop [OF fold] by (simp add: purge_session_locked_def Let_def)
qed

subsection \<open>Completion, cancellation, dispatch\<close>

lemma unstage_acct: "acct_inv cfg b \<Longrightarrow> acct_inv cfg (unstage r b)"
proof -
  assume inv: "acct_inv cfg b"
  then have "acct_inv cfg (b\<lparr>br_staged := n\<rparr>)" for n
    by (rule acct_cong [rotated]) (simp add: acct_simps)
  with inv show ?thesis
    by (simp add: unstage_def Let_def purge_session_acct)
qed

lemma terminal_acct: "acct_inv cfg b \<Longrightarrow> acct_inv cfg (terminal_locked cfg r st kind control payload b)"
  by (erule acct_cong [rotated]) (simp add: acct_simps)

lemma complete_local_acct: "acct_inv cfg b \<Longrightarrow> acct_inv cfg (complete_local cfg r out b)"
  by (simp add: complete_local_def unstage_acct terminal_acct split: prod.splits)

lemma pool_done_acct: "acct_inv cfg b \<Longrightarrow> acct_inv cfg (pool_done cfg f b)"
  by (simp add: pool_done_def complete_local_acct split: future_state.splits)

lemma upd_fut_acct: "acct_inv cfg b \<Longrightarrow> acct_inv cfg (upd_fut f g b)"
  by (erule acct_cong [rotated]) (simp add: acct_simps)

lemma future_cancel_acct: "acct_inv cfg b \<Longrightarrow> acct_inv cfg (future_cancel cfg f b)"
  by (simp add: future_cancel_def Let_def pool_done_acct upd_fut_acct)

lemma cancel_local_future_acct: "acct_inv cfg b \<Longrightarrow> acct_inv cfg (cancel_local_future cfg r b)"
  by (simp add: cancel_local_future_def future_cancel_acct split: option.splits)

lemma kill_local_future_acct:
  assumes "acct_inv cfg b"
  shows "acct_inv cfg (kill_local_future cfg r b)"
proof -
  have "acct_inv cfg ((future_cancel cfg f b)\<lparr>br_killed := x\<rparr>)" for f x
    by (rule acct_cong [OF _ future_cancel_acct [OF assms]]) (simp add: acct_simps)
  with assms show ?thesis
    by (simp add: kill_local_future_def Let_def future_cancel_acct split: option.splits)
qed

lemma unqueue_acct: "acct_inv cfg b \<Longrightarrow> acct_inv cfg (unqueue r b)"
  by (erule acct_cong [rotated]) (simp add: acct_simps)

lemma cancel_acct:
  "acct_inv cfg b \<Longrightarrow> acct_inv cfg (cancel_queued cfg r st kind reason b)"
  "acct_inv cfg b \<Longrightarrow> acct_inv cfg (cancel_running cfg r reason b)"
  by (simp_all add: cancel_queued_def cancel_running_def cancel_local_future_acct kill_local_future_acct
      terminal_acct unqueue_acct)

lemma record_acct:
  "acct_inv cfg b \<Longrightarrow> acct_inv cfg (expire_record cfg now r b)"
  "acct_inv cfg b \<Longrightarrow> acct_inv cfg (disconnect_record cfg r b)"
  "acct_inv cfg b \<Longrightarrow> acct_inv cfg (shutdown_cancel_record cfg r b)"
  "acct_inv cfg b \<Longrightarrow> acct_inv cfg (shutdown_deadline_record cfg r b)"
  by (simp_all add: expire_record_def disconnect_record_def shutdown_cancel_record_def
      shutdown_deadline_record_def cancel_acct)

lemma fold_acct:
  "(\<And>r b. acct_inv cfg b \<Longrightarrow> acct_inv cfg (g r b)) \<Longrightarrow> acct_inv cfg b \<Longrightarrow> acct_inv cfg (fold g rs b)"
  by (induction rs arbitrary: b) auto

lemma expire_queued_acct: "acct_inv cfg b \<Longrightarrow> acct_inv cfg (expire_queued_locked cfg now b)"
  unfolding expire_queued_locked_def by (rule fold_acct) (simp_all add: record_acct)

lemma dispatch_next_acct:
  assumes "acct_inv cfg b"
  shows "acct_inv cfg (dispatch_next cfg now b)"
proof -
  define b1 where "b1 = expire_queued_locked cfg now b"
  have inv: "acct_inv cfg b1" using expire_queued_acct [OF assms] by (simp add: b1_def)
  have "acct_inv cfg (b1\<lparr>br_scheduler := s\<rparr>)"
    "acct_inv cfg ((upd_req r (\<lambda>q. q\<lparr>rq_local_future := f\<rparr>) (b1\<lparr>br_scheduler := s, br_fut := h, br_nfut := n\<rparr>))
        \<lparr>br_staged := k, br_dispatch := d\<rparr>)" for s r f h n k d
    by (rule acct_cong [OF _ inv], simp add: acct_def upd_req_def fun_eq_iff)+
  with inv assms show ?thesis
    by (simp add: dispatch_next_def Let_def b1_def [symmetric] split: sum.splits prod.splits)
qed

lemma dispatch_submit_acct:
  assumes inv: "acct_inv cfg b"
  shows "acct_inv cfg (dispatch_submit cfg answer b)"
proof -
  have same: "acct_inv cfg ((upd_fut f g b)\<lparr>br_dispatch := d\<rparr>)"
    "acct_inv cfg ((upd_fut f g (upd_req r (\<lambda>q. q\<lparr>rq_local_future := x\<rparr>) b))\<lparr>br_staged := n, br_dispatch := d\<rparr>)"
    "acct_inv cfg ((upd_fut f g (upd_req r (\<lambda>q. q\<lparr>rq_local_future := x\<rparr>) b))
       \<lparr>br_staged := n, br_dispatch := d, br_scheduler := s\<rparr>)" for f g d r x n s
    by (rule acct_cong [OF _ inv], simp add: acct_def upd_defs fun_eq_iff)+
  then show ?thesis
    using inv
    by (simp add: dispatch_submit_def Let_def complete_local_acct split: dispatch_phase.splits pool_answer.splits)
qed

lemma dispatch_attach_acct:
  assumes inv: "acct_inv cfg b"
  shows "acct_inv cfg (dispatch_attach cfg b)"
proof -
  have "acct_inv cfg ((upd_fut f g (upd_req r (\<lambda>q. q\<lparr>rq_payload := x\<rparr>) b))\<lparr>br_dispatch := d\<rparr>)" for f g r x d
    by (rule acct_cong [OF _ inv]) (simp add: acct_def upd_defs fun_eq_iff)
  with inv show ?thesis
    by (simp add: dispatch_attach_def Let_def pool_done_acct split: dispatch_phase.splits)
qed

lemma claim_acct:
  assumes inv: "acct_inv cfg b"
  shows "acct_inv cfg (fst (claim_dispatch cfg r pid now b))"
proof -
  have "acct_inv cfg (publish_running cfg r pid (upd_stats g (upd_req r (\<lambda>q. q\<lparr>rq_state := st\<rparr>) b)))"
    "acct_inv cfg (publish_running cfg r pid b)" for g st
    by (rule acct_cong [OF _ inv], simp add: acct_simps)+
  with inv show ?thesis
    by (simp add: claim_dispatch_def cancel_local_future_acct terminal_acct)
qed

lemma pool_acct:
  "acct_inv cfg b \<Longrightarrow> acct_inv cfg (pool_claims cfg f pid now b)"
  "acct_inv cfg b \<Longrightarrow> acct_inv cfg (pool_finishes cfg f out b)"
  by (simp_all add: pool_claims_def claim_acct pool_finishes_def Let_def pool_done_acct upd_fut_acct)

subsection \<open>Client messages\<close>

lemma queue_not_full:
  assumes "\<not> queue_full cfg s b"
  shows "int (length (ss_requests (br_sess b s))) < max_pending_per_session (sv_limits cfg)"
    "int (length (br_requests b)) < max_pending_global (sv_limits cfg)"
    "ss_reserved_outcomes (br_sess b s) < max_retained_outcomes_per_session (sv_limits cfg)"
    "br_reserved_outcomes b < max_retained_outcomes_global (sv_limits cfg)"
    "ss_reserved_outcome_bytes (br_sess b s) + ss_max_result_bytes (br_sess b s)
       \<le> max_retained_outcome_bytes_per_session (sv_limits cfg)"
    "br_reserved_outcome_bytes b + ss_max_result_bytes (br_sess b s)
       \<le> max_retained_outcome_bytes_global (sv_limits cfg)"
  using assms by (simp_all add: queue_full_def Let_def not_le not_less)

lemma accept_request_acct:
  assumes inv: "acct_inv cfg b" and s: "s \<in> set (br_session_ids b)"
    and new: "map_of (ss_requests (br_sess b s)) (rq_request_id q) = None"
    and room: "\<not> queue_full cfg s b"
    and q: "rq_session_id q = s" "rq_connection q = ss_connection (br_sess b s)"
      "rq_principal q = ss_principal (br_sess b s)"
      "rq_reserved_result_bytes q = ss_max_result_bytes (br_sess b s)" "\<not> rq_reservation_released q"
  shows "acct_inv cfg (accept_request cfg s q b)"
proof -
  let ?r = "br_nreq b" and ?i = "rq_request_id q" and ?ss = "br_sess b s"
  define ss' where "ss' = ?ss\<lparr>ss_requests := AList.update ?i ?r (ss_requests ?ss),
      ss_reserved_outcomes := ss_reserved_outcomes ?ss + 1,
      ss_reserved_outcome_bytes := ss_reserved_outcome_bytes ?ss + rq_reserved_result_bytes q\<rparr>"
  define b' where "b' = b\<lparr>br_req := (br_req b)(?r := q), br_nreq := Suc ?r, br_sess := (br_sess b)(s := ss'),
      br_requests := AList.update ?i ?r (br_requests b), br_reserved_outcomes := br_reserved_outcomes b + 1,
      br_reserved_outcome_bytes := br_reserved_outcome_bytes b + rq_reserved_result_bytes q\<rparr>"
  note room' = queue_not_full [OF room]
  have ok: "session_ok cfg b s" and tot: "totals_ok cfg b" and tab: "tables_ok cfg b"
    using inv s by (simp_all add: acct_inv_def)
  have len: "length (AList.update ?i ?r (ss_requests ?ss)) = Suc (length (ss_requests ?ss))"
    using new by (simp add: length_dict_update)
  have sess: "session_ok cfg b' t" if t: "t \<in> set (br_session_ids b)" for t
  proof (cases "t = s")
    case True
    have "r \<noteq> ?r" if "map_of (ss_requests ?ss) j = Some r" for j r
      using session_refs(2) [OF inv that] by simp
    then show ?thesis
      using ok len room' q True
      by (auto simp: session_ok_def Let_def b'_def ss'_def algebra_simps less_Suc_eq)
  next
    case False
    have "session_ok cfg b t" using inv t by (simp add: acct_inv_def)
    moreover have "r \<noteq> ?r" if "map_of (ss_requests (br_sess b t)) j = Some r" for j r
      using session_refs(2) [OF inv that] by simp
    ultimately show ?thesis
      using False by (auto simp: session_ok_def Let_def b'_def less_Suc_eq)
  qed
  have req: "request_ok b' x" if "x < Suc ?r" for x
  proof (cases "x = ?r")
    case True
    then show ?thesis using q s by (simp add: request_ok_def Let_def b'_def ss'_def)
  next
    case False
    then have x: "request_ok b x" using inv that by (simp add: acct_inv_def)
    have "rq_request_id (br_req b x) \<noteq> ?i"
      if "\<not> rq_reservation_released (br_req b x)" "rq_session_id (br_req b x) = s"
      using x that new by (auto simp: request_ok_def Let_def)
    with x False show ?thesis
      by (auto simp: request_ok_def Let_def b'_def ss'_def)
  qed
  have "totals_ok cfg b'"
    using tot s room' q(4) sum_set_update [of s "br_session_ids b" ss_reserved_outcomes "br_sess b" ss']
      sum_set_update [of s "br_session_ids b" ss_reserved_outcome_bytes "br_sess b" ss']
    by (simp add: totals_ok_def b'_def) (simp add: ss'_def)
  moreover have "tables_ok cfg b'"
  proof -
    have "r < ?r" if "map_of (br_requests b) j = Some r" for j r
      using tab that by (simp add: tables_ok_def)
    then have ref: "r \<noteq> ?r \<and> r < Suc ?r" if "map_of (br_requests b) j = Some r" for j r
      using that by fastforce
    show ?thesis
      using tab room' q s ref by (auto simp: tables_ok_def b'_def length_dict_update)
  qed
  moreover have "conns_ok b'"
    using inv by (auto simp: acct_inv_def conns_ok_def b'_def ss'_def)
  ultimately have "acct_inv cfg b'"
    using sess req by (simp add: acct_inv_def b'_def)
  moreover have "acct (accept_request cfg s q b) = acct b'"
    by (simp add: accept_request_def Let_def acct_simps)
      (simp add: acct_def b'_def ss'_def upd_defs fun_eq_iff)
  ultimately show ?thesis using acct_cong by blast
qed

lemma watermark_acct:
  assumes inv: "acct_inv cfg b"
  shows "acct_inv cfg (upd_sess s (\<lambda>ss. ss\<lparr>ss_watermark := n\<rparr>) b)"
proof -
  let ?b = "upd_sess s (\<lambda>ss. ss\<lparr>ss_watermark := n\<rparr>) b"
  have eqs: "br_nreq ?b = br_nreq b" "br_req ?b = br_req b" "br_session_ids ?b = br_session_ids b"
    "br_sessions ?b = br_sessions b" "br_requests ?b = br_requests b" "br_conn ?b = br_conn b"
    "br_reserved_outcomes ?b = br_reserved_outcomes b"
    "br_reserved_outcome_bytes ?b = br_reserved_outcome_bytes b"
    "\<And>t. ss_requests (br_sess ?b t) = ss_requests (br_sess b t)"
    "\<And>t. ss_reserved_outcomes (br_sess ?b t) = ss_reserved_outcomes (br_sess b t)"
    "\<And>t. ss_reserved_outcome_bytes (br_sess ?b t) = ss_reserved_outcome_bytes (br_sess b t)"
    "\<And>t. ss_max_result_bytes (br_sess ?b t) = ss_max_result_bytes (br_sess b t)"
    "\<And>t. ss_connection (br_sess ?b t) = ss_connection (br_sess b t)"
    "\<And>t. ss_principal (br_sess ?b t) = ss_principal (br_sess b t)"
    by (simp_all add: upd_sess_def)
  have "acct_inv cfg ?b = acct_inv cfg b"
    unfolding acct_defs Let_def by (simp only: eqs)
  with inv show ?thesis by simp
qed

lemma reject_acct: "acct_inv cfg b \<Longrightarrow> acct_inv cfg (reject cfg c i reason b)"
  by (erule acct_cong [rotated]) (simp add: acct_simps)

lemma send_acct: "acct_inv cfg b \<Longrightarrow> acct_inv cfg (conn_send cfg c kind control payload b)"
  by (erule acct_cong [rotated]) (simp add: acct_simps)

lemma submit_new_acct:
  assumes inv: "acct_inv cfg b" and s: "s \<in> set (br_session_ids b)" "ss_connection (br_sess b s) = c"
    and new: "map_of (ss_requests (br_sess b s)) i = None"
  shows "acct_inv cfg (fst (submit_new cfg c s i digest m now b))"
proof -
  have acc: "acct_inv cfg (accept_request cfg s
      (new_request i digest (br_sess b s) s c mode control payload now nums) b)"
    if "\<not> queue_full cfg s b" for mode control payload nums
    by (rule accept_request_acct [OF inv s(1) _ that]) (simp_all add: new_request_def new s)
  show ?thesis
    using acc inv reject_acct [OF inv] by (simp add: submit_new_def split: sum.splits prod.splits bool.splits)
qed

lemma submit_locked_acct:
  assumes inv: "acct_inv cfg b" and s: "s \<in> set (br_session_ids b)" "ss_connection (br_sess b s) = c"
  shows "acct_inv cfg (fst (submit_locked cfg c s i sequence digest m now b))"
proof -
  have rec: "acct_inv cfg (send_record cfg r b)" for r
    by (rule acct_cong [OF _ inv]) (simp add: acct_simps)
  have "acct_inv cfg (fst (submit_new cfg c s i digest m now (upd_sess s (\<lambda>ss. ss\<lparr>ss_watermark := sequence\<rparr>) b)))"
    if "map_of (ss_requests (br_sess b s)) i = None"
    by (rule submit_new_acct [OF watermark_acct [OF inv]]) (use s that in \<open>simp_all add: upd_sess_def\<close>)
  with rec inv reject_acct [OF inv] show ?thesis
    by (simp add: submit_locked_def split: option.splits)
qed

lemma submit_acct:
  assumes inv: "acct_inv cfg b"
  shows "acct_inv cfg (fst (submit cfg c m now b))"
proof (cases "cn_session (br_conn b c)")
  case None
  with inv show ?thesis by (simp add: submit_def)
next
  case (Some s)
  have s: "s \<in> set (br_session_ids b)" "ss_connection (br_sess b s) = c"
    using inv Some by (auto simp: acct_inv_def conns_ok_def)
  let ?b = "upd_stats (\<lambda>st. st\<lparr>st_received := st_received st + 1\<rparr>) b"
  have b1: "acct_inv cfg ?b"
    by (rule acct_cong [OF _ inv]) (simp add: acct_simps)
  have "acct_inv cfg (fst (submit_locked cfg c s i sequence digest m now ?b))" for i sequence digest
    by (rule submit_locked_acct [OF b1]) (use s in \<open>simp_all add: upd_stats_def\<close>)
  with b1 Some show ?thesis
    by (simp add: submit_def Let_def split: option.splits)
qed

lemma result_ack_acct:
  assumes inv: "acct_inv cfg b"
  shows "acct_inv cfg (result_ack c control b)"
proof (cases "owned_request c (jget control ''request_id'') b")
  case None
  with inv show ?thesis by (simp add: result_ack_def)
next
  case (Some r)
  then obtain s i where r: "map_of (ss_requests (br_sess b s)) i = Some r"
    by (auto simp: owned_request_def split: option.splits)
  have "acct_inv cfg (remove_request_locked r b)"
  proof (cases "s \<in> set (br_sessions b)")
    case True
    then show ?thesis using remove_mapped(1) [OF inv r] by simp
  next
    case False
    then show ?thesis
      using inv session_refs(4) [OF inv r] by (simp add: remove_request_locked_def Let_def)
  qed
  with Some inv show ?thesis by (simp add: result_ack_def)
qed

lemma cancel_request_acct:
  assumes inv: "acct_inv cfg b"
  shows "acct_inv cfg (fst (cancel_request cfg c control b))"
proof -
  have "acct_inv cfg b'" if "cancel_decision cfg c found hard control b = Inr (b', response)"
    for found hard b' response
    using that inv by (auto simp: cancel_decision_def cancel_acct split: option.splits if_splits sum.splits bool.splits)
  with inv show ?thesis
    by (auto simp: cancel_request_def intro!: send_acct split: sum.splits prod.splits)
qed

lemma cancel_group_loop_acct:
  "acct_inv cfg b \<Longrightarrow> acct_inv cfg (fst (cancel_group_loop cfg c hard control rs counts b))"
proof (induction cfg c hard control rs counts b rule: cancel_group_loop.induct)
  case (2 cfg c hard control r rs cancelled running ended b)
  then show ?case
    by (auto simp: cancel_acct split: sum.splits bool.splits)
qed simp

lemma cancel_group_acct:
  assumes inv: "acct_inv cfg b"
  shows "acct_inv cfg (fst (cancel_group cfg c control b))"
proof -
  let ?g = "jget control ''group_id''" and ?hard = "truthy (jget control ''hard'')"
  obtain b' res where l: "cancel_group_loop cfg c ?hard control
      (if json_str ?g = None then [] else group_records c ?g b) (0, 0, 0) b = (b', res)"
    by fastforce
  then have "acct_inv cfg b'" using cancel_group_loop_acct [OF inv] by (metis fst_conv)
  then show ?thesis
    by (cases res) (simp_all add: cancel_group_def Let_def l send_acct split: prod.splits)
qed

lemma handle_message_acct:
  assumes inv: "acct_inv cfg b"
  shows "acct_inv cfg (fst (handle_message cfg c m now pool_statistics b))"
proof -
  have same: "acct_inv cfg (request_status cfg c control b)"
    "acct_inv cfg (fst (stats_request cfg c control st b))" "acct_inv cfg (fst (close_session cfg c control b))"
    for control st
    by (rule acct_cong [OF _ inv],
        simp add: request_status_def stats_request_def close_session_def acct_simps split: sum.splits option.splits bool.splits)+
  show ?thesis
    using same inv submit_acct [OF inv] cancel_request_acct [OF inv] cancel_group_acct [OF inv]
    by (cases "msg_kind m") (simp_all add: handle_message_def send_acct result_ack_acct)
qed

subsection \<open>Connections, start-up and shutdown\<close>

lemma disconnect_acct:
  assumes inv: "acct_inv cfg b"
  shows "acct_inv cfg (disconnect cfg c b)"
proof -
  define b0 where "b0 = (conn_close cfg c b)\<lparr>br_connections := remove1 c (br_connections (conn_close cfg c b))\<rparr>"
  define b1 where "b1 = upd_stats (\<lambda>s. s\<lparr>st_connections := int (length (br_connections b0))\<rparr>) b0"
  have b1: "acct_inv cfg b1"
    by (rule acct_cong [OF _ inv]) (simp add: b1_def b0_def acct_simps)
  have fold: "acct_inv cfg (fold (disconnect_record cfg) rs b1)" for rs
    by (rule fold_acct [OF _ b1]) (rule record_acct)
  show ?thesis
    unfolding disconnect_def Let_def b0_def [symmetric] b1_def [symmetric]
    by (rule acct_cong [OF acct_upd(1)]) (simp_all add: b1 fold purge_session_acct split: option.splits)
qed

lemma connection_failed_acct:
  assumes inv: "acct_inv cfg b"
  shows "acct_inv cfg (connection_failed cfg c e b)"
proof -
  have "acct_inv cfg (conn_flush cfg c (conn_send cfg c M_PROTOCOL_ERROR control [] b))" for control
    by (rule acct_cong [OF _ inv]) (simp add: acct_simps)
  with inv show ?thesis by (simp add: connection_failed_def disconnect_acct)
qed

lemma loop_result_acct: "acct_inv cfg (fst res) \<Longrightarrow> acct_inv cfg (loop_result cfg c res)"
  by (auto simp: loop_result_def connection_failed_acct split: prod.splits sum.splits)

lemma open_session_acct:
  assumes inv: "acct_inv cfg b" and s: "s \<notin> set (br_session_ids b)" and n: "0 < n"
    and l: "limits_ok (sv_limits cfg)"
  shows "acct_inv cfg (open_session cfg c s client_id who n b)"
proof -
  define ss' where "ss' = \<lparr>ss_client_id = client_id, ss_principal = who, ss_connection = c,
      ss_max_result_bytes = n, ss_watermark = 0, ss_reserved_outcomes = 0, ss_reserved_outcome_bytes = 0,
      ss_requests = []\<rparr>"
  define b' where "b' = upd_conn c (\<lambda>k. k\<lparr>cn_session := Some s\<rparr>) (b\<lparr>br_sess := (br_sess b)(s := ss'),
      br_session_ids := br_session_ids b @ [s], br_sessions := br_sessions b @ [s]\<rparr>)"
  have lim: "0 < max_pending_per_session (sv_limits cfg)" "0 < max_retained_outcomes_per_session (sv_limits cfg)"
    "0 < max_retained_outcome_bytes_per_session (sv_limits cfg)"
    using l by (simp_all add: limits_ok_def)
  have old: "rq_session_id (br_req b r) \<noteq> s" if "r < br_nreq b" for r
    using inv s that by (auto simp: acct_inv_def request_ok_def Let_def)
  have sess: "session_ok cfg b' t" if t: "t \<in> set (br_session_ids b')" for t
  proof (cases "t = s")
    case True
    then show ?thesis using n lim by (simp add: session_ok_def b'_def ss'_def upd_conn_def)
  next
    case False
    then have "session_ok cfg b t" using inv t by (auto simp: acct_inv_def b'_def upd_conn_def)
    with False show ?thesis by (simp add: session_ok_def b'_def upd_conn_def)
  qed
  have req: "request_ok b' r" if "r < br_nreq b" for r
  proof -
    have "request_ok b r" using inv that by (simp add: acct_inv_def)
    with old [OF that] show ?thesis by (simp add: request_ok_def Let_def b'_def upd_conn_def)
  qed
  have sum: "(\<Sum>x \<in> set (br_session_ids b). w (((br_sess b)(s := ss')) x)) = (\<Sum>x \<in> set (br_session_ids b). w (br_sess b x))"
    for w :: "session \<Rightarrow> int"
    by (intro sum.cong) (use s in auto)
  have "totals_ok cfg b'"
    using inv s sum [of ss_reserved_outcomes] sum [of ss_reserved_outcome_bytes]
    by (simp add: acct_inv_def totals_ok_def b'_def upd_conn_def) (simp add: ss'_def)
  moreover have "tables_ok cfg b'"
    using inv s by (auto simp: acct_inv_def tables_ok_def b'_def upd_conn_def)
  moreover have "conns_ok b'"
    using inv s by (auto simp: acct_inv_def conns_ok_def b'_def upd_conn_def ss'_def)
  ultimately have "acct_inv cfg b'"
    using sess req by (simp add: acct_inv_def) (simp add: b'_def upd_conn_def)
  moreover have "acct (open_session cfg c s client_id who n b) = acct b'"
    by (simp add: open_session_def acct_simps) (simp add: acct_def b'_def ss'_def upd_conn_def fun_eq_iff)
  ultimately show ?thesis using acct_cong by blast
qed

lemma handshake_acct:
  assumes inv: "acct_inv cfg b" and s: "s \<notin> set (br_session_ids b)" and l: "limits_ok (sv_limits cfg)"
  shows "acct_inv cfg (fst (handshake cfg c peer s hello b))"
proof -
  have rej: "acct_inv cfg (handshake_rejected cfg c reason b)" for reason
    by (simp add: handshake_rejected_def send_acct inv)
  have opened: "acct_inv cfg (open_session cfg c s client_id who (effective_result_limit cfg offered) b)"
    if v: "validate_hello hello = Inr ()" and o: "json_int (jget hello ''max_result_bytes'') = Some offered"
    for client_id who offered
  proof (rule open_session_acct [OF inv s _ l])
    have "0 < offered"
      using v o by (auto simp: validate_hello_def positive_json_def json_int_Some split: if_splits)
    then show "0 < effective_result_limit cfg offered"
      using l by (simp add: effective_result_limit_def limits_ok_def)
  qed
  show ?thesis
    using inv rej opened by (auto simp: handshake_def split: sum.splits option.splits prod.splits)
qed

lemma quiet_event_acct [acct_simps]:
  "acct (server_start b) = acct b" "acct (server_initialize ok b) = acct b"
  "acct (accept_socket_loop cfg sock b) = acct b" "acct (fst (shutdown cancel deadline now b)) = acct b"
  by (simp_all add: server_start_def server_initialize_def accept_socket_loop_def shutdown_def Let_def acct_def
      split: sum.splits server_state.splits)

lemma prepare_connection_acct:
  assumes inv: "acct_inv cfg b"
  shows "acct_inv cfg (prepare_connection cfg sock ready tr b)"
proof -
  define b' where "b' = b\<lparr>br_conn := (br_conn b)(br_nconn b := new_connection tr)\<rparr>"
  have "acct_inv cfg b'"
    using inv by (auto simp: acct_inv_def session_ok_def request_ok_def totals_ok_def tables_ok_def conns_ok_def
        b'_def new_connection_def)
  moreover have "acct (prepare_connection cfg sock ready tr b) = (if ready then acct b' else acct b)"
    by (simp add: prepare_connection_def Let_def acct_simps) (simp add: acct_def b'_def)
  ultimately show ?thesis using inv acct_cong by (metis (full_types))
qed

lemma cancelled_for_shutdown_acct: "acct_inv cfg b \<Longrightarrow> acct_inv cfg (cancelled_for_shutdown cfg b)"
  by (auto simp: cancelled_for_shutdown_def intro: fold_acct record_acct)

lemma finish_shutdown_acct:
  assumes inv: "acct_inv cfg b"
  shows "acct_inv cfg (finish_shutdown_wait cfg now b)" "acct_inv cfg (finish_shutdown_close cfg b)"
proof -
  define b1 where "b1 = cancelled_for_shutdown cfg b"
  have b1: "acct_inv cfg b1" using cancelled_for_shutdown_acct [OF inv] by (simp add: b1_def)
  have "acct_inv cfg (fold (shutdown_deadline_record cfg) rs b1)" for rs
    by (rule fold_acct [OF _ b1]) (rule record_acct)
  then have stop: "acct_inv cfg (b'\<lparr>br_state := STOPPING, br_shutdown_phase := S_closing\<rparr>)"
    if "b' = b \<or> b' = fold (shutdown_deadline_record cfg) rs b1" for b' rs
    using that inv by (intro acct_cong [of "b'\<lparr>br_state := STOPPING, br_shutdown_phase := S_closing\<rparr>" b'])
      (auto simp: acct_simps)
  show "acct_inv cfg (finish_shutdown_wait cfg now b)"
    unfolding finish_shutdown_wait_def cancelled_for_shutdown_def [symmetric] b1_def [symmetric]
    using inv b1 stop by (auto simp: Let_def split: option.splits)
  have "acct (fold (goodbye cfg) cs b) = acct b" for cs b
    by (induction cs arbitrary: b) (simp_all add: goodbye_def acct_simps)
  then have "acct (finish_shutdown_close cfg b) = acct b"
    by (simp add: finish_shutdown_close_def acct_simps)
  then show "acct_inv cfg (finish_shutdown_close cfg b)" using inv by (rule acct_cong)
qed

lemma writer_session: "cn_session (writer_step cfg sent c) = cn_session c"
  by (auto simp: writer_step_def split: list.splits outbound.splits)

lemma server_step_acct:
  assumes inv: "acct_inv cfg b" and l: "limits_ok (sv_limits cfg)"
  shows "acct_inv cfg (server_step cfg ev b)"
proof (cases ev)
  case (Ev_hello c peer s m)
  then show ?thesis
    using inv handshake_acct [OF inv _ l] by (auto simp: connection_hello_def intro!: loop_result_acct)
next
  case (Ev_message c m now st)
  then show ?thesis
    using inv handle_message_acct [OF inv] by (auto simp: connection_message_def intro!: loop_result_acct)
next
  case (Ev_writer c sent)
  then show ?thesis
    using inv acct_cong [OF acct_upd(1) inv, of "writer_step cfg sent"] by (simp add: writer_session)
qed (use inv acct_cong [OF quiet_event_acct(1) inv] acct_cong [OF quiet_event_acct(2) inv]
      acct_cong [OF quiet_event_acct(3) inv] acct_cong [OF quiet_event_acct(4) inv]
    in \<open>simp_all add: connection_failed_acct dispatch_next_acct dispatch_submit_acct dispatch_attach_acct
      pool_acct finish_shutdown_acct prepare_connection_acct\<close>)

lemma server_init_acct: "limits_ok (sv_limits cfg) \<Longrightarrow> acct_inv cfg server_init"
  by (simp add: acct_defs server_init_def new_connection_def limits_ok_def)

subsection \<open>Reachable states\<close>

definition server_inv :: "server_config \<Rightarrow> broker \<Rightarrow> bool" where
  "server_inv cfg b \<longleftrightarrow> lane_inv cfg b \<and> acct_inv cfg b"

lemma server_step_inv:
  assumes "limits_ok (sv_limits cfg)" and "server_inv cfg b"
  shows "server_inv cfg (server_step cfg ev b)"
proof -
  have lane: "lane_inv cfg b" and acct: "acct_inv cfg b"
    using assms(2) by (simp_all add: server_inv_def)
  have "lane_inv cfg (server_step cfg ev b)"
    by (rule server_step_lane [OF lane acct_refs [OF acct] acct_refs [OF cancelled_for_shutdown_acct [OF acct]]])
      (use acct_refs [OF handle_message_acct [OF acct]] acct_refs [OF handshake_acct [OF acct _ assms(1)]] in auto)
  with server_step_acct [OF acct assms(1)] show ?thesis by (simp add: server_inv_def)
qed

lemma reachable_inv:
  assumes "limits_ok (sv_limits cfg)" and "reachable cfg b"
  shows "server_inv cfg b"
  using assms(2)
proof induction
  case init
  show ?case using assms(1) by (simp add: server_init_lane server_init_acct server_inv_def)
next
  case (step b ev)
  then show ?case using assms(1) by (simp add: server_step_inv)
qed

end
