(* ===== verification/Micro.thy ===== *)
theory Micro
  imports Accounts
begin

text \<open>
  Every event of the server is a sequence of small changes: one field of one request, connection or
  session at a time.  Facts about the life of a request, a connection or a session then need one look
  at each kind of change instead of one at each handler.
\<close>

subsection \<open>The changes\<close>

inductive req_change :: "request \<Rightarrow> request \<Rightarrow> bool" where
  terminate: "\<not> terminal (rq_state q) \<Longrightarrow> terminal st \<Longrightarrow>
    req_change q (q\<lparr>rq_state := st, rq_payload := [], rq_terminal_kind := Some kind,
                    rq_terminal_control := control, rq_terminal_payload := payload\<rparr>)"
| start: "rq_state q = ACCEPTED_QUEUED \<Longrightarrow> req_change q (q\<lparr>rq_state := RUNNING\<rparr>)"
| future: "req_change q (q\<lparr>rq_local_future := f\<rparr>)"
| payload: "req_change q (q\<lparr>rq_payload := []\<rparr>)"
| release: "req_change q (q\<lparr>rq_reservation_released := True\<rparr>)"
| clear: "rq_reservation_released q \<Longrightarrow> req_change q (q\<lparr>rq_payload := [], rq_terminal_payload := []\<rparr>)"

inductive conn_change :: "server_config \<Rightarrow> connection \<Rightarrow> connection \<Rightarrow> bool" for cfg where
  put: "conn_change cfg k (connection_put cfg item k)"
| close: "conn_change cfg k (connection_close cfg k)"
| wrote: "conn_change cfg k (writer_step cfg sent k)"
| finish: "conn_change cfg k (k\<lparr>cn_phase := C_done\<rparr>)"
| clean: "conn_change cfg k (k\<lparr>cn_clean_close := True\<rparr>)"
| session: "conn_change cfg k (k\<lparr>cn_session := Some s, cn_phase := C_open\<rparr>)"

text \<open>A session keeps its identity and its watermark only rises.\<close>

definition sess_change :: "session \<Rightarrow> session \<Rightarrow> bool" where
  "sess_change ss ss' \<longleftrightarrow>
     ss_client_id ss' = ss_client_id ss \<and> ss_principal ss' = ss_principal ss \<and>
     ss_connection ss' = ss_connection ss \<and> ss_max_result_bytes ss' = ss_max_result_bytes ss \<and>
     ss_watermark ss \<le> ss_watermark ss'"

definition core where
  "core b = (br_req b, br_nreq b, br_conn b, br_nconn b, br_sess b, br_session_ids b)"

definition fresh_request :: "server_config \<Rightarrow> session \<Rightarrow> pystr \<Rightarrow> request \<Rightarrow> int \<Rightarrow> bool" where
  "fresh_request cfg ss s q n \<longleftrightarrow>
     rq_session_id q = s \<and> rq_state q = ACCEPTED_QUEUED \<and> \<not> rq_reservation_released q \<and>
     request_sequence cfg (rq_request_id q) = Some n \<and> ss_watermark ss < n"

inductive micro :: "server_config \<Rightarrow> broker \<Rightarrow> broker \<Rightarrow> bool" for cfg where
  request: "req_change (br_req b r) q \<Longrightarrow> micro cfg b (b\<lparr>br_req := (br_req b)(r := q)\<rparr>)"
| connection: "conn_change cfg (br_conn b c) k \<Longrightarrow> micro cfg b (b\<lparr>br_conn := (br_conn b)(c := k)\<rparr>)"
| session: "sess_change (br_sess b s) ss \<Longrightarrow> micro cfg b (b\<lparr>br_sess := (br_sess b)(s := ss)\<rparr>)"
| accept: "s \<in> set (br_session_ids b) \<Longrightarrow> fresh_request cfg (br_sess b s) s q n \<Longrightarrow>
    micro cfg b (b\<lparr>br_sess := (br_sess b)(s := (br_sess b s)\<lparr>ss_watermark := n\<rparr>),
                   br_req := (br_req b)(br_nreq b := q), br_nreq := Suc (br_nreq b)\<rparr>)"
| new_connection: "micro cfg b (b\<lparr>br_conn := (br_conn b)(br_nconn b := new_connection tr), br_nconn := Suc (br_nconn b)\<rparr>)"
| new_session: "s \<notin> set (br_session_ids b) \<Longrightarrow>
    micro cfg b (b\<lparr>br_sess := (br_sess b)(s := ss), br_session_ids := br_session_ids b @ [s]\<rparr>)"
| other: "core b' = core b \<Longrightarrow> micro cfg b b'"

abbreviation micros :: "server_config \<Rightarrow> broker \<Rightarrow> broker \<Rightarrow> bool" where
  "micros cfg \<equiv> (micro cfg)\<^sup>*\<^sup>*"

subsection \<open>The broker's operations as sequences of changes\<close>

named_theorems micros_intro "operations that are sequences of small changes"

lemma micros_step: "micros cfg a b \<Longrightarrow> micro cfg b b' \<Longrightarrow> micros cfg a b'"
  by (rule rtranclp.rtrancl_into_rtrancl)

lemma micros_other: "micros cfg a b \<Longrightarrow> core b' = core b \<Longrightarrow> micros cfg a b'"
  by (blast intro: micros_step micro.other)

lemma micros_upd_conn:
  "micros cfg a b \<Longrightarrow> conn_change cfg (br_conn b c) (g (br_conn b c)) \<Longrightarrow> micros cfg a (upd_conn c g b)"
  unfolding upd_conn_def by (blast intro: micros_step micro.connection)

lemma micros_upd_req:
  "micros cfg a b \<Longrightarrow> req_change (br_req b r) (g (br_req b r)) \<Longrightarrow> micros cfg a (upd_req r g b)"
  unfolding upd_req_def by (blast intro: micros_step micro.request)

lemma micros_upd_sess:
  "micros cfg a b \<Longrightarrow> sess_change (br_sess b s) (g (br_sess b s)) \<Longrightarrow> micros cfg a (upd_sess s g b)"
  unfolding upd_sess_def by (blast intro: micros_step micro.session)

lemma micros_fields [micros_intro]:
  "micros cfg a b \<Longrightarrow> micros cfg a (upd_stats h b)"
  "micros cfg a b \<Longrightarrow> micros cfg a (upd_fut f k b)"
  "micros cfg a b \<Longrightarrow> micros cfg a (unqueue r b)"
  "micros cfg a b \<Longrightarrow> micros cfg a (b\<lparr>br_staged := n\<rparr>)"
  "micros cfg a b \<Longrightarrow> micros cfg a (b\<lparr>br_dispatch := d\<rparr>)"
  "micros cfg a b \<Longrightarrow> micros cfg a (b\<lparr>br_killed := w\<rparr>)"
  "micros cfg a b \<Longrightarrow> micros cfg a (b\<lparr>br_scheduler := sc\<rparr>)"
  "micros cfg a b \<Longrightarrow> micros cfg a (b\<lparr>br_requests := rs\<rparr>)"
  "micros cfg a b \<Longrightarrow> micros cfg a (b\<lparr>br_sessions := sess, br_client_sessions := cs\<rparr>)"
  "micros cfg a b \<Longrightarrow> micros cfg a (b\<lparr>br_reserved_outcomes := x, br_reserved_outcome_bytes := y\<rparr>)"
  "micros cfg a b \<Longrightarrow> micros cfg a (b\<lparr>br_connections := conns\<rparr>)"
  "micros cfg a b \<Longrightarrow> micros cfg a (b\<lparr>br_raw_sockets := raws\<rparr>)"
  by (erule micros_other, simp add: core_def upd_stats_def upd_fut_def unqueue_def)+

lemma micros_conn [micros_intro]:
  "micros cfg a b \<Longrightarrow> micros cfg a (conn_send cfg c kind control payload b)"
  "micros cfg a b \<Longrightarrow> micros cfg a (conn_flush cfg c b)"
  "micros cfg a b \<Longrightarrow> micros cfg a (conn_close cfg c b)"
  by (simp_all add: conn_send_def conn_flush_def conn_close_def micros_upd_conn conn_change.intros)

lemma micros_terminal [micros_intro]:
  assumes "micros cfg a b" and "terminal st"
  shows "micros cfg a (terminal_locked cfg r st kind control payload b)"
proof (cases "terminal (rq_state (br_req b r))")
  case False
  then have "micros cfg a (upd_req r (\<lambda>q. q\<lparr>rq_state := st, rq_payload := [], rq_terminal_kind := Some kind,
      rq_terminal_control := control, rq_terminal_payload := payload\<rparr>) b)"
    using assms by (intro micros_upd_req) (auto intro: req_change.terminate)
  with False show ?thesis
    unfolding terminal_locked_def by (simp add: micros_intro)
qed (use assms in \<open>simp add: terminal_locked_def\<close>)

lemma micros_remove [micros_intro]:
  assumes "micros cfg a b"
  shows "micros cfg a (remove_request_locked r b)"
proof (cases "rq_session_id (br_req b r) \<in> set (br_sessions b)")
  case True
  let ?s = "rq_session_id (br_req b r)"
  have rel: "micros cfg a (release_reservation_locked ?s r b)"
  proof (cases "rq_reservation_released (br_req b r)")
    case False
    have "micros cfg a (upd_sess ?s (\<lambda>ss. ss\<lparr>ss_reserved_outcomes := ss_reserved_outcomes ss - 1,
        ss_reserved_outcome_bytes := ss_reserved_outcome_bytes ss - n\<rparr>)
        (upd_req r (\<lambda>q. q\<lparr>rq_reservation_released := True\<rparr>) b))" for n
      using assms by (intro micros_upd_sess micros_upd_req) (simp_all add: req_change.release sess_change_def)
    then show ?thesis
      using False unfolding release_reservation_locked_def Let_def by (simp add: micros_intro)
  qed (use assms in \<open>simp add: release_reservation_locked_def\<close>)
  let ?b = "release_reservation_locked ?s r b"
  have "rq_reservation_released (br_req ?b r)"
    by (simp add: release_reservation_locked_def Let_def upd_defs)
  then have "micros cfg a (upd_sess ?s (\<lambda>ss. ss\<lparr>ss_requests := AList.delete i (ss_requests ss)\<rparr>)
      (upd_req r (\<lambda>q. q\<lparr>rq_payload := [], rq_terminal_payload := []\<rparr>) ?b))" for i
    using rel by (intro micros_upd_sess micros_upd_req) (simp_all add: req_change.clear sess_change_def)
  then show ?thesis
    using True unfolding remove_request_locked_def Let_def by (simp add: micros_intro)
qed (use assms in \<open>simp add: remove_request_locked_def Let_def\<close>)

lemma micros_fold:
  "(\<And>r b. micros cfg a b \<Longrightarrow> micros cfg a (g r b)) \<Longrightarrow> micros cfg a b \<Longrightarrow> micros cfg a (fold g rs b)"
  by (induction rs arbitrary: b) auto

lemma micros_purge [micros_intro]:
  assumes "micros cfg a b"
  shows "micros cfg a (purge_session_locked s b)"
proof -
  have "micros cfg a (fold purge_record rs b)" for rs
    by (rule micros_fold [OF _ assms]) (simp add: purge_record_def micros_intro)
  then show ?thesis
    unfolding purge_session_locked_def Let_def by (simp add: micros_intro)
qed

lemma micros_complete [micros_intro]:
  assumes "micros cfg a b"
  shows "micros cfg a (complete_local cfg r out b)"
proof -
  have "micros cfg a (unstage r b')" if "micros cfg a b'" for b'
    using that by (simp add: unstage_def Let_def micros_intro)
  moreover have "terminal st" if "outcome_terminal cfg i out = (st, kind, control, payload)" for i st kind control payload
    using outcome_terminal_state [of cfg i out] that by simp
  ultimately show ?thesis
    using assms by (auto simp: complete_local_def micros_terminal split: prod.splits)
qed

lemma micros_future [micros_intro]:
  "micros cfg a b \<Longrightarrow> micros cfg a (pool_done cfg f b)"
  "micros cfg a b \<Longrightarrow> micros cfg a (future_cancel cfg f b)"
  "micros cfg a b \<Longrightarrow> micros cfg a (cancel_local_future cfg r b)"
  "micros cfg a b \<Longrightarrow> micros cfg a (kill_local_future cfg r b)"
proof -
  show fin: "micros cfg a b \<Longrightarrow> micros cfg a (pool_done cfg f b)" for f b
    by (simp add: pool_done_def micros_intro split: future_state.splits)
  show cancel: "micros cfg a b \<Longrightarrow> micros cfg a (future_cancel cfg f b)" for f b
    by (simp add: future_cancel_def Let_def micros_fields fin)
  show "micros cfg a b \<Longrightarrow> micros cfg a (cancel_local_future cfg r b)"
    by (simp add: cancel_local_future_def cancel split: option.splits)
  show "micros cfg a b \<Longrightarrow> micros cfg a (kill_local_future cfg r b)"
    by (simp add: kill_local_future_def Let_def cancel micros_fields split: option.splits)
qed

lemma micros_cancel [micros_intro]:
  "micros cfg a b \<Longrightarrow> terminal st \<Longrightarrow> micros cfg a (cancel_queued cfg r st kind reason b)"
  "micros cfg a b \<Longrightarrow> micros cfg a (cancel_running cfg r reason b)"
  by (simp_all add: cancel_queued_def cancel_running_def micros_intro)

lemma micros_records [micros_intro]:
  "micros cfg a b \<Longrightarrow> micros cfg a (expire_record cfg now r b)"
  "micros cfg a b \<Longrightarrow> micros cfg a (disconnect_record cfg r b)"
  "micros cfg a b \<Longrightarrow> micros cfg a (shutdown_cancel_record cfg r b)"
  "micros cfg a b \<Longrightarrow> micros cfg a (shutdown_deadline_record cfg r b)"
  by (simp_all add: expire_record_def disconnect_record_def shutdown_cancel_record_def
      shutdown_deadline_record_def micros_intro terminal_def)

lemma micros_record_folds [micros_intro]:
  "micros cfg a b \<Longrightarrow> micros cfg a (fold (expire_record cfg now) rs b)"
  "micros cfg a b \<Longrightarrow> micros cfg a (fold (disconnect_record cfg) rs b)"
  "micros cfg a b \<Longrightarrow> micros cfg a (fold (shutdown_cancel_record cfg) rs b)"
  "micros cfg a b \<Longrightarrow> micros cfg a (fold (shutdown_deadline_record cfg) rs b)"
  by (blast intro: micros_fold micros_records)+

lemma micros_expire [micros_intro]: "micros cfg a b \<Longrightarrow> micros cfg a (expire_queued_locked cfg now b)"
  by (simp add: expire_queued_locked_def micros_intro)

lemma micros_local_future [micros_intro]:
  "micros cfg a b \<Longrightarrow> micros cfg a (upd_req r (\<lambda>q. q\<lparr>rq_local_future := f\<rparr>) b)"
  "micros cfg a b \<Longrightarrow> micros cfg a (upd_req r (\<lambda>q. q\<lparr>rq_payload := []\<rparr>) b)"
  by (simp_all add: micros_upd_req req_change.intros)

lemma micros_dispatch_fields [micros_intro]:
  "micros cfg a b \<Longrightarrow> micros cfg a (b\<lparr>br_staged := n, br_dispatch := d\<rparr>)"
  "micros cfg a b \<Longrightarrow> micros cfg a (b\<lparr>br_fut := fu, br_nfut := nf\<rparr>)"
  "micros cfg a b \<Longrightarrow> micros cfg a (b\<lparr>br_scheduler := sc, br_fut := fu, br_nfut := nf\<rparr>)"
  "micros cfg a b \<Longrightarrow> micros cfg a (b\<lparr>br_staged := n, br_dispatch := d, br_scheduler := sc\<rparr>)"
  by (erule micros_other, simp add: core_def)+

lemma micros_dispatch_next [micros_intro]:
  assumes "micros cfg a b"
  shows "micros cfg a (dispatch_next cfg now b)"
proof -
  have e: "micros cfg a (expire_queued_locked cfg now b)" using assms by (rule micros_expire)
  show ?thesis
    unfolding dispatch_next_def Let_def
    by (auto simp: assms e intro!: micros_intro split: sum.splits prod.splits)
qed

lemma micros_dispatch [micros_intro]:
  "micros cfg a b \<Longrightarrow> micros cfg a (dispatch_submit cfg answer b)"
  "micros cfg a b \<Longrightarrow> micros cfg a (dispatch_attach cfg b)"
  unfolding dispatch_submit_def dispatch_attach_def Let_def
  by (auto intro!: micros_intro split: dispatch_phase.splits pool_answer.splits)

lemma micros_publish [micros_intro]: "micros cfg a b \<Longrightarrow> micros cfg a (publish_running cfg r pid b)"
  by (auto simp: publish_running_def Let_def intro!: micros_intro split: option.splits)

lemma micros_claim [micros_intro]:
  assumes "micros cfg a b"
  shows "micros cfg a (fst (claim_dispatch cfg r pid now b))"
proof -
  have "micros cfg a (upd_req r (\<lambda>q. q\<lparr>rq_state := RUNNING\<rparr>) b)" if "rq_state (br_req b r) = ACCEPTED_QUEUED"
    using assms that by (intro micros_upd_req) (auto intro: req_change.start)
  with assms show ?thesis
    by (simp add: claim_dispatch_def micros_intro terminal_def)
qed

lemma micros_pool [micros_intro]:
  "micros cfg a b \<Longrightarrow> micros cfg a (pool_claims cfg f pid now b)"
  "micros cfg a b \<Longrightarrow> micros cfg a (pool_finishes cfg f out b)"
  by (simp_all add: pool_claims_def pool_finishes_def Let_def micros_intro)

lemma micros_replies [micros_intro]:
  "micros cfg a b \<Longrightarrow> micros cfg a (reject cfg c i reason b)"
  "micros cfg a b \<Longrightarrow> micros cfg a (send_record cfg r b)"
  "micros cfg a b \<Longrightarrow> micros cfg a (request_status cfg c control b)"
  "micros cfg a b \<Longrightarrow> micros cfg a (result_ack c control b)"
  "micros cfg a b \<Longrightarrow> micros cfg a (handshake_rejected cfg c why b)"
  by (simp_all add: reject_def request_status_def result_ack_def handshake_rejected_def micros_intro split: option.splits)
    (auto simp: send_record_def Let_def intro!: micros_intro split: request_state.splits option.splits)

text \<open>An acceptance moves the watermark and creates the record in one change.\<close>

lemma accept_micros:
  assumes m: "micros cfg a b" and s: "s \<in> set (br_session_ids b)"
    and q: "fresh_request cfg (br_sess b s) s q n"
  shows "micros cfg a (accept_request cfg s q (upd_sess s (\<lambda>ss. ss\<lparr>ss_watermark := n\<rparr>) b))"
proof -
  let ?b = "b\<lparr>br_sess := (br_sess b)(s := (br_sess b s)\<lparr>ss_watermark := n\<rparr>),
              br_req := (br_req b)(br_nreq b := q), br_nreq := Suc (br_nreq b)\<rparr>"
  let ?g = "\<lambda>ss. ss\<lparr>ss_requests := AList.update (rq_request_id q) (br_nreq b) (ss_requests ss),
                    ss_reserved_outcomes := ss_reserved_outcomes ss + 1,
                    ss_reserved_outcome_bytes := ss_reserved_outcome_bytes ss + rq_reserved_result_bytes q\<rparr>"
  have "micros cfg a ?b" using m micro.accept [OF s q] by (rule micros_step)
  then have "micros cfg a (upd_sess s ?g ?b)"
    by (rule micros_upd_sess) (simp add: sess_change_def)
  moreover have "core (upd_sess s ?g ?b) = core (b\<lparr>br_req := (br_req b)(br_nreq b := q), br_nreq := Suc (br_nreq b),
      br_sess := (br_sess b)(s := ?g ((br_sess b s)\<lparr>ss_watermark := n\<rparr>))\<rparr>)"
    by (simp add: core_def upd_sess_def)
  ultimately show ?thesis
    unfolding accept_request_def Let_def
    by (intro micros_conn micros_fields(1)) (erule micros_other, simp add: core_def upd_sess_def)
qed

lemma submit_new_micros:
  assumes m: "micros cfg a b" and s: "s \<in> set (br_session_ids b)"
    and n: "request_sequence cfg i = Some n" "ss_watermark (br_sess b s) < n"
  shows "micros cfg a (fst (submit_new cfg c s i digest m' now (upd_sess s (\<lambda>ss. ss\<lparr>ss_watermark := n\<rparr>) b)))"
proof -
  let ?b = "upd_sess s (\<lambda>ss. ss\<lparr>ss_watermark := n\<rparr>) b"
  have w: "micros cfg a ?b"
    using m n(2) by (intro micros_upd_sess) (simp_all add: sess_change_def)
  have "micros cfg a (accept_request cfg s (new_request i digest (br_sess ?b s) s c mode control payload now nums) ?b)"
    for mode control payload nums
    by (rule accept_micros [OF m s]) (simp add: fresh_request_def new_request_def n)
  with w show ?thesis
    unfolding submit_new_def by (auto intro!: micros_intro split: sum.splits bool.splits)
qed

lemma submit_micros:
  assumes m: "micros cfg a b" and ok: "conns_ok b"
  shows "micros cfg a (fst (submit cfg c m' now b))"
proof (cases "cn_session (br_conn b c)")
  case (Some s)
  let ?b = "upd_stats (\<lambda>st. st\<lparr>st_received := st_received st + 1\<rparr>) b"
  have "s \<in> set (br_session_ids ?b)"
    using Some ok by (auto simp: conns_ok_def upd_stats_def)
  then have "micros cfg a (fst (submit_locked cfg c s i n digest m' now ?b))"
    if "request_sequence cfg i = Some n" for i n digest
    using that m unfolding submit_locked_def
    by (auto intro!: submit_new_micros micros_intro split: option.splits)
  with m Some show ?thesis
    unfolding submit_def Let_def by (auto intro!: micros_intro split: option.splits)
qed (use m in \<open>simp add: submit_def\<close>)

lemma cancel_request_micros:
  assumes "micros cfg a b"
  shows "micros cfg a (fst (cancel_request cfg c control b))"
proof -
  have "micros cfg a b'" if "cancel_decision cfg c found hard control b = Inr (b', resp)" for found hard b' resp
    using that assms unfolding cancel_decision_def
    by (auto intro!: micros_intro simp: terminal_def split: option.splits if_splits sum.splits bool.splits)
  with assms show ?thesis
    unfolding cancel_request_def by (auto intro!: micros_conn split: sum.splits)
qed

lemma cancel_group_micros:
  assumes "micros cfg a b"
  shows "micros cfg a (fst (cancel_group cfg c control b))"
proof -
  have loop: "micros cfg a (fst (cancel_group_loop cfg c hard control rs cnt b))" for hard rs cnt
    using assms
    by (induction cfg c hard control rs cnt b rule: cancel_group_loop.induct)
      (auto simp: terminal_def micros_cancel split: sum.splits bool.splits)
  have "micros cfg a b'" if "cancel_group_loop cfg c hard control rs cnt b = (b', res)" for hard rs cnt b' res
    using loop [of hard rs cnt] that by simp
  with assms show ?thesis
    unfolding cancel_group_def Let_def
    by (auto intro!: micros_conn split: sum.splits prod.splits)
qed

lemma close_session_micros:
  assumes "micros cfg a b"
  shows "micros cfg a (fst (close_session cfg c control b))"
  unfolding close_session_def using assms
  by (auto intro!: micros_conn micros_upd_conn conn_change.clean split: option.splits)

lemma handle_message_micros:
  assumes "micros cfg a b" and "conns_ok b"
  shows "micros cfg a (fst (handle_message cfg c m now ps b))"
  unfolding handle_message_def using assms
  by (auto simp: stats_request_def intro!: micros_intro submit_micros cancel_request_micros
      cancel_group_micros close_session_micros split: message_type.splits sum.splits bool.splits)

lemma micros_finish [micros_intro]:
  "micros cfg a b \<Longrightarrow> micros cfg a (upd_conn c (\<lambda>k. k\<lparr>cn_phase := C_done\<rparr>) b)"
  by (simp add: micros_upd_conn conn_change.intros)

lemma micros_disconnect [micros_intro]: "micros cfg a b \<Longrightarrow> micros cfg a (disconnect cfg c b)"
  unfolding disconnect_def Let_def by (auto intro!: micros_intro split: option.splits)

lemma micros_connection_failed [micros_intro]:
  "micros cfg a b \<Longrightarrow> micros cfg a (connection_failed cfg c e b)"
  unfolding connection_failed_def by (auto intro!: micros_intro)

lemma loop_result_micros: "micros cfg a (fst res) \<Longrightarrow> micros cfg a (loop_result cfg c res)"
  unfolding loop_result_def by (auto intro!: micros_connection_failed split: prod.splits sum.splits)

lemma open_session_micros:
  assumes "micros cfg a b" and "s \<notin> set (br_session_ids b)"
  shows "micros cfg a (open_session cfg c s client_id who n b)"
proof -
  let ?b = "\<lambda>ss. b\<lparr>br_sess := (br_sess b)(s := ss), br_session_ids := br_session_ids b @ [s]\<rparr>"
  have "micros cfg a (?b ss)" for ss
    using assms by (blast intro: micros_step micro.new_session)
  then have "micros cfg a (b\<lparr>br_sess := (br_sess b)(s := ss), br_session_ids := br_session_ids b @ [s],
      br_sessions := x, br_client_sessions := y\<rparr>)" for ss x y
    by (rule micros_other) (simp add: core_def)
  then show ?thesis
    unfolding open_session_def by (intro micros_conn micros_upd_conn) (auto intro: conn_change.session)
qed

lemma handshake_micros:
  assumes "micros cfg a b" and "s \<notin> set (br_session_ids b)"
  shows "micros cfg a (fst (handshake cfg c peer s hello b))"
  unfolding handshake_def using assms
  by (auto intro!: micros_intro open_session_micros split: sum.splits option.splits)

lemma prepare_micros:
  assumes "micros cfg a b"
  shows "micros cfg a (prepare_connection cfg sock ready tr b)"
proof -
  let ?b = "b\<lparr>br_raw_sockets := remove1 sock (br_raw_sockets b)\<rparr>"
  have m: "micros cfg a ?b" using assms by (rule micros_fields)
  then have "micros cfg a (?b\<lparr>br_conn := (br_conn ?b)(br_nconn ?b := new_connection tr), br_nconn := Suc (br_nconn ?b)\<rparr>)"
    by (rule micros_step) (rule micro.new_connection)
  with m show ?thesis
    unfolding prepare_connection_def Let_def by (auto intro!: micros_intro)
qed

lemma micros_shutdown_fields [micros_intro]:
  "micros cfg a b \<Longrightarrow> micros cfg a (b\<lparr>br_state := st, br_shutdown_phase := ph\<rparr>)"
  by (erule micros_other, simp add: core_def)

lemma micros_goodbye [micros_intro]: "micros cfg a b \<Longrightarrow> micros cfg a (goodbye cfg c b)"
  unfolding goodbye_def by (intro micros_conn)

lemma core_eqs:
  "core (server_start b) = core b" "core (server_initialize ok b) = core b"
  "core (accept_socket_loop cfg sock b) = core b" "core (fst (shutdown cancel deadline now b)) = core b"
  by (auto simp: server_start_def server_initialize_def accept_socket_loop_def shutdown_def Let_def core_def
      split: sum.splits server_state.splits)

lemma shutdown_micros:
  "micros cfg a b \<Longrightarrow> micros cfg a (finish_shutdown_wait cfg now b)"
  "micros cfg a b \<Longrightarrow> micros cfg a (finish_shutdown_close cfg b)"
  unfolding finish_shutdown_wait_def finish_shutdown_close_def Let_def
  by (auto intro!: micros_intro intro: micros_fold split: option.splits)

text \<open>Every event is a sequence of changes.\<close>

lemma server_step_micros:
  assumes "conns_ok b"
  shows "micros cfg b (server_step cfg ev b)"
proof -
  have b: "micros cfg b b" by simp
  show ?thesis
  proof (cases ev)
    case (Ev_hello c peer s m)
    then show ?thesis using b
      by (auto simp: connection_hello_def intro!: loop_result_micros handshake_micros)
  next
    case (Ev_message c m now ps)
    then show ?thesis using b assms
      by (auto simp: connection_message_def intro!: loop_result_micros handle_message_micros)
  next
    case (Ev_writer c sent)
    then show ?thesis using b by (auto intro!: micros_upd_conn conn_change.wrote)
  qed (use b in \<open>auto simp: core_eqs intro: micros_other intro!: micros_intro prepare_micros shutdown_micros\<close>)
qed

end
