(* ===== verification/Lifecycle.thy ===== *)
theory Lifecycle
  imports Micro
begin

text \<open>
  What the changes of theory \<open>Micro\<close> add up to over a whole run of the server: the life of a request,
  the numbering of the requests of a session, and what a claim, an expiry pass and a shutdown do to
  the requests they find.
\<close>

subsection \<open>The life of a request\<close>

definition same_request :: "request \<Rightarrow> request \<Rightarrow> bool" where
  "same_request q q' \<longleftrightarrow>
     rq_request_id q' = rq_request_id q \<and> rq_digest q' = rq_digest q \<and> rq_principal q' = rq_principal q \<and>
     rq_session_id q' = rq_session_id q \<and> rq_connection q' = rq_connection q \<and> rq_mode q' = rq_mode q \<and>
     rq_operation q' = rq_operation q \<and> rq_priority q' = rq_priority q \<and>
     rq_execution_timeout q' = rq_execution_timeout q \<and> rq_queue_deadline q' = rq_queue_deadline q \<and>
     rq_group_id q' = rq_group_id q \<and> rq_max_result_bytes q' = rq_max_result_bytes q \<and>
     rq_reserved_result_bytes q' = rq_reserved_result_bytes q"

definition evolves :: "request \<Rightarrow> request \<Rightarrow> bool" where
  "evolves q q' \<longleftrightarrow>
     same_request q q' \<and>
     (rq_state q \<noteq> ACCEPTED_QUEUED \<longrightarrow> rq_state q' \<noteq> ACCEPTED_QUEUED) \<and>
     (terminal (rq_state q) \<longrightarrow>
        rq_state q' = rq_state q \<and> rq_terminal_kind q' = rq_terminal_kind q \<and>
        rq_terminal_control q' = rq_terminal_control q \<and>
        (\<not> rq_reservation_released q' \<longrightarrow> rq_terminal_payload q' = rq_terminal_payload q)) \<and>
     (rq_reservation_released q \<longrightarrow> rq_reservation_released q')"

lemma evolves_refl [simp]: "evolves q q"
  by (simp add: evolves_def same_request_def)

lemma evolves_trans [trans]: "evolves q q' \<Longrightarrow> evolves q' q'' \<Longrightarrow> evolves q q''"
proof -
  assume a: "evolves q q'" and b: "evolves q' q''"
  then have "same_request q q''" unfolding evolves_def same_request_def by (elim conjE) (intro conjI; simp only:)
  with a b show ?thesis unfolding evolves_def by metis
qed

lemma evolves_change: "req_change q q' \<Longrightarrow> evolves q q'"
  by (induction rule: req_change.induct) (auto simp: evolves_def same_request_def terminal_def)

lemma micro_evolves:
  assumes "micro cfg b b'"
  shows "br_nreq b \<le> br_nreq b' \<and> (\<forall>r < br_nreq b. evolves (br_req b r) (br_req b' r))"
  using assms by (induction rule: micro.induct) (auto simp: evolves_change core_def)

lemma micros_evolves:
  assumes "micros cfg b b'"
  shows "br_nreq b \<le> br_nreq b' \<and> (\<forall>r < br_nreq b. evolves (br_req b r) (br_req b' r))"
  using assms
proof (induction rule: rtranclp_induct)
  case (step b' b'')
  then show ?case
    using micro_evolves [OF step(2)] by (meson evolves_trans le_trans less_le_trans)
qed simp

lemma step_evolves:
  assumes "acct_inv cfg b"
  shows "br_nreq b \<le> br_nreq (server_step cfg ev b)"
    and "r < br_nreq b \<Longrightarrow> evolves (br_req b r) (br_req (server_step cfg ev b) r)"
  using micros_evolves [OF server_step_micros [of b cfg ev]] assms by (auto simp: acct_inv_def)

lemma run_Cons: "server_run cfg (ev # evs) b = server_run cfg evs (server_step cfg ev b)"
  by (simp add: server_run_def)

lemma run_Nil [simp]: "server_run cfg [] b = b"
  by (simp add: server_run_def)

lemma run_inv:
  assumes "server_inv cfg b" and "limits_ok (sv_limits cfg)"
  shows "server_inv cfg (server_run cfg evs b)"
  using assms by (induction evs arbitrary: b) (auto simp: run_Cons server_step_inv)

lemma run_evolves:
  assumes "server_inv cfg b" and "limits_ok (sv_limits cfg)" and "r < br_nreq b"
  shows "evolves (br_req b r) (br_req (server_run cfg evs b) r)"
  using assms
proof (induction evs arbitrary: b)
  case (Cons ev evs)
  have acct: "acct_inv cfg b" using Cons.prems(1) by (simp add: server_inv_def)
  have "evolves (br_req (server_step cfg ev b) r) (br_req (server_run cfg (ev # evs) b) r)"
    unfolding run_Cons
  proof (rule Cons.IH)
    show "server_inv cfg (server_step cfg ev b)" using Cons.prems by (blast intro: server_step_inv)
    show "r < br_nreq (server_step cfg ev b)" using step_evolves(1) [OF acct] Cons.prems(3) by (rule less_le_trans [rotated])
  qed (rule Cons.prems(2))
  with step_evolves(2) [OF acct Cons.prems(3)] show ?case by (rule evolves_trans)
qed simp

subsection \<open>Sequence numbers\<close>

definition sequence_of :: "server_config \<Rightarrow> request \<Rightarrow> int" where
  "sequence_of cfg q = the (request_sequence cfg (rq_request_id q))"

text \<open>
  Within a session the accepted requests are numbered in the order of their acceptance, up to the
  session's watermark.
\<close>

definition numbered :: "server_config \<Rightarrow> broker \<Rightarrow> bool" where
  "numbered cfg b \<longleftrightarrow>
     (\<forall>r < br_nreq b. rq_session_id (br_req b r) \<in> set (br_session_ids b) \<and>
        sequence_of cfg (br_req b r) \<le> ss_watermark (br_sess b (rq_session_id (br_req b r)))) \<and>
     (\<forall>r < br_nreq b. \<forall>r' < r. rq_session_id (br_req b r') = rq_session_id (br_req b r) \<longrightarrow>
        sequence_of cfg (br_req b r') < sequence_of cfg (br_req b r))"

lemma change_sequence:
  "req_change q q' \<Longrightarrow> rq_session_id q' = rq_session_id q \<and> sequence_of cfg q' = sequence_of cfg q"
  using evolves_change [of q q'] by (simp add: evolves_def same_request_def sequence_of_def)

lemma micro_numbered:
  assumes "micro cfg b b'" and "numbered cfg b"
  shows "numbered cfg b'"
  using assms
proof (induction rule: micro.induct)
  case (request b r q)
  then show ?case using change_sequence [OF request(1)] by (auto simp: numbered_def)
next
  case (session b s ss)
  then show ?case by (fastforce simp: numbered_def sess_change_def)
next
  case (accept s b q n)
  from accept(2) have q: "rq_session_id q = s" "sequence_of cfg q = n" "ss_watermark (br_sess b s) < n"
    by (simp_all add: fresh_request_def sequence_of_def)
  have "sequence_of cfg (br_req b r) < n" if "r < br_nreq b" "rq_session_id (br_req b r) = s" for r
    using that accept(3) q(3) by (force simp: numbered_def)
  with accept(1,3) q show ?case by (fastforce simp: numbered_def less_Suc_eq)
qed (auto simp: numbered_def core_def)

lemma micros_numbered: "micros cfg b b' \<Longrightarrow> numbered cfg b \<Longrightarrow> numbered cfg b'"
  by (induction rule: rtranclp_induct) (blast intro: micro_numbered)+

lemma reachable_numbered:
  assumes "reachable cfg b" and "limits_ok (sv_limits cfg)"
  shows "numbered cfg b"
  using assms(1)
proof (induction rule: reachable.induct)
  case init
  show ?case by (simp add: numbered_def server_init_def)
next
  case (step b ev)
  have "conns_ok b" using reachable_inv [OF assms(2) step(1)] by (simp add: server_inv_def acct_inv_def)
  then show ?case using server_step_micros step(2) micros_numbered by blast
qed

subsection \<open>Passes over the requests\<close>

text \<open>A terminal state is final, so a pass that ends each request it meets has ended them all.\<close>

lemma micros_terminal_state:
  assumes "micros cfg b b'" and "r < br_nreq b" and "terminal (rq_state (br_req b r))"
  shows "rq_state (br_req b' r) = rq_state (br_req b r)"
  using micros_evolves [OF assms(1)] assms(2,3) by (auto simp: evolves_def)

lemma micros_nreq: "micros cfg b b' \<Longrightarrow> r < br_nreq b \<Longrightarrow> r < br_nreq b'"
  using micros_evolves by (blast intro: less_le_trans)

lemma micros_not_queued:
  assumes "micros cfg b b'" and "r < br_nreq b" and "rq_state (br_req b r) \<noteq> ACCEPTED_QUEUED"
  shows "rq_state (br_req b' r) \<noteq> ACCEPTED_QUEUED"
  using micros_evolves [OF assms(1)] assms(2,3) by (auto simp: evolves_def)

lemma terminal_locked_terminal:
  assumes "terminal st"
  shows "terminal (rq_state (br_req (terminal_locked cfg r st kind control payload b) r))"
  using assms by (auto simp: terminal_locked_def upd_defs conn_send_def)

lemma unqueue_nreq [simp]: "br_nreq (unqueue r b) = br_nreq b" "br_req (unqueue r b) = br_req b"
  by (simp_all add: unqueue_def)

lemma cancel_ends:
  assumes "r < br_nreq b"
  shows "terminal st \<Longrightarrow> terminal (rq_state (br_req (cancel_queued cfg r st kind reason b) r))"
    and "terminal (rq_state (br_req (cancel_running cfg r reason b) r))"
proof -
  have fin: "terminal (rq_state (br_req b' r))"
    if "micros cfg (terminal_locked cfg r st kind control payload b'') b'" "br_nreq b'' = br_nreq b" "terminal st"
    for b' b'' st kind control payload
  proof -
    have "micros cfg b'' (terminal_locked cfg r st kind control payload b'')"
      using that(3) by (simp add: micros_terminal)
    then have "r < br_nreq (terminal_locked cfg r st kind control payload b'')"
      using that(2) assms by (simp add: micros_nreq)
    with that show ?thesis using micros_terminal_state terminal_locked_terminal by metis
  qed
  show "terminal st \<Longrightarrow> terminal (rq_state (br_req (cancel_queued cfg r st kind reason b) r))"
    unfolding cancel_queued_def by (rule fin [OF micros_future(3) [OF rtranclp.rtrancl_refl]]) simp_all
  show "terminal (rq_state (br_req (cancel_running cfg r reason b) r))"
    unfolding cancel_running_def
    by (rule fin [OF micros_future(4) [OF rtranclp.rtrancl_refl]]) (simp_all add: terminal_def)
qed

lemma fold_establishes:
  assumes step: "\<And>r b. I b \<Longrightarrow> r < br_nreq b \<Longrightarrow> micros cfg b (g r b) \<and> I (g r b) \<and> P r (g r b)"
    and stable: "\<And>r b b'. P r b \<Longrightarrow> r < br_nreq b \<Longrightarrow> micros cfg b b' \<Longrightarrow> P r b'"
    and "I b" and "\<forall>r \<in> set rs. r < br_nreq b"
  shows "\<forall>r \<in> set rs. P r (fold g rs b)"
  using assms(3,4)
proof (induction rs arbitrary: b)
  case (Cons r rs)
  have r: "micros cfg b (g r b)" "I (g r b)" "P r (g r b)" "r < br_nreq (g r b)"
    using step [OF Cons.prems(1), of r] Cons.prems(2) by (auto dest: micros_nreq)
  have rs: "\<forall>r' \<in> set rs. r' < br_nreq (g r b)"
    using Cons.prems(2) micros_nreq [OF r(1)] by simp
  have "micros cfg (g r b) (fold g rs (g r b)) \<and> I (fold g rs (g r b))"
    using r(2) rs
  proof (induction rs rule: rev_induct)
    case (snoc x xs)
    then have m: "micros cfg (g r b) (fold g xs (g r b))" "I (fold g xs (g r b))" and x: "x < br_nreq (g r b)"
      by simp_all
    from step [OF m(2) micros_nreq [OF m(1) x]] m(1) show ?case by (auto intro: rtranclp_trans)
  qed simp
  then have "P r (fold g rs (g r b))" using stable [OF r(3,4)] by blast
  with Cons.IH [OF r(2) rs] show ?case by simp
qed simp

definition overdue :: "rat \<Rightarrow> request \<Rightarrow> bool" where
  "overdue now q \<longleftrightarrow> rq_state q = ACCEPTED_QUEUED \<and>
     (case rq_queue_deadline q of None \<Rightarrow> False | Some d \<Rightarrow> now \<ge> d)"

lemma not_overdue_stable:
  assumes "\<not> overdue now (br_req b r)" and "r < br_nreq b" and "micros cfg b b'"
  shows "\<not> overdue now (br_req b' r)"
  using micros_evolves [OF assms(3)] assms(1,2) by (auto simp: evolves_def same_request_def overdue_def)

lemma expire_ends_overdue:
  assumes "refs_ok b" and "(i, r) \<in> set (br_requests b)"
  shows "\<not> overdue now (br_req (expire_queued_locked cfg now b) r)"
proof -
  have "\<not> overdue now (br_req (expire_record cfg now r b) r)" if "r < br_nreq b" for r b
    using cancel_ends(1) [OF that, of QUEUE_TIMED_OUT cfg M_QUEUE_TIMED_OUT "''queue_timeout''"]
    by (auto simp: expire_record_def overdue_def terminal_def)
  then have "\<forall>r \<in> set (map snd (br_requests b)).
      \<not> overdue now (br_req (fold (expire_record cfg now) (map snd (br_requests b)) b) r)"
    using assms(1) not_overdue_stable
    by (intro fold_establishes [where I = "\<lambda>_. True" and cfg = cfg
          and P = "\<lambda>r b. \<not> overdue now (br_req b r)"]) (auto simp: refs_ok_def micros_records)
  with assms(2) show ?thesis by (force simp: expire_queued_locked_def)
qed

text \<open>
  Cancelling and completing never adds a request to the broker's table and does not touch the state of
  the server or of its shutdown.
\<close>

definition settles :: "broker \<Rightarrow> broker \<Rightarrow> bool" where
  "settles b b' \<longleftrightarrow> set (br_requests b') \<subseteq> set (br_requests b) \<and> br_state b' = br_state b \<and>
     br_shutdown_phase b' = br_shutdown_phase b \<and> br_shutdown_deadline_at b' = br_shutdown_deadline_at b"

named_theorems settles_intro "operations that only settle requests"

lemma settles_refl [simp]: "settles b b"
  by (simp add: settles_def)

lemma settles_trans [trans]: "settles a b \<Longrightarrow> settles b c \<Longrightarrow> settles a c"
  by (auto simp: settles_def)

lemma settles_frame [settles_intro]:
  "settles a b \<Longrightarrow> settles a (upd_fut f g b)" "settles a b \<Longrightarrow> settles a (unqueue r b)"
  "settles a b \<Longrightarrow> settles a (terminal_locked cfg r st kind control payload b)"
  "settles a b \<Longrightarrow> settles a (b\<lparr>br_staged := n\<rparr>)" "settles a b \<Longrightarrow> settles a (b\<lparr>br_killed := ps\<rparr>)"
  "settles a b \<Longrightarrow> settles a (b\<lparr>br_sessions := x, br_client_sessions := y\<rparr>)"
  "settles a b \<Longrightarrow> settles a (b\<lparr>br_sessions := x\<rparr>)"
  by (simp_all add: settles_def upd_defs unqueue_def terminal_locked_def conn_send_def)

lemma settles_remove [settles_intro]: "settles a b \<Longrightarrow> settles a (remove_request_locked r b)"
  by (auto simp: settles_def remove_request_locked_def release_reservation_locked_def upd_defs Let_def
      AList.delete_eq)

lemma settles_fold:
  "(\<And>r b. settles a b \<Longrightarrow> settles a (g r b)) \<Longrightarrow> settles a b \<Longrightarrow> settles a (fold g rs b)"
  by (induction rs arbitrary: b) auto

lemma settles_purge [settles_intro]: "settles a b \<Longrightarrow> settles a (purge_session_locked s b)"
  by (auto simp: purge_session_locked_def purge_record_def Let_def intro!: settles_intro settles_fold)

lemma settles_complete [settles_intro]: "settles a b \<Longrightarrow> settles a (complete_local cfg r out b)"
  by (auto simp: complete_local_def unstage_def Let_def intro!: settles_intro split: prod.splits)

lemma settles_cancel [settles_intro]: "settles a b \<Longrightarrow> settles a (future_cancel cfg f b)"
  by (auto simp: future_cancel_def pool_done_def Let_def intro!: settles_intro split: future_state.splits)

lemma settles_cancels [settles_intro]:
  "settles a b \<Longrightarrow> settles a (cancel_queued cfg r st kind reason b)"
  "settles a b \<Longrightarrow> settles a (cancel_running cfg r reason b)"
  by (auto simp: cancel_queued_def cancel_running_def cancel_local_future_def kill_local_future_def Let_def
      intro!: settles_intro split: option.splits)

lemma settles_records [settles_intro]:
  "settles a b \<Longrightarrow> settles a (shutdown_cancel_record cfg r b)"
  "settles a b \<Longrightarrow> settles a (shutdown_deadline_record cfg r b)"
  by (auto simp: shutdown_cancel_record_def shutdown_deadline_record_def intro!: settles_intro)

lemma deadline_record_ends:
  assumes inv: "lane_inv cfg b" and r: "r < br_nreq b"
  shows "terminal (rq_state (br_req (shutdown_deadline_record cfg r b) r))"
proof (cases "rq_state (br_req b r) = RUNNING")
  case True
  then have "rq_local_future (br_req b r) \<noteq> None" using inv r by (auto simp: lane_x_def served_def)
  with True cancel_ends(2) [OF r] show ?thesis by (simp add: shutdown_deadline_record_def)
next
  case False
  then show ?thesis
    using cancel_ends(1) [OF r, of CANCELLED]
    by (cases "rq_state (br_req b r)") (auto simp: shutdown_deadline_record_def terminal_def)
qed

lemma deadline_pass_ends:
  assumes "lane_inv cfg b" and "refs_ok b"
  shows "\<forall>(i, r) \<in> set (br_requests (fold (shutdown_deadline_record cfg) (map snd (br_requests b)) b)).
    terminal (rq_state (br_req (fold (shutdown_deadline_record cfg) (map snd (br_requests b)) b) r))"
proof -
  let ?b = "fold (shutdown_deadline_record cfg) (map snd (br_requests b)) b"
  have "\<forall>r \<in> set (map snd (br_requests b)). terminal (rq_state (br_req ?b r))"
  proof (rule fold_establishes [where I = "lane_inv cfg" and cfg = cfg])
    show "\<forall>r \<in> set (map snd (br_requests b)). r < br_nreq b" using assms(2) by (auto simp: refs_ok_def)
  qed (use assms(1) micros_terminal_state in
    \<open>auto simp: micros_records deadline_record_ends shutdown_record_lane\<close>)
  moreover have "settles b ?b" by (rule settles_fold) (simp_all add: settles_records)
  ultimately show ?thesis by (fastforce simp: settles_def)
qed

lemma cancelled_for_shutdown_settles: "settles b (cancelled_for_shutdown cfg b)"
  by (simp add: cancelled_for_shutdown_def settles_fold settles_records)

lemma finish_shutdown_wait_cases:
  assumes "br_shutdown_phase b = S_waiting"
  shows "finish_shutdown_wait cfg now b =
    (let b1 = cancelled_for_shutdown cfg b in
     if \<forall>(i, r) \<in> set (br_requests b). terminal (rq_state (br_req b r))
     then b\<lparr>br_state := STOPPING, br_shutdown_phase := S_closing\<rparr>
     else if case br_shutdown_deadline_at b of None \<Rightarrow> False | Some d \<Rightarrow> d \<le> now
     then (fold (shutdown_deadline_record cfg) (map snd (br_requests b1)) b1)
            \<lparr>br_state := STOPPING, br_shutdown_phase := S_closing\<rparr>
     else b1)"
proof -
  have "br_shutdown_deadline_at (cancelled_for_shutdown cfg b) = br_shutdown_deadline_at b"
    using cancelled_for_shutdown_settles [of b cfg] by (simp add: settles_def)
  then show ?thesis
    using assms
    by (simp add: finish_shutdown_wait_def cancelled_for_shutdown_def [symmetric] Let_def case_prod_beta
        split: option.split)
qed

end
