(* ===== verification/Guarantees.thy ===== *)
theory Guarantees
  imports Lifecycle "HOL-Library.Code_Target_Nat"
begin

text \<open>
  What the server guarantees in every reachable state, whatever its peers send and however its threads
  interleave: exact and bounded reservations, no lost request, a monotone life of each request,
  at-most-once acceptance, no execution of ended requests, expiry, dispatch and shutdown.
\<close>

subsection \<open>Counting reservations\<close>

definition retained :: "broker \<Rightarrow> nat set" where
  "retained b = {r. r < br_nreq b \<and> \<not> rq_reservation_released (br_req b r)}"

definition retained_of :: "broker \<Rightarrow> pystr \<Rightarrow> nat set" where
  "retained_of b s = {r \<in> retained b. rq_session_id (br_req b r) = s}"

lemma finite_retained [simp]: "finite (retained b)" "finite (retained_of b s)"
  by (simp_all add: retained_def retained_of_def)

lemma session_retained:
  assumes inv: "acct_inv cfg b" and s: "s \<in> set (br_session_ids b)"
  shows "ss_reserved_outcomes (br_sess b s) = int (card (retained_of b s))"
    and "ss_reserved_outcome_bytes (br_sess b s) = (\<Sum>r \<in> retained_of b s. rq_reserved_result_bytes (br_req b r))"
proof -
  have ok: "session_ok cfg b s" using inv s by (simp add: acct_inv_def)
  then have wf: "wf_dict (ss_requests (br_sess b s))" by (simp add: session_ok_def Let_def)
  have req: "request_ok b r" if "r < br_nreq b" for r using inv that by (simp add: acct_inv_def)
  have "retained_of b s = set (map snd (ss_requests (br_sess b s)))"
  proof (intro set_eqI iffI)
    fix r assume "r \<in> retained_of b s"
    then have "map_of (ss_requests (br_sess b s)) (rq_request_id (br_req b r)) = Some r"
      using req by (auto simp: retained_of_def retained_def request_ok_def Let_def)
    then show "r \<in> set (map snd (ss_requests (br_sess b s)))" by (force dest: map_of_SomeD)
  next
    fix r assume "r \<in> set (map snd (ss_requests (br_sess b s)))"
    then obtain i where "map_of (ss_requests (br_sess b s)) i = Some r"
      using in_dict_map_of [OF wf] by fastforce
    then show "r \<in> retained_of b s"
      using ok by (auto simp: retained_of_def retained_def session_ok_def Let_def)
  qed
  moreover have "distinct (map snd (ss_requests (br_sess b s)))"
    using session_values_distinct [OF inv] by blast
  ultimately have "card (retained_of b s) = length (ss_requests (br_sess b s))"
    by (metis distinct_card length_map)
  then show n: "ss_reserved_outcomes (br_sess b s) = int (card (retained_of b s))"
    using ok by (simp add: session_ok_def Let_def)
  have "rq_reserved_result_bytes (br_req b r) = ss_max_result_bytes (br_sess b s)" if "r \<in> retained_of b s" for r
    using that req by (auto simp: retained_of_def retained_def request_ok_def Let_def)
  then show "ss_reserved_outcome_bytes (br_sess b s) = (\<Sum>r \<in> retained_of b s. rq_reserved_result_bytes (br_req b r))"
    using ok n by (simp add: session_ok_def Let_def)
qed

lemma sum_sessions:
  assumes inv: "acct_inv cfg b"
  shows "(\<Sum>s \<in> set (br_session_ids b). \<Sum>r \<in> retained_of b s. g r) = (\<Sum>r \<in> retained b. g r)"
proof -
  have "(\<Sum>s \<in> set (br_session_ids b). \<Sum>r \<in> retained_of b s. g r) =
      (\<Sum>s \<in> set (br_session_ids b). \<Sum>r \<in> {r \<in> retained b. rq_session_id (br_req b r) = s}. g r)"
    by (simp add: retained_of_def)
  also have "\<dots> = (\<Sum>r \<in> retained b. g r)"
    using inv by (intro sum.group) (auto simp: retained_def acct_inv_def request_ok_def Let_def)
  finally show ?thesis .
qed

lemma total_retained:
  assumes inv: "acct_inv cfg b"
  shows "br_reserved_outcomes b = int (card (retained b))"
    and "br_reserved_outcome_bytes b = (\<Sum>r \<in> retained b. rq_reserved_result_bytes (br_req b r))"
proof -
  have "br_reserved_outcomes b = (\<Sum>s \<in> set (br_session_ids b). \<Sum>r \<in> retained_of b s. 1)"
    using inv session_retained(1) [OF inv] by (simp add: acct_inv_def totals_ok_def)
  also have "\<dots> = (\<Sum>r \<in> retained b. 1)" by (rule sum_sessions [OF inv])
  finally show "br_reserved_outcomes b = int (card (retained b))" by simp
  have "br_reserved_outcome_bytes b =
      (\<Sum>s \<in> set (br_session_ids b). \<Sum>r \<in> retained_of b s. rq_reserved_result_bytes (br_req b r))"
    using inv session_retained(2) [OF inv] by (simp add: acct_inv_def totals_ok_def)
  also have "\<dots> = (\<Sum>r \<in> retained b. rq_reserved_result_bytes (br_req b r))" by (rule sum_sessions [OF inv])
  finally show "br_reserved_outcome_bytes b = (\<Sum>r \<in> retained b. rq_reserved_result_bytes (br_req b r))" .
qed

subsection \<open>A concrete server\<close>

text \<open>A small configuration and the events of short runs, on which the theorems below are applied.\<close>

definition example_limits :: remote_limits where
  "example_limits =
     \<lparr>max_control_bytes = 4096, max_frame_payload_bytes = 4096, max_message_bytes = 4096,
      max_invocation_bytes = 64, max_result_bytes = 64, max_metadata_bytes = 1024, max_chunks = 4,
      max_incomplete_messages = 4, max_unauthenticated_connections = 4, max_connections_global = 4,
      max_connections_per_principal = 4, max_pending_per_session = 8, max_pending_per_principal = 8,
      max_pending_global = 8, max_retained_outcomes_per_session = 8, max_retained_outcomes_global = 8,
      max_retained_outcome_bytes_per_session = 512, max_retained_outcome_bytes_global = 512,
      max_staged_tasks = 2, outbound_queue_size = 16, inbound_queue_size = 16, callback_queue_size = 16,
      completion_workers = 1, control_timeout = 1, handshake_timeout = 1, partial_frame_timeout = 1\<rparr>"

definition example_int :: "pystr \<Rightarrow> int option" where
  "example_int s = (case s of [d] \<Rightarrow> if 48 \<le> d \<and> d \<le> 57 then Some (int d - 48) else None | _ \<Rightarrow> None)"

definition example_config :: "disconnect_policy \<Rightarrow> server_config" where
  "example_config policy =
     \<lparr>sv_limits = example_limits, sv_task_registry = [lit ''add''], sv_disconnect_policy = policy,
      sv_uid = 7, sv_authorizer = None, sv_authenticator = None, sv_serializer_name = lit ''p'',
      sv_serializer_protocol = JInt 5, sv_python = (3, 12), sv_registry_fingerprint = None,
      sv_application_fingerprint = None, sv_server_id = lit ''s'', sv_epoch = lit ''e'',
      sv_sha256 = (\<lambda>_. lit ''h''), sv_dumps = (\<lambda>_. []), sv_int = example_int\<rparr>"

definition example_hello :: message where
  "example_hello =
     \<lparr>msg_kind = M_HELLO, msg_control = ctl
        [(''versions'', JList [JList [JInt (int proto_major), JInt (int proto_minor)]]),
         (''client_instance_id'', J ''c''), (''serializer'', J ''p''), (''serializer_protocol'', JInt 5),
         (''python'', JList [JInt 3, JInt 12]), (''capabilities'', JList [J ''callable'']),
         (''max_result_bytes'', JInt 32), (''wire'', J ''w''),
         (''wire_limits'', JDict (wire_limits example_limits))], msg_payload = []\<rparr>"

definition example_peer :: peer_info where
  "example_peer = \<lparr>pi_transport = lit ''unix'', pi_uid = Some 7, pi_gid = None, pi_pid = None, pi_certificate = None\<rparr>"

definition example_submit :: "string \<Rightarrow> message" where
  "example_submit i =
     \<lparr>msg_kind = M_SUBMIT, msg_control = ctl
        [(''request_id'', J i), (''digest'', J ''h''), (''mode'', J ''callable''), (''queue_timeout'', JInt 5)],
      msg_payload = [1, 2]\<rparr>"

definition example_open :: "server_event list" where
  "example_open =
     [Ev_start, Ev_initialize True, Ev_accept 3, Ev_prepare 3 True UNIX,
      Ev_hello 0 example_peer (lit ''S'') example_hello]"

abbreviation example_cfg :: server_config where
  "example_cfg \<equiv> example_config CANCEL_QUEUED"

lemma example_limits_ok [simp]: "limits_ok (sv_limits (example_config policy))"
  by (simp add: limits_ok_def example_config_def example_limits_def)

lemma run_reachable: "reachable cfg b \<Longrightarrow> reachable cfg (server_run cfg evs b)"
  by (induction evs arbitrary: b) (auto simp: run_Cons intro: reachable.step)

text \<open>
  One accepted request that waits; the same request behind a worker, expired in the queue, or met by a
  shutdown.
\<close>

definition example_queued :: broker where
  "example_queued = server_run example_cfg (example_open @ [Ev_message 0 (example_submit ''c:1'') 0 []]) server_init"

definition example_start :: "broker \<Rightarrow> broker" where
  "example_start = server_run example_cfg [Ev_dispatch 1, Ev_pool_answer Pool_ok, Ev_attach, Ev_claim 0 99 2]"

definition example_stop :: "broker \<Rightarrow> broker" where
  "example_stop = server_run example_cfg [Ev_shutdown False (VInt 3) 2]"

definition example_second :: "broker \<Rightarrow> broker" where
  "example_second = server_run example_cfg [Ev_message 0 (example_submit ''c:2'') 1 []]"

definition example_expire :: "broker \<Rightarrow> broker" where
  "example_expire = server_run example_cfg [Ev_dispatch 9]"

lemma example_reachable [simp]:
  "reachable example_cfg example_queued"
  "reachable example_cfg b \<Longrightarrow> reachable example_cfg (example_start b)"
  "reachable example_cfg b \<Longrightarrow> reachable example_cfg (example_stop b)"
  "reachable example_cfg b \<Longrightarrow> reachable example_cfg (example_second b)"
  "reachable example_cfg b \<Longrightarrow> reachable example_cfg (example_expire b)"
  by (simp_all add: example_queued_def example_start_def example_stop_def example_second_def example_expire_def
      run_reachable reachable.init)

lemma example_values:
  "(let b = example_queued; b1 = example_start b; b2 = example_stop b1; b3 = example_second b;
        b4 = example_expire b; e = expire_queued_locked example_cfg 1 b
    in ((br_nreq b, rq_state (br_req b 0), br_dispatch b, br_state b, sched_bool (br_scheduler b), br_requests b,
         rq_queue_deadline (br_req b 0)),
        (br_nreq b1, rq_state (br_req b1 0), br_reserved_outcomes b1, br_requests b1, br_staged b1, br_nfut b1),
        (br_nreq b2, br_shutdown_phase b2, br_shutdown_deadline_at b2, br_requests b2),
        (br_nreq b3, rq_session_id (br_req b3 0), rq_session_id (br_req b3 1)),
        (br_nreq b4, rq_state (br_req b4 0)),
        (br_nreq e, rq_state (br_req e 0), rq_local_future (br_req e 0), br_state e, br_staged e))) =
   ((1, ACCEPTED_QUEUED, D_idle, SRV_RUNNING, True, [(lit ''c:1'', 0)], Some 5),
    (1, RUNNING, 1, [(lit ''c:1'', 0)], 1, 1),
    (1, S_waiting, Some 5, [(lit ''c:1'', 0)]),
    (2, lit ''S'', lit ''S''), (1, QUEUE_TIMED_OUT),
    (1, ACCEPTED_QUEUED, None, SRV_RUNNING, 0))"
  by code_simp

lemmas example_facts = example_values [unfolded Let_def prod.inject, simplified]

subsection \<open>Reservations and requests\<close>

text \<open>
  (C2) In every reachable state the global reservation counters are exactly the number of retained
  requests (accepted, outcome not yet released) and the result bytes reserved for them, each session's
  counters are those of its own retained requests, and no counter exceeds its configured limit: global
  and per-session outcomes, global and per-session bytes, pending requests per session and globally.
\<close>

theorem reservations_exact:
  assumes "limits_ok (sv_limits cfg)" and "reachable cfg b"
  shows "br_reserved_outcomes b = int (card (retained b)) \<and>
    br_reserved_outcome_bytes b = (\<Sum>r \<in> retained b. rq_reserved_result_bytes (br_req b r)) \<and>
    br_reserved_outcomes b \<le> max_retained_outcomes_global (sv_limits cfg) \<and>
    br_reserved_outcome_bytes b \<le> max_retained_outcome_bytes_global (sv_limits cfg) \<and>
    int (length (br_requests b)) \<le> max_pending_global (sv_limits cfg) \<and>
    (\<forall>s \<in> set (br_session_ids b).
       ss_reserved_outcomes (br_sess b s) = int (card (retained_of b s)) \<and>
       ss_reserved_outcome_bytes (br_sess b s) = (\<Sum>r \<in> retained_of b s. rq_reserved_result_bytes (br_req b r)) \<and>
       ss_reserved_outcomes (br_sess b s) \<le> max_retained_outcomes_per_session (sv_limits cfg) \<and>
       ss_reserved_outcome_bytes (br_sess b s) \<le> max_retained_outcome_bytes_per_session (sv_limits cfg) \<and>
       int (length (ss_requests (br_sess b s))) \<le> max_pending_per_session (sv_limits cfg))"
proof -
  have inv: "acct_inv cfg b" using reachable_inv [OF assms] by (simp add: server_inv_def)
  then have "ss_reserved_outcomes (br_sess b s) \<le> max_retained_outcomes_per_session (sv_limits cfg) \<and>
      ss_reserved_outcome_bytes (br_sess b s) \<le> max_retained_outcome_bytes_per_session (sv_limits cfg) \<and>
      int (length (ss_requests (br_sess b s))) \<le> max_pending_per_session (sv_limits cfg)"
    if "s \<in> set (br_session_ids b)" for s
  proof -
    from inv that have "session_ok cfg b s" by (simp add: acct_inv_def)
    then show ?thesis
      unfolding session_ok_def Let_def by (elim conjE) (intro conjI, assumption+, linarith)
  qed
  moreover have "br_reserved_outcomes b \<le> max_retained_outcomes_global (sv_limits cfg) \<and>
      br_reserved_outcome_bytes b \<le> max_retained_outcome_bytes_global (sv_limits cfg) \<and>
      int (length (br_requests b)) \<le> max_pending_global (sv_limits cfg)"
    using inv by (simp add: acct_inv_def totals_ok_def tables_ok_def)
  ultimately show ?thesis
    using total_retained [OF inv] session_retained [OF inv] by blast
qed

theorem reservations_exact_witness:
  "br_reserved_outcomes (example_start example_queued) = 1 \<and>
   int (card (retained (example_start example_queued))) = 1"
  using reservations_exact [of example_cfg "example_start example_queued"] by (simp add: example_facts)

text \<open>
  (C1) No accepted request is ever lost or duplicated on its way to a worker.  In every reachable
  state each accepted request is terminal, or waits in the scheduler exactly once, or is behind
  exactly one future in flight that points back to it; terminal and dispatched requests are not in the
  scheduler; and the staging counter is the number of futures in flight and at most
  \<open>max_staged_tasks\<close>.
\<close>

theorem no_request_lost:
  assumes "limits_ok (sv_limits cfg)" and "reachable cfg b"
  shows "br_staged b = int (card {f. f < br_nfut b \<and> inflight (br_fut b f)}) \<and>
    br_staged b \<le> max_staged_tasks (sv_limits cfg) \<and>
    (\<forall>r < br_nreq b.
       if terminal (rq_state (br_req b r)) then sched_count r (br_scheduler b) = 0
       else if rq_local_future (br_req b r) = None
       then rq_state (br_req b r) = ACCEPTED_QUEUED \<and> sched_count r (br_scheduler b) = 1
       else sched_count r (br_scheduler b) = 0 \<and>
            (\<exists>!f. f < br_nfut b \<and> inflight (br_fut b f) \<and> pf_request (br_fut b f) = r))"
proof -
  have inv: "lane_inv cfg b" using reachable_inv [OF assms] by (simp add: server_inv_def)
  have cnt: "sched_count r (br_scheduler b) = of_bool (r \<in> waiting_set b)" for r
    using inv by (simp add: lane_x_def ws.holds_def)
  have staged: "br_staged b = int (card {f. f < br_nfut b \<and> inflight (br_fut b f)})"
      "br_staged b \<le> max_staged_tasks (sv_limits cfg)"
    using inv by (simp_all add: lane_x_def inflight_count_def inflight_one_def sum.If_cases lessThan_def Int_def)
  have one: "\<exists>!f. f < br_nfut b \<and> inflight (br_fut b f) \<and> pf_request (br_fut b f) = r"
    if r: "r < br_nreq b" "\<not> terminal (rq_state (br_req b r))" "rq_local_future (br_req b r) \<noteq> None" for r
  proof -
    have "served b r" and fut: "futures_ok b" using inv r(1) by (simp_all add: lane_x_def)
    then obtain f where f: "rq_local_future (br_req b r) = Some f" "inflight (br_fut b f)"
      using r(2,3) by (auto simp: served_def)
    then have "f < br_nfut b \<and> pf_request (br_fut b f) = r" using fut r(1) by (simp add: futures_ok_def)
    moreover have "f' = f" if "f' < br_nfut b" "inflight (br_fut b f')" "pf_request (br_fut b f') = r" for f'
      using that fut f(1) by (auto simp: futures_ok_def)
    ultimately show ?thesis using f(2) by blast
  qed
  have queued: "rq_state (br_req b r) = ACCEPTED_QUEUED"
    if "r < br_nreq b" "\<not> terminal (rq_state (br_req b r))" "rq_local_future (br_req b r) = None" for r
    using inv that by (auto simp: lane_x_def served_def)
  have "r \<in> waiting_set b \<longleftrightarrow> \<not> terminal (rq_state (br_req b r)) \<and> rq_local_future (br_req b r) = None"
    if "r < br_nreq b" for r
    using that queued [OF that] by (auto simp: waiting_set_def waiting_def)
  then have "if terminal (rq_state (br_req b r)) then sched_count r (br_scheduler b) = 0
       else if rq_local_future (br_req b r) = None
       then rq_state (br_req b r) = ACCEPTED_QUEUED \<and> sched_count r (br_scheduler b) = 1
       else sched_count r (br_scheduler b) = 0 \<and>
            (\<exists>!f. f < br_nfut b \<and> inflight (br_fut b f) \<and> pf_request (br_fut b f) = r)"
    if "r < br_nreq b" for r
    using that one [OF that] queued [OF that] by (simp add: cnt)
  with staged show ?thesis by blast
qed

theorem no_request_lost_witness:
  "sched_count 0 (br_scheduler (example_start example_queued)) = 0 \<and> br_staged (example_start example_queued) = 1"
  using no_request_lost [OF example_limits_ok example_reachable(2) [OF example_reachable(1)],
      THEN conjunct2, THEN conjunct2, THEN spec, THEN mp, of 0]
  by (simp add: example_facts terminal_def split: if_splits)

text \<open>
  (C3) The life of a request is monotone over every run: its identity, owner, options, deadline and
  reservation never change; once started it is never queued again; a terminal state is final together
  with its outcome kind and descriptor, and its payload stays until the reservation is released;
  a release is never undone.
\<close>

theorem request_lifecycle:
  assumes "limits_ok (sv_limits cfg)" and "reachable cfg b" and "r < br_nreq b"
  shows "evolves (br_req b r) (br_req (server_run cfg evs b) r)"
  using run_evolves [OF reachable_inv [OF assms(1,2)] assms(1,3)] .

theorem request_lifecycle_witness:
  "evolves (br_req example_queued 0) (br_req (example_start example_queued) 0)"
  using request_lifecycle [of example_cfg example_queued 0
      "[Ev_dispatch 1, Ev_pool_answer Pool_ok, Ev_attach, Ev_claim 0 99 2]"]
  by (simp add: example_facts example_start_def)

text \<open>
  (C4) A submission is accepted at most once: within a session the sequence numbers of accepted
  requests increase strictly in the order of acceptance and never exceed the session's watermark, so
  two accepted requests of one session never carry the same request id, whether or not the first has
  been acknowledged and forgotten.
\<close>

theorem accepted_at_most_once:
  assumes "limits_ok (sv_limits cfg)" and "reachable cfg b" and "r < r'" and "r' < br_nreq b"
    and "rq_session_id (br_req b r) = rq_session_id (br_req b r')"
  shows "rq_request_id (br_req b r) \<noteq> rq_request_id (br_req b r') \<and>
    sequence_of cfg (br_req b r) < sequence_of cfg (br_req b r') \<and>
    sequence_of cfg (br_req b r') \<le> ss_watermark (br_sess b (rq_session_id (br_req b r')))"
proof -
  have "numbered cfg b" using reachable_numbered assms(1,2) by blast
  then have "sequence_of cfg (br_req b r) < sequence_of cfg (br_req b r') \<and>
    sequence_of cfg (br_req b r') \<le> ss_watermark (br_sess b (rq_session_id (br_req b r')))"
    using assms(3-5) by (auto simp: numbered_def)
  then show ?thesis by (auto simp: sequence_of_def)
qed

theorem accepted_at_most_once_witness:
  "rq_request_id (br_req (example_second example_queued) 0) \<noteq> rq_request_id (br_req (example_second example_queued) 1)"
  using accepted_at_most_once [of example_cfg "example_second example_queued" 0 1] by (simp add: example_facts)

subsection \<open>Claims, expiry and dispatch\<close>

lemma claim_snd:
  "snd (claim_dispatch cfg r pid now b) \<longleftrightarrow>
     rq_state (br_req b r) = RUNNING \<or> rq_state (br_req b r) = ACCEPTED_QUEUED \<and> \<not> overdue now (br_req b r)"
  by (auto simp: claim_dispatch_def overdue_def)

lemma req_publish [simp]: "br_req (publish_running cfg r pid b) = br_req b"
  by (simp add: publish_running_def conn_send_def upd_defs Let_def split: option.splits)

lemma claim_ends:
  assumes "r < br_nreq b" and "overdue now (br_req b r)"
  shows "terminal (rq_state (br_req (fst (claim_dispatch cfg r pid now b)) r))"
proof -
  let ?t = "terminal_locked cfg r QUEUE_TIMED_OUT M_QUEUE_TIMED_OUT (ctl [(''reason'', J ''queue_timeout'')]) [] b"
  have "micros cfg b ?t" by (simp add: micros_terminal terminal_def)
  then have "r < br_nreq ?t" using assms(1) by (rule micros_nreq)
  moreover have "terminal (rq_state (br_req ?t r))" by (rule terminal_locked_terminal) (simp add: terminal_def)
  moreover have "micros cfg ?t (cancel_local_future cfg r ?t)" by (simp add: micros_future)
  ultimately have "terminal (rq_state (br_req (cancel_local_future cfg r ?t) r))"
    using micros_terminal_state [of cfg ?t "cancel_local_future cfg r ?t" r] by simp
  then show ?thesis using assms(2) by (simp add: claim_dispatch_def overdue_def)
qed

text \<open>
  (C5) The claim, the only point where a job may leave the broker for a worker, is decided exactly:
  the worker gets the job if and only if the request is running already, or queued and its queue
  deadline has not passed.  A granted claim leaves the request running; a refused one leaves it
  terminal.
\<close>

theorem claim_decides:
  assumes "r < br_nreq b"
  shows "(snd (claim_dispatch cfg r pid now b) \<longleftrightarrow>
      rq_state (br_req b r) = RUNNING \<or> rq_state (br_req b r) = ACCEPTED_QUEUED \<and> \<not> overdue now (br_req b r)) \<and>
    (if snd (claim_dispatch cfg r pid now b)
     then rq_state (br_req (fst (claim_dispatch cfg r pid now b)) r) = RUNNING
     else terminal (rq_state (br_req (fst (claim_dispatch cfg r pid now b)) r)))"
proof (cases "overdue now (br_req b r)")
  case True
  with claim_ends [OF assms True] show ?thesis by (simp add: claim_snd overdue_def)
next
  case False
  then show ?thesis
    by (cases "rq_state (br_req b r)")
      (auto simp: claim_snd claim_dispatch_def overdue_def upd_defs terminal_def)
qed

theorem claim_decides_witness:
  "snd (claim_dispatch example_cfg 0 99 2 example_queued) \<and> \<not> snd (claim_dispatch example_cfg 0 99 6 example_queued)"
  using claim_decides [of 0 example_queued example_cfg 99 2] claim_decides [of 0 example_queued example_cfg 99 6]
  by (simp add: example_facts overdue_def)

text \<open>
  A request that has ended (cancelled, timed out in the queue, failed or finished) never reaches
  a worker again: after any further events every claim for it is refused.
\<close>

theorem ended_never_claimed:
  assumes "limits_ok (sv_limits cfg)" and "reachable cfg b" and "r < br_nreq b"
    and "terminal (rq_state (br_req b r))"
  shows "\<not> snd (claim_dispatch cfg r pid now (server_run cfg evs b))"
proof -
  have "evolves (br_req b r) (br_req (server_run cfg evs b) r)"
    using run_evolves [OF reachable_inv [OF assms(1,2)] assms(1,3)] .
  then have "terminal (rq_state (br_req (server_run cfg evs b) r))"
    using assms(4) unfolding evolves_def by metis
  then show ?thesis by (auto simp: claim_snd terminal_def)
qed

theorem ended_never_claimed_witness:
  "\<not> snd (claim_dispatch example_cfg 0 99 1 (server_run example_cfg [Ev_pool_answer Pool_ok] (example_expire example_queued)))"
  using ended_never_claimed [of example_cfg "example_expire example_queued" 0 99 1 "[Ev_pool_answer Pool_ok]"]
  by (simp add: example_facts terminal_def)

text \<open>
  Queue timeouts are enforced: after every pass of the dispatch loop at time \<open>now\<close>, no request
  registered with the server is still queued past its deadline.
\<close>

theorem expired_requests_end:
  assumes "limits_ok (sv_limits cfg)" and "reachable cfg b" and "br_dispatch b = D_idle"
    and "(i, r) \<in> set (br_requests b)"
  shows "\<not> overdue now (br_req (server_step cfg (Ev_dispatch now) b) r)"
proof -
  have "refs_ok b" using acct_refs reachable_inv [OF assms(1,2)] by (auto simp: server_inv_def)
  then have "\<not> overdue now (br_req (expire_queued_locked cfg now b) r)"
    using assms(4) by (rule expire_ends_overdue)
  then show ?thesis
    using assms(3) by (auto simp: dispatch_next_def overdue_def upd_req_def Let_def split: sum.splits)
qed

theorem expired_requests_end_witness:
  "\<not> overdue 9 (br_req (server_step example_cfg (Ev_dispatch 9) example_queued) 0) \<and> overdue 9 (br_req example_queued 0)"
  using expired_requests_end [of example_cfg example_queued "lit ''c:1''" 0 9] by (simp add: example_facts overdue_def)


lemma waiting_busy:
  assumes "ws.holds s A" and "A \<noteq> {}"
  shows "sched_bool s"
proof (rule ccontr)
  have inv: "sched_inv s" using assms(1) by (simp add: ws.holds_def)
  assume "\<not> sched_bool s"
  then have "prio_heap s = []"
    using sched_size_empty [OF inv] rotation_nonempty [OF inv] by (cases "prio_heap s") (auto simp: sched_bool_def)
  then have "priorities s = []" using inv by (auto simp: sched_inv_def)
  then have "sched_count x s = 0" for x by (simp add: sched_count_def sched_weight_def)
  with assms show False by (auto simp: ws.holds_def)
qed

text \<open>
  (C6) The dispatch loop makes progress: while the server runs or drains, whenever a request waits and
  the staging area has room after expiry, a pass takes the request the scheduler selects, one that was
  waiting, and stages it with a fresh pending future; nothing else about the lane changes.
\<close>

theorem dispatch_progress:
  fixes now cfg b
  defines "e \<equiv> expire_queued_locked cfg now b" and "b' \<equiv> server_step cfg (Ev_dispatch now) b"
  assumes "limits_ok (sv_limits cfg)" and "reachable cfg b" and "br_dispatch b = D_idle"
    and "br_state e \<in> {SRV_RUNNING, DRAINING}" and "waiting_set e \<noteq> {}"
    and "br_staged e < max_staged_tasks (sv_limits cfg)"
  shows "\<exists>r s. sched_pop (br_scheduler e) = Inr (r, s) \<and> r \<in> waiting_set e \<and>
    br_scheduler b' = s \<and> br_dispatch b' = D_submitting (br_nfut e) \<and> br_nfut b' = Suc (br_nfut e) \<and>
    br_fut b' (br_nfut e) = \<lparr>pf_request = r, pf_state = F_pending, pf_phase = P_staged, pf_pid = None\<rparr> \<and>
    rq_local_future (br_req b' r) = Some (br_nfut e) \<and> br_staged b' = br_staged e + 1 \<and>
    waiting_set b' = waiting_set e - {r}"
proof -
  have inv: "server_inv cfg b" using reachable_inv [OF assms(3,4)] .
  then have "lane_inv cfg e"
    unfolding e_def using acct_refs by (intro expire_queued_lane) (auto simp: server_inv_def)
  then have holds: "ws.holds (br_scheduler e) (waiting_set e)" by (simp add: lane_x_def)
  have busy: "sched_bool (br_scheduler e)" using holds assms(7) by (rule waiting_busy)
  obtain r s where pop: "sched_pop (br_scheduler e) = Inr (r, s)" "r \<in> waiting_set e"
    using ws.pop_holds [OF holds busy] by blast
  then have "rq_state (br_req e r) = ACCEPTED_QUEUED" by (simp add: waiting_set_def waiting_def)
  then have "b' = (upd_req r (\<lambda>q. q\<lparr>rq_local_future := Some (br_nfut e)\<rparr>)
      (e\<lparr>br_scheduler := s, br_fut := (br_fut e)(br_nfut e := \<lparr>pf_request = r, pf_state = F_pending,
          pf_phase = P_staged, pf_pid = None\<rparr>), br_nfut := Suc (br_nfut e)\<rparr>))
        \<lparr>br_staged := br_staged e + 1, br_dispatch := D_submitting (br_nfut e)\<rparr>"
    using assms(5,6,8) busy pop(1) by (auto simp: b'_def dispatch_next_def Let_def e_def [symmetric])
  then show ?thesis
    using pop by (auto simp: upd_req_def waiting_set_def waiting_def)
qed

theorem dispatch_progress_witness:
  "br_dispatch (server_step example_cfg (Ev_dispatch 1) example_queued) =
     D_submitting (br_nfut (expire_queued_locked example_cfg 1 example_queued))"
proof -
  have "0 \<in> waiting_set (expire_queued_locked example_cfg 1 example_queued)"
    by (simp add: waiting_set_def waiting_def example_facts)
  moreover have "0 < max_staged_tasks (sv_limits example_cfg)"
    by (simp add: example_config_def example_limits_def)
  ultimately show ?thesis
    using dispatch_progress [of example_cfg example_queued 1] by (auto simp: example_facts)
qed

subsection \<open>Shutdown\<close>

text \<open>
  (C7) Shutdown is orderly and bounded: the waiting loop of \<open>_finish_shutdown\<close> moves on to closing
  connections only with every registered request in a terminal state and admission stopped, and it
  moves on at the first pass at or after the shutdown deadline, whatever the requests are doing.
\<close>

theorem shutdown_orderly_and_bounded:
  fixes now cfg b
  defines "b' \<equiv> server_step cfg (Ev_shutdown_wait now) b"
  assumes "limits_ok (sv_limits cfg)" and "reachable cfg b" and "br_shutdown_phase b = S_waiting"
  shows "(br_shutdown_phase b' = S_closing \<longrightarrow>
      br_state b' = STOPPING \<and> (\<forall>(i, r) \<in> set (br_requests b'). terminal (rq_state (br_req b' r)))) \<and>
    (\<forall>d. br_shutdown_deadline_at b = Some d \<longrightarrow> d \<le> now \<longrightarrow> br_shutdown_phase b' = S_closing)"
proof -
  define b1 where "b1 = cancelled_for_shutdown cfg b"
  have inv: "lane_inv cfg b" "refs_ok b" and acct: "acct_inv cfg b"
    using reachable_inv [OF assms(2,3)] acct_refs by (auto simp: server_inv_def)
  have "acct_inv cfg b1" unfolding b1_def using acct by (rule cancelled_for_shutdown_acct)
  then have "refs_ok b1" by (rule acct_refs)
  moreover have "lane_inv cfg b1" unfolding b1_def using inv by (rule cancelled_for_shutdown_lane)
  ultimately have ended: "\<forall>(i, r) \<in> set (br_requests (fold (shutdown_deadline_record cfg) (map snd (br_requests b1)) b1)).
      terminal (rq_state (br_req (fold (shutdown_deadline_record cfg) (map snd (br_requests b1)) b1) r))"
    by (intro deadline_pass_ends)
  have "br_shutdown_phase b1 = S_waiting"
    using cancelled_for_shutdown_settles [of b cfg] assms(4) by (simp add: b1_def settles_def)
  with ended show ?thesis
    unfolding b'_def server_step.simps finish_shutdown_wait_cases [OF assms(4)] Let_def b1_def [symmetric]
    by (auto split: option.splits)
qed

theorem shutdown_orderly_and_bounded_witness:
  "br_shutdown_phase (server_step example_cfg (Ev_shutdown_wait 5) (example_stop (example_start example_queued))) = S_closing"
  using shutdown_orderly_and_bounded [of example_cfg "example_stop (example_start example_queued)" 5]
  by (simp add: example_facts)

subsection \<open>A reservation that is never released\<close>

text \<open>
  With the policy \<open>continue\<close> a queued request of a closed connection that times out in the queue is
  ended by the expiry pass alone: no future completes for it, the connection thread is gone, and the
  session with its reservation stays in the tables.
\<close>

theorem continue_policy_keeps_reservation:
  "(let b = server_run (example_config CONTINUE)
       (example_open @ [Ev_message 0 (example_submit ''c:1'') 0 [], Ev_connection_error 0 (EOFError ''x''), Ev_dispatch 9])
       server_init
    in (cn_closed (br_conn b 0), cn_phase (br_conn b 0), rq_state (br_req b 0), rq_local_future (br_req b 0),
        br_reserved_outcomes b, br_sessions b)) =
   (True, C_done, QUEUE_TIMED_OUT, None, 1, [lit ''S''])"
  by code_simp

text \<open>
  A submission that was already received when the last request of its closed connection completed: the
  completion has removed the session, the submission is still accepted into it, and neither the
  cancellation at disconnect nor anything later can release its reservation.
\<close>

theorem late_submission_keeps_reservation:
  "(let b = server_run example_cfg
       (example_open @ [Ev_message 0 (example_submit ''c:1'') 0 [], Ev_writer 0 False, Ev_dispatch 1,
          Ev_pool_answer Pool_ok, Ev_attach, Ev_claim 0 99 2, Ev_finish 0 (Raised_timeout []),
          Ev_message 0 (example_submit ''c:2'') 3 [], Ev_connection_error 0 (EOFError ''x'')])
       server_init
    in (cn_closed (br_conn b 0), cn_phase (br_conn b 0), rq_state (br_req b 1), br_sessions b,
        br_reserved_outcomes b, br_requests b)) =
   (True, C_done, CANCELLED, [], 1, [(lit ''c:2'', 1)])"
  by code_simp

end
