(* ===== verification/Pool.thy ===== *)
theory Pool
  imports Heapq "HOL-Library.Product_Lexorder"
begin

text \<open>
  The local executor \<open>Deadpool\<close> (\<open>deadpool/_pool.py\<close>): the priority queue of submitted jobs, the runner
  thread, one \<open>run_task\<close> thread per launched job, the idle and busy workers, and shutdown.  Threads are
  interleaved: each has a program counter, and one event is one step of one thread up to its next access
  to state that other threads change, or something the environment does (a worker dies, the caller
  cancels).  The loops of \<open>clear_workers\<close>, \<open>cancel_all_futures_on_queue\<close> and the end of \<open>shutdown\<close> are one
  step each.

  Futures, workers and task threads are numbered; the thread of a job has the number of its future.
\<close>

subsection \<open>Data\<close>

datatype pool_exn = Process_error | Pool_timeout | Pickling_failed | Task_raised nat | Receive_failed

datatype fut_state = Fut_pending | Fut_cancelled | Fut_result nat | Fut_exception pool_exn

record future =
  fu_state :: fut_state
  fu_pid :: "nat option"
  fu_priority :: int
  fu_sequence :: int

record worker_process =
  wk_alive :: bool
  wk_ok :: bool
  wk_tasks_ran :: int
  wk_told_to_exit :: bool

record pool_config =
  pc_pool_size :: int
  pc_min_workers :: int
  pc_max_tasks_per_child :: "int option"
  pc_max_worker_memory :: "int option"
  pc_max_backlog :: int

text \<open>What follows \<open>done_with_process\<close> in \<open>run_task\<close>: another attempt, or the \<open>finally\<close> clause.\<close>

datatype continuation = Retry nat | Finish

text \<open>
  The program counter of \<open>run_task\<close>.  The number in the first constructors is \<open>retry_count\<close>;
  \<open>T_size\<close> to \<open>T_taken\<close> are inside \<open>get_process\<close>, with the busy count it has read and the worker it has
  taken; \<open>T_count\<close> to \<open>T_keep\<close> are inside \<open>done_with_process\<close>, with the counts it has read and the branch it
  has chosen.
\<close>

datatype task_phase =
    T_none
  | T_get nat
  | T_size nat int
  | T_add nat
  | T_take nat
  | T_taken nat nat
  | T_submit nat nat
  | T_poll nat
  | T_done_with nat continuation
  | T_count nat int continuation
  | T_total nat int continuation
  | T_retire nat continuation
  | T_keep nat continuation
  | T_finally
  | T_fallback
  | T_end

datatype runner_phase = R_put | R_get | R_exited

datatype pool_shutdown = SD_none | SD_put bool bool | SD_kill bool bool | SD_join | SD_closed | SD_raised

record pool_stats =
  ps_received :: int
  ps_launched :: int
  ps_failed :: int
  ps_created :: int
  ps_max_busy :: int

text \<open>
  A queued item is its key \<open>(priority, sequence)\<close>, the fields \<open>PrioritizedItem\<close> is ordered by;
  \<open>pl_item\<close> gives the future of the job with a sequence number, \<open>None\<close> for the shutdown sentinel.
  \<open>pl_admitted\<close> are the futures whose submitter has passed the closed check and not yet put the job,
  \<open>pl_refused\<close> those whose nonblocking put raised \<open>queue.Full\<close>.
\<close>

record pool =
  pl_closed :: bool
  pl_queue :: "(int \<times> int) list"
  pl_item :: "int \<Rightarrow> nat option"
  pl_sequence :: int
  pl_unfinished :: int
  pl_running_jobs :: int
  pl_runner :: runner_phase
  pl_fut :: "nat \<Rightarrow> future"
  pl_nfut :: nat
  pl_admitted :: "nat list"
  pl_refused :: "nat list"
  pl_task :: "nat \<Rightarrow> task_phase"
  pl_workers :: "nat list"
  pl_busy :: "nat list"
  pl_worker :: "nat \<Rightarrow> worker_process"
  pl_nworker :: nat
  pl_running_futs :: "nat list"
  pl_shutdown :: pool_shutdown
  pl_stats :: pool_stats

subsection \<open>Futures and statistics\<close>

definition fut_done :: "nat \<Rightarrow> pool \<Rightarrow> bool" where
  "fut_done f p \<longleftrightarrow> fu_state (pl_fut p f) \<noteq> Fut_pending"

text \<open>\<open>set_result\<close> and \<open>set_exception\<close> on a finished future raise \<open>InvalidStateError\<close>; \<open>cancel\<close> does nothing.\<close>

definition set_future :: "nat \<Rightarrow> fut_state \<Rightarrow> pool \<Rightarrow> pool" where
  "set_future f st p =
     (if fut_done f p then p
      else p\<lparr>pl_fut := (pl_fut p)(f := (pl_fut p f)\<lparr>fu_state := st\<rparr>)\<rparr>)"

definition set_pid :: "nat \<Rightarrow> nat \<Rightarrow> pool \<Rightarrow> pool" where
  "set_pid f w p = p\<lparr>pl_fut := (pl_fut p)(f := (pl_fut p f)\<lparr>fu_pid := Some w\<rparr>)\<rparr>"

definition upd_worker :: "nat \<Rightarrow> (worker_process \<Rightarrow> worker_process) \<Rightarrow> pool \<Rightarrow> pool" where
  "upd_worker w g p = p\<lparr>pl_worker := (pl_worker p)(w := g (pl_worker p w))\<rparr>"

definition bump :: "(pool_stats \<Rightarrow> pool_stats) \<Rightarrow> pool \<Rightarrow> pool" where
  "bump g p = p\<lparr>pl_stats := g (pl_stats p)\<rparr>"

definition task_failed :: "pool \<Rightarrow> pool" where
  "task_failed = bump (\<lambda>s. s\<lparr>ps_failed := ps_failed s + 1\<rparr>)"

definition goto :: "nat \<Rightarrow> task_phase \<Rightarrow> pool \<Rightarrow> pool" where
  "goto f ph p = p\<lparr>pl_task := (pl_task p)(f := ph)\<rparr>"

text \<open>\<open>cancel_and_kill_if_running\<close>: the process id stays on the future after the job has ended.\<close>

definition cancel_and_kill :: "nat \<Rightarrow> pool \<Rightarrow> pool" where
  "cancel_and_kill f p =
     (let p' = set_future f Fut_cancelled p in
      case fu_pid (pl_fut p' f) of
        None \<Rightarrow> p'
      | Some w \<Rightarrow> upd_worker w (\<lambda>k. k\<lparr>wk_alive := False\<rparr>) p')"

subsection \<open>Workers\<close>

text \<open>\<open>add_worker_to_pool\<close>; starting the process is taken to succeed.\<close>

definition add_worker_to_pool :: "pool \<Rightarrow> pool" where
  "add_worker_to_pool p =
     bump (\<lambda>s. s\<lparr>ps_created := ps_created s + 1\<rparr>)
       (p\<lparr>pl_worker := (pl_worker p)(pl_nworker p :=
            \<lparr>wk_alive = True, wk_ok = True, wk_tasks_ran = 0, wk_told_to_exit = False\<rparr>),
          pl_workers := pl_workers p @ [pl_nworker p],
          pl_nworker := Suc (pl_nworker p)\<rparr>)"

text \<open>\<open>WorkerProcess.shutdown\<close>: a living process is sent the \<open>None\<close> that makes it leave its loop.\<close>

definition worker_shutdown :: "nat \<Rightarrow> pool \<Rightarrow> pool" where
  "worker_shutdown w p =
     (if wk_alive (pl_worker p w) then upd_worker w (\<lambda>k. k\<lparr>wk_told_to_exit := True\<rparr>) p else p)"

definition clear_workers :: "pool \<Rightarrow> pool" where
  "clear_workers p = fold worker_shutdown (pl_workers p) (p\<lparr>pl_workers := []\<rparr>)"

text \<open>
  \<open>get_process\<close>: the decision to add a worker uses the busy count read before; a worker is first taken
  from the queue of idle workers and then counted as busy.
\<close>

definition get_process_grows :: "pool_config \<Rightarrow> int \<Rightarrow> pool \<Rightarrow> bool" where
  "get_process_grows cfg bw p \<longleftrightarrow>
     (let qs = int (length (pl_workers p)) in bw + qs < pc_pool_size cfg \<and> qs = 0)"

definition get_process_busy :: "nat \<Rightarrow> pool \<Rightarrow> pool" where
  "get_process_busy w p =
     (let p' = p\<lparr>pl_busy := pl_busy p @ [w]\<rparr>;
          n = int (length (pl_busy p'))
      in bump (\<lambda>s. if n > ps_max_busy s then s\<lparr>ps_max_busy := n\<rparr> else s) p')"

text \<open>
  \<open>done_with_process\<close> after the counts have been read: whether the worker is surplus, and what happens to
  a worker that is not, with whether the call returns.  \<open>rss\<close> is the answer of \<open>get_rss_bytes\<close>, \<open>None\<close>
  when psutil raises because the process is gone.
\<close>

definition surplus :: "pool_config \<Rightarrow> int \<Rightarrow> pool \<Rightarrow> bool" where
  "surplus cfg tot p \<longleftrightarrow> tot > pc_min_workers cfg \<and> pl_queue p = []"

definition done_with_process :: "pool_config \<Rightarrow> nat \<Rightarrow> int option \<Rightarrow> pool \<Rightarrow> pool \<times> bool" where
  "done_with_process cfg w rss p =
     (if \<not> wk_alive (pl_worker p w) then (add_worker_to_pool p, True)
      else if \<not> wk_ok (pl_worker p w) then (add_worker_to_pool p, True)
      else if (case pc_max_tasks_per_child cfg of None \<Rightarrow> False | Some n \<Rightarrow> wk_tasks_ran (pl_worker p w) \<ge> n)
      then (add_worker_to_pool (worker_shutdown w p), True)
      else case pc_max_worker_memory cfg of
             None \<Rightarrow> (p\<lparr>pl_workers := pl_workers p @ [w]\<rparr>, True)
           | Some limit \<Rightarrow>
               (case rss of
                  None \<Rightarrow> (p, False)
                | Some mem \<Rightarrow>
                    if mem \<ge> limit then (add_worker_to_pool (worker_shutdown w p), True)
                    else (p\<lparr>pl_workers := pl_workers p @ [w]\<rparr>, True)))"

subsection \<open>Submission\<close>

text \<open>
  \<open>submit\<close> and \<open>_submit_future\<close> up to the put: the future exists and the item has its sequence number,
  but is not yet queued.  The test of \<open>closed\<close> and the drawing of the number are one event: until the number is drawn a
  submission that passed the test has no effect another thread can see, so submitters are listed in the order in which they draw.
\<close>

datatype submit_error = Negative_priority | Pool_closed

definition pool_submit :: "int \<Rightarrow> pool \<Rightarrow> pool \<times> submit_error option" where
  "pool_submit priority p =
     (if priority < 0 then (p, Some Negative_priority)
      else if pl_closed p then (p, Some Pool_closed)
      else (p\<lparr>pl_fut := (pl_fut p)(pl_nfut p :=
                \<lparr>fu_state = Fut_pending, fu_pid = None, fu_priority = priority, fu_sequence = pl_sequence p\<rparr>),
              pl_item := (pl_item p)(pl_sequence p := Some (pl_nfut p)),
              pl_sequence := pl_sequence p + 1,
              pl_admitted := pl_nfut p # pl_admitted p,
              pl_nfut := Suc (pl_nfut p)\<rparr>, None))"

definition queue_is_full :: "pool_config \<Rightarrow> pool \<Rightarrow> bool" where
  "queue_is_full cfg p \<longleftrightarrow> 0 < pc_max_backlog cfg \<and> int (length (pl_queue p)) \<ge> pc_max_backlog cfg"

text \<open>\<open>PriorityQueue.put\<close> with room: the item is queued and counted as unfinished.\<close>

definition queue_put :: "int \<Rightarrow> int \<Rightarrow> pool \<Rightarrow> pool" where
  "queue_put priority sequence p =
     p\<lparr>pl_queue := heappush (pl_queue p) (priority, sequence), pl_unfinished := pl_unfinished p + 1\<rparr>"

text \<open>
  The put of an admitted future.  A full queue blocks the caller, or refuses the job when the broker
  asked for a nonblocking put.
\<close>

definition submit_put :: "pool_config \<Rightarrow> nat \<Rightarrow> bool \<Rightarrow> pool \<Rightarrow> pool" where
  "submit_put cfg f block p =
     (if f \<notin> set (pl_admitted p) then p
      else if queue_is_full cfg p
      then (if block then p
            else p\<lparr>pl_admitted := remove1 f (pl_admitted p), pl_refused := f # pl_refused p\<rparr>)
      else bump (\<lambda>s. s\<lparr>ps_received := ps_received s + 1\<rparr>)
             (queue_put (fu_priority (pl_fut p f)) (fu_sequence (pl_fut p f))
               (p\<lparr>pl_admitted := remove1 f (pl_admitted p)\<rparr>)))"

subsection \<open>The runner\<close>

definition queue_get :: "pool \<Rightarrow> (nat option \<times> pool) option" where
  "queue_get p =
     (case heappop (pl_queue p) of
        Inl _ \<Rightarrow> None
      | Inr ((priority, sequence), h) \<Rightarrow> Some (pl_item p sequence, p\<lparr>pl_queue := h\<rparr>))"

definition queue_task_done :: "pool \<Rightarrow> pool" where
  "queue_task_done p = p\<lparr>pl_unfinished := pl_unfinished p - 1\<rparr>"

text \<open>
  \<open>cancel_all_futures_on_queue\<close>, called with the length of the queue; unpacking a sentinel would raise
  \<open>TypeError\<close>, which ends the loop.
\<close>

fun cancel_all_futures_on_queue :: "nat \<Rightarrow> pool \<Rightarrow> pool" where
  "cancel_all_futures_on_queue 0 p = p"
| "cancel_all_futures_on_queue (Suc n) p =
     (case queue_get p of
        None \<Rightarrow> p
      | Some (None, p') \<Rightarrow> queue_task_done p'
      | Some (Some f, p') \<Rightarrow> cancel_all_futures_on_queue n (set_future f Fut_cancelled (queue_task_done p')))"

text \<open>One round of \<open>runner\<close>: count the job, get it, start its thread; starting the thread is taken to succeed.\<close>

definition runner_step :: "pool_config \<Rightarrow> pool \<Rightarrow> pool" where
  "runner_step cfg p =
     (case pl_runner p of
        R_put \<Rightarrow>
          if 0 < pc_pool_size cfg \<and> pl_running_jobs p \<ge> pc_pool_size cfg then p
          else p\<lparr>pl_running_jobs := pl_running_jobs p + 1, pl_runner := R_get\<rparr>
      | R_get \<Rightarrow>
          (case queue_get p of
             None \<Rightarrow> p
           | Some (None, p') \<Rightarrow>
               let p'' = (queue_task_done p')\<lparr>pl_running_jobs := pl_running_jobs p' - 1, pl_runner := R_exited\<rparr>
               in cancel_all_futures_on_queue (length (pl_queue p'')) p''
           | Some (Some f, p') \<Rightarrow>
               if fut_done f p'
               then (queue_task_done p')\<lparr>pl_running_jobs := pl_running_jobs p' - 1, pl_runner := R_put\<rparr>
               else bump (\<lambda>s. s\<lparr>ps_launched := ps_launched s + 1\<rparr>)
                      ((goto f (T_get 9) p')\<lparr>pl_runner := R_put\<rparr>))
      | R_exited \<Rightarrow> p)"

subsection \<open>Task threads\<close>

text \<open>What the environment answers to a step of \<open>run_task\<close>.\<close>

datatype task_input =
    In_nothing
  | In_refused
  | In_submitted
  | In_unpicklable
  | In_broken_pipe
  | In_raises
  | In_value nat
  | In_exception pool_exn
  | In_eof
  | In_receive_error
  | In_rss "int option"

definition count_task :: "nat \<Rightarrow> pool \<Rightarrow> pool" where
  "count_task w = upd_worker w (\<lambda>k. k\<lparr>wk_tasks_ran := wk_tasks_ran k + 1\<rparr>)"

text \<open>
  \<open>before_submit\<close>, \<open>submit_job\<close> and the handlers of the exceptions it raises.  Setting an exception on a
  future that was cancelled meanwhile raises \<open>InvalidStateError\<close> out of the handler, and any other
  exception leaves \<open>run_task\<close> through its \<open>finally\<close>.
\<close>

definition submit_job_step :: "nat \<Rightarrow> nat \<Rightarrow> nat \<Rightarrow> task_input \<Rightarrow> pool \<Rightarrow> pool" where
  "submit_job_step f n w inp p =
     (case inp of
        In_refused \<Rightarrow> goto f (T_done_with w Finish) p
      | In_submitted \<Rightarrow>
          let p' = set_pid f w (count_task w p)
          in goto f (T_poll w) (p'\<lparr>pl_running_futs := (if f \<in> set (pl_running_futs p') then pl_running_futs p'
                                                     else pl_running_futs p' @ [f])\<rparr>)
      | In_unpicklable \<Rightarrow>
          if fut_done f p then goto f T_finally (count_task w p)
          else goto f (T_done_with w Finish) (set_future f (Fut_exception Pickling_failed) (count_task w p))
      | In_broken_pipe \<Rightarrow>
          goto f (T_done_with w (Retry n)) (upd_worker w (\<lambda>k. k\<lparr>wk_ok := False\<rparr>) (count_task w p))
      | In_raises \<Rightarrow> goto f T_finally (count_task w p)
      | _ \<Rightarrow> p)"

definition poll_step :: "nat \<Rightarrow> nat \<Rightarrow> task_input \<Rightarrow> pool \<Rightarrow> pool" where
  "poll_step f w inp p =
     (case inp of
        In_value v \<Rightarrow> goto f (T_done_with w Finish) (set_future f (Fut_result v) p)
      | In_exception e \<Rightarrow>
          let p' = set_future f (Fut_exception e) (task_failed p)
          in goto f (T_done_with w Finish)
               (if e = Pool_timeout then upd_worker w (\<lambda>k. k\<lparr>wk_ok := False\<rparr>) (task_failed p') else p')
      | In_eof \<Rightarrow> goto f (T_done_with w Finish) (set_future f (Fut_exception Process_error) (task_failed p))
      | In_receive_error \<Rightarrow>
          goto f (T_done_with w Finish) (set_future f (Fut_exception Receive_failed) (task_failed p))
      | In_nothing \<Rightarrow>
          if wk_alive (pl_worker p w) then p
          else goto f (T_done_with w Finish) (set_future f (Fut_exception Process_error) (task_failed p))
      | _ \<Rightarrow> p)"

text \<open>
  After \<open>done_with_process\<close>; a broken worker is killed before the next attempt.  \<open>kill_proc_tree\<close>, which ignores processes that are gone, is
  taken to return.
\<close>

definition continue_task :: "nat \<Rightarrow> nat \<Rightarrow> continuation \<Rightarrow> pool \<Rightarrow> pool" where
  "continue_task f w k p =
     (case k of
        Finish \<Rightarrow> goto f T_finally p
      | Retry n \<Rightarrow>
          let p' = upd_worker w (\<lambda>k. k\<lparr>wk_alive := False\<rparr>) p
          in case n of
               0 \<Rightarrow> goto f T_finally (set_future f (Fut_exception Process_error) p')
             | Suc m \<Rightarrow> goto f (T_get m) p')"

text \<open>The rest of \<open>finally\<close>, after \<open>task_done\<close>.\<close>

definition fallback_step :: "nat \<Rightarrow> pool \<Rightarrow> pool" where
  "fallback_step f p =
     (let p' = set_future f (Fut_exception Process_error) p
      in goto f T_end
           (if pl_running_jobs p' = 0 then p' else p'\<lparr>pl_running_jobs := pl_running_jobs p' - 1\<rparr>))"

definition run_task_step :: "pool_config \<Rightarrow> nat \<Rightarrow> task_input \<Rightarrow> pool \<Rightarrow> pool" where
  "run_task_step cfg f inp p =
     (case pl_task p f of
        T_get n \<Rightarrow> goto f (T_size n (int (length (pl_busy p)))) p
      | T_size n bw \<Rightarrow> goto f (if get_process_grows cfg bw p then T_add n else T_take n) p
      | T_add n \<Rightarrow> goto f (T_take n) (add_worker_to_pool p)
      | T_take n \<Rightarrow>
          (case pl_workers p of
             [] \<Rightarrow> p
           | w # rest \<Rightarrow> goto f (T_taken n w) (p\<lparr>pl_workers := rest\<rparr>))
      | T_taken n w \<Rightarrow> goto f (T_submit n w) (get_process_busy w p)
      | T_submit n w \<Rightarrow> submit_job_step f n w inp p
      | T_poll w \<Rightarrow> poll_step f w inp p
      | T_done_with w k \<Rightarrow>
          if w \<in> set (pl_busy p)
          then let p' = p\<lparr>pl_busy := remove1 w (pl_busy p)\<rparr>
               in goto f (T_count w (int (length (pl_busy p'))) k) p'
          else goto f T_finally p
      | T_count w busy k \<Rightarrow> goto f (T_total w (busy + int (length (pl_workers p)) + 1) k) p
      | T_total w tot k \<Rightarrow> goto f (if surplus cfg tot p then T_retire w k else T_keep w k) p
      | T_retire w k \<Rightarrow> continue_task f w k (worker_shutdown w p)
      | T_keep w k \<Rightarrow>
          (case done_with_process cfg w (case inp of In_rss r \<Rightarrow> r | _ \<Rightarrow> None) p of
             (p', returned) \<Rightarrow> if returned then continue_task f w k p' else goto f T_finally p')
      | T_finally \<Rightarrow> goto f T_fallback (queue_task_done p)
      | T_fallback \<Rightarrow> fallback_step f p
      | _ \<Rightarrow> p)"

subsection \<open>Shutdown\<close>

definition pool_shutdown_begin :: "bool \<Rightarrow> bool \<Rightarrow> pool \<Rightarrow> pool" where
  "pool_shutdown_begin wait cancel_futures p =
     (if pl_closed p then p
      else let p' = p\<lparr>pl_closed := True, pl_shutdown := SD_put wait cancel_futures\<rparr>
           in if cancel_futures then cancel_all_futures_on_queue (length (pl_queue p')) p' else p')"

definition maxsize :: int where
  "maxsize = 2 ^ 63 - 1"

text \<open>
  The rest of \<open>shutdown\<close>.  \<open>expired\<close> says that the put of the sentinel has waited two seconds on a full
  queue: it raises \<open>queue.Full\<close>, which the handler for \<open>TimeoutError\<close> does not catch.
\<close>

definition pool_shutdown_step :: "pool_config \<Rightarrow> bool \<Rightarrow> pool \<Rightarrow> pool" where
  "pool_shutdown_step cfg expired p =
     (case pl_shutdown p of
        SD_put wait cancel_futures \<Rightarrow>
          if queue_is_full cfg p then (if expired then p\<lparr>pl_shutdown := SD_raised\<rparr> else p)
          else (queue_put (if wait then maxsize else -1) (pl_sequence p)
                  (p\<lparr>pl_item := (pl_item p)(pl_sequence p := None), pl_sequence := pl_sequence p + 1\<rparr>))
                 \<lparr>pl_shutdown := SD_kill wait cancel_futures\<rparr>
      | SD_kill wait cancel_futures \<Rightarrow>
          (if \<not> wait \<and> cancel_futures then fold cancel_and_kill (pl_running_futs p) p else p)
            \<lparr>pl_shutdown := SD_join\<rparr>
      | SD_join \<Rightarrow>
          if pl_unfinished p \<noteq> 0 then p
          else (fold worker_shutdown (pl_workers p @ pl_busy p) (p\<lparr>pl_workers := [], pl_busy := []\<rparr>))
                 \<lparr>pl_shutdown := SD_closed\<rparr>
      | _ \<Rightarrow> p)"

subsection \<open>Interleaving\<close>

datatype pool_event =
    Pv_submit int
  | Pv_put nat bool
  | Pv_runner
  | Pv_task nat task_input
  | Pv_cancel nat
  | Pv_kill nat
  | Pv_die nat
  | Pv_clear_workers
  | Pv_shutdown bool bool
  | Pv_shutdown_step bool

fun pool_step :: "pool_config \<Rightarrow> pool_event \<Rightarrow> pool \<Rightarrow> pool" where
  "pool_step cfg (Pv_submit priority) p = fst (pool_submit priority p)"
| "pool_step cfg (Pv_put f block) p = submit_put cfg f block p"
| "pool_step cfg Pv_runner p = runner_step cfg p"
| "pool_step cfg (Pv_task f inp) p = run_task_step cfg f inp p"
| "pool_step cfg (Pv_cancel f) p = (if f < pl_nfut p then set_future f Fut_cancelled p else p)"
| "pool_step cfg (Pv_kill f) p = (if f < pl_nfut p then cancel_and_kill f p else p)"
| "pool_step cfg (Pv_die w) p = upd_worker w (\<lambda>k. k\<lparr>wk_alive := False\<rparr>) p"
| "pool_step cfg Pv_clear_workers p = clear_workers p"
| "pool_step cfg (Pv_shutdown wait cancel_futures) p = pool_shutdown_begin wait cancel_futures p"
| "pool_step cfg (Pv_shutdown_step expired) p = pool_shutdown_step cfg expired p"

text \<open>\<open>pool_size = max_workers or len(os.sched_getaffinity(0))\<close>, and the constructor's first workers.\<close>

definition pool_configure :: "int option \<Rightarrow> int \<Rightarrow> int option \<Rightarrow> int option \<Rightarrow> int option \<Rightarrow> int \<Rightarrow> pool_config" where
  "pool_configure max_workers cpus min_workers max_tasks max_memory backlog =
     (let n = (case max_workers of None \<Rightarrow> cpus | Some k \<Rightarrow> if k = 0 then cpus else k)
      in \<lparr>pc_pool_size = n, pc_min_workers = (case min_workers of None \<Rightarrow> n | Some k \<Rightarrow> k),
          pc_max_tasks_per_child = max_tasks, pc_max_worker_memory = max_memory, pc_max_backlog = backlog\<rparr>)"

definition pool_empty :: pool where
  "pool_empty =
     \<lparr>pl_closed = False, pl_queue = [], pl_item = (\<lambda>_. None), pl_sequence = 0, pl_unfinished = 0,
      pl_running_jobs = 0, pl_runner = R_put,
      pl_fut = (\<lambda>_. \<lparr>fu_state = Fut_pending, fu_pid = None, fu_priority = 0, fu_sequence = 0\<rparr>), pl_nfut = 0, pl_admitted = [], pl_refused = [],
      pl_task = (\<lambda>_. T_none), pl_workers = [], pl_busy = [],
      pl_worker = (\<lambda>_. \<lparr>wk_alive = False, wk_ok = False, wk_tasks_ran = 0, wk_told_to_exit = False\<rparr>),
      pl_nworker = 0, pl_running_futs = [], pl_shutdown = SD_none,
      pl_stats = \<lparr>ps_received = 0, ps_launched = 0, ps_failed = 0, ps_created = 0, ps_max_busy = 0\<rparr>\<rparr>"

definition pool_init :: "pool_config \<Rightarrow> pool" where
  "pool_init cfg = (add_worker_to_pool ^^ nat (pc_pool_size cfg)) pool_empty"

inductive pool_reachable :: "pool_config \<Rightarrow> pool \<Rightarrow> bool" for cfg where
  init: "pool_reachable cfg (pool_init cfg)"
| step: "pool_reachable cfg p \<Longrightarrow> pool_reachable cfg (pool_step cfg ev p)"

definition pool_run :: "pool_config \<Rightarrow> pool_event list \<Rightarrow> pool \<Rightarrow> pool" where
  "pool_run cfg evs p = fold (pool_step cfg) evs p"

end
