(* ===== verification/PoolInv.thy ===== *)
theory PoolInv
  imports Pool
begin

text \<open>
  Invariants of the local executor: where every job is, what the two counters \<open>unfinished_tasks\<close> and
  \<open>running_jobs\<close> count, and how many workers there are.
\<close>

subsection \<open>Weights of threads\<close>

fun active :: "task_phase \<Rightarrow> bool" where
  "active T_none = False"
| "active T_end = False"
| "active _ = True"

text \<open>A thread that has not yet marked its job as done on the queue.\<close>

fun pending :: "task_phase \<Rightarrow> bool" where
  "pending T_none = False"
| "pending T_fallback = False"
| "pending T_end = False"
| "pending _ = True"

text \<open>A thread that has, or is about to add, a worker of its own.\<close>

fun owns_worker :: "task_phase \<Rightarrow> bool" where
  "owns_worker (T_add _) = True"
| "owns_worker (T_taken _ _) = True"
| "owns_worker (T_submit _ _) = True"
| "owns_worker (T_poll _) = True"
| "owns_worker (T_done_with _ _) = True"
| "owns_worker (T_count _ _ _) = True"
| "owns_worker (T_total _ _ _) = True"
| "owns_worker (T_retire _ _) = True"
| "owns_worker (T_keep _ _) = True"
| "owns_worker _ = False"

definition tally :: "(task_phase \<Rightarrow> bool) \<Rightarrow> pool \<Rightarrow> int" where
  "tally P p = (\<Sum>f < pl_nfut p. of_bool (P (pl_task p f)))"

lemma sum_change:
  fixes g h :: "nat \<Rightarrow> int"
  assumes "f < n" and "\<And>x. x \<noteq> f \<Longrightarrow> g x = h x"
  shows "(\<Sum>x < n. g x) = (\<Sum>x < n. h x) - h f + g f"
proof -
  have "(\<Sum>x < n. g x) = g f + (\<Sum>x \<in> {..<n} - {f}. g x)" using assms(1) by (simp add: sum.remove)
  also have "(\<Sum>x \<in> {..<n} - {f}. g x) = (\<Sum>x \<in> {..<n} - {f}. h x)" using assms(2) by (intro sum.cong) auto
  also have "\<dots> = (\<Sum>x < n. h x) - h f" using assms(1) by (simp add: sum_diff1)
  finally show ?thesis by simp
qed

lemma tally_goto:
  "f < pl_nfut p \<Longrightarrow> tally P (goto f ph p) = tally P p - of_bool (P (pl_task p f)) + of_bool (P ph)"
  unfolding tally_def goto_def by (subst sum_change [where h = "\<lambda>f. of_bool (P (pl_task p f))"]) auto

lemma tally_nonneg: "0 \<le> tally P p"
  by (simp add: tally_def sum_nonneg)

lemma tally_mono: "(\<And>ph. P ph \<Longrightarrow> Q ph) \<Longrightarrow> tally P p \<le> tally Q p"
  unfolding tally_def by (intro sum_mono) auto

lemma tally_less:
  assumes "\<And>ph. P ph \<Longrightarrow> Q ph" and "f < pl_nfut p" and "Q (pl_task p f)" and "\<not> P (pl_task p f)"
  shows "tally P p + 1 \<le> tally Q p"
proof -
  have "(\<Sum>f < pl_nfut p. of_bool (P (pl_task p f)) :: int) < (\<Sum>f < pl_nfut p. of_bool (Q (pl_task p f)))"
    using assms by (intro sum_strict_mono_ex1) auto
  then show ?thesis by (simp add: tally_def)
qed

lemma tally_zero: "tally P p = 0 \<Longrightarrow> f < pl_nfut p \<Longrightarrow> \<not> P (pl_task p f)"
  unfolding tally_def by (auto simp: sum_nonneg_eq_0_iff)

subsection \<open>The invariant\<close>

definition seqs :: "pool \<Rightarrow> int set" where
  "seqs p = snd ` set (pl_queue p)"

definition queued :: "pool \<Rightarrow> nat set" where
  "queued p = {f. \<exists>s \<in> seqs p. pl_item p s = Some f}"

definition queue_ok :: "pool \<Rightarrow> bool" where
  "queue_ok p \<longleftrightarrow>
     is_heap (pl_queue p) \<and> distinct (map snd (pl_queue p)) \<and> (\<forall>s \<in> seqs p. s < pl_sequence p) \<and>
     (\<forall>s \<in> seqs p. \<forall>s' \<in> seqs p. pl_item p s \<noteq> None \<longrightarrow> pl_item p s = pl_item p s' \<longrightarrow> s = s')"

definition idle_future :: "nat \<Rightarrow> pool \<Rightarrow> bool" where
  "idle_future f p \<longleftrightarrow> f < pl_nfut p \<and> pl_task p f = T_none"

definition numbered_item :: "nat \<Rightarrow> pool \<Rightarrow> bool" where
  "numbered_item f p \<longleftrightarrow>
     fu_sequence (pl_fut p f) < pl_sequence p \<and> pl_item p (fu_sequence (pl_fut p f)) = Some f"

definition places_ok :: "pool \<Rightarrow> bool" where
  "places_ok p \<longleftrightarrow>
     (\<forall>f \<ge> pl_nfut p. pl_task p f = T_none) \<and>
     (\<forall>f \<in> set (pl_admitted p) \<union> set (pl_refused p) \<union> queued p. idle_future f p) \<and>
     (\<forall>f \<in> set (pl_admitted p). numbered_item f p) \<and>
     distinct (pl_admitted p) \<and> set (pl_admitted p) \<inter> queued p = {} \<and>
     (set (pl_admitted p) \<union> queued p) \<inter> set (pl_refused p) = {} \<and>
     (\<forall>f < pl_nfut p. pl_task p f = T_end \<longrightarrow> fut_done f p) \<and>
     (\<forall>f < pl_nfut p. f \<in> set (pl_admitted p) \<or> f \<in> set (pl_refused p) \<or> f \<in> queued p \<or>
        active (pl_task p f) \<or> fut_done f p)"

definition counts_ok :: "pool_config \<Rightarrow> pool \<Rightarrow> bool" where
  "counts_ok cfg p \<longleftrightarrow>
     pl_unfinished p = int (length (pl_queue p)) + tally pending p \<and>
     pl_running_jobs p = tally active p + of_bool (pl_runner p = R_get) \<and>
     pl_running_jobs p \<le> pc_pool_size cfg \<and>
     tally owns_worker p + int (length (pl_workers p)) \<le> pc_pool_size cfg"

definition pool_inv :: "pool_config \<Rightarrow> pool \<Rightarrow> bool" where
  "pool_inv cfg p \<longleftrightarrow> queue_ok p \<and> places_ok p \<and> counts_ok cfg p"

lemmas pool_inv_defs = pool_inv_def queue_ok_def places_ok_def counts_ok_def

text \<open>The part of the state the invariant reads.\<close>

definition pview where
  "pview p = (pl_queue p, pl_item p, pl_sequence p, pl_unfinished p, pl_running_jobs p, pl_runner p,
     (\<lambda>f. fut_done f p), (\<lambda>f. fu_sequence (pl_fut p f)), pl_nfut p, pl_admitted p, pl_refused p, pl_task p, length (pl_workers p))"

named_theorems pview_simps "operations that leave the accounts of the pool as they are"

lemma pview_cong:
  assumes "pview p = pview p'" and "pool_inv cfg p'"
  shows "pool_inv cfg p"
proof -
  have eqs: "pl_queue p = pl_queue p'" "pl_item p = pl_item p'" "pl_sequence p = pl_sequence p'"
    "pl_unfinished p = pl_unfinished p'" "pl_running_jobs p = pl_running_jobs p'" "pl_runner p = pl_runner p'"
    "\<And>f. fut_done f p = fut_done f p'" "\<And>f. fu_sequence (pl_fut p f) = fu_sequence (pl_fut p' f)" "pl_nfut p = pl_nfut p'" "pl_admitted p = pl_admitted p'"
    "pl_refused p = pl_refused p'" "pl_task p = pl_task p'" "length (pl_workers p) = length (pl_workers p')"
    using assms(1) by (simp_all add: pview_def fun_eq_iff)
  have "pool_inv cfg p = pool_inv cfg p'"
    unfolding pool_inv_defs queued_def seqs_def idle_future_def numbered_item_def tally_def by (simp only: eqs)
  with assms(2) show ?thesis by simp
qed

lemma pview_upd [pview_simps]:
  "pview (upd_worker w g p) = pview p" "pview (bump h p) = pview p" "pview (task_failed p) = pview p"
  "pview (worker_shutdown w p) = pview p" "pview (set_pid f w p) = pview p" "pview (count_task w p) = pview p"
  "pview (p\<lparr>pl_running_futs := fs\<rparr>) = pview p" "pview (p\<lparr>pl_busy := bs\<rparr>) = pview p"
  "pview (p\<lparr>pl_shutdown := sd\<rparr>) = pview p" "pview (p\<lparr>pl_closed := c\<rparr>) = pview p"
  by (auto simp: pview_def upd_worker_def bump_def task_failed_def worker_shutdown_def set_pid_def count_task_def
      fut_done_def fun_eq_iff)

subsection \<open>The queue\<close>

lemma queue_get_spec:
  assumes ok: "queue_ok p" and get: "queue_get p = Some (item, p')"
  shows "\<exists>k s. pl_queue p \<noteq> [] \<and> (k, s) = pl_queue p ! 0 \<and> (\<forall>x \<in> set (pl_queue p). (k, s) \<le> x) \<and> pl_item p s = item \<and>
    p' = p\<lparr>pl_queue := pl_queue p'\<rparr> \<and> mset (pl_queue p) = add_mset (k, s) (mset (pl_queue p'))"
    and "queue_ok p'"
    and "length (pl_queue p) = Suc (length (pl_queue p'))"
    and "queued p = queued p' \<union> set_option item"
    and "item = Some f \<Longrightarrow> f \<notin> queued p'"
proof -
  have heap: "is_heap (pl_queue p)" and ne: "pl_queue p \<noteq> []"
    using ok get by (auto simp: queue_ok_def queue_get_def hq.pop_Nil)
  obtain h where h: "heappop (pl_queue p) = Inr (pl_queue p ! 0, h)" "is_heap h"
      "mset (pl_queue p) = add_mset (pl_queue p ! 0) (mset h)"
    using hq.pop_good [OF heap ne] by blast
  obtain k s where ks: "(k, s) = pl_queue p ! 0" by (metis surj_pair)
  have p': "p' = p\<lparr>pl_queue := h\<rparr>" "pl_item p s = item"
    using get by (simp_all add: queue_get_def h ks [symmetric])
  have q: "mset (map snd (pl_queue p)) = mset (s # map snd h)"
    using h(3) by (simp add: ks [symmetric])
  then have dist: "distinct (s # map snd h)"
    using ok mset_eq_imp_distinct_iff [OF q] by (simp add: queue_ok_def)
  have seqs: "seqs p = insert s (seqs p')" "s \<notin> seqs p'"
    using mset_eq_setD [OF q] dist by (simp_all add: seqs_def p')
  show spec: "\<exists>k s. pl_queue p \<noteq> [] \<and> (k, s) = pl_queue p ! 0 \<and> (\<forall>x \<in> set (pl_queue p). (k, s) \<le> x) \<and> pl_item p s = item \<and>
    p' = p\<lparr>pl_queue := pl_queue p'\<rparr> \<and> mset (pl_queue p) = add_mset (k, s) (mset (pl_queue p'))"
    using h ks p' ne hq.good_least [OF heap] by (intro exI [of _ k] exI [of _ s]) auto
  show "length (pl_queue p) = Suc (length (pl_queue p'))"
    using arg_cong [OF q, of size] by (simp add: p')
  show "queue_ok p'"
    using ok h(2) dist seqs unfolding queue_ok_def by (auto simp: p')
  show "queued p = queued p' \<union> set_option item"
    using seqs p' by (cases item) (auto simp: queued_def)
  show "f \<notin> queued p'" if "item = Some f"
    using ok that seqs p' by (fastforce simp: queued_def queue_ok_def)
qed

lemma queue_put_spec:
  assumes ok: "queue_ok p" and n: "sequence < pl_sequence p" "sequence \<notin> seqs p"
    and item: "\<And>f. pl_item p sequence = Some f \<Longrightarrow> f \<notin> queued p"
  shows "queue_ok (queue_put k sequence p)"
    and "queued (queue_put k sequence p) = queued p \<union> set_option (pl_item p sequence)"
    and "length (pl_queue (queue_put k sequence p)) = Suc (length (pl_queue p))"
proof -
  have q: "mset (map snd (pl_queue (queue_put k sequence p))) = mset (sequence # map snd (pl_queue p))"
    by (simp add: queue_put_def mset_heappush)
  have seqs: "seqs (queue_put k sequence p) = insert sequence (seqs p)"
    using mset_eq_setD [OF q] by (simp add: seqs_def)
  have "distinct (map snd (pl_queue (queue_put k sequence p)))"
    using mset_eq_imp_distinct_iff [OF q] ok n by (simp add: queue_ok_def seqs_def)
  moreover have "\<forall>s \<in> seqs p. pl_item p sequence \<noteq> None \<longrightarrow> pl_item p s \<noteq> pl_item p sequence"
    using item by (fastforce simp: queued_def)
  ultimately show "queue_ok (queue_put k sequence p)"
    using ok n unfolding queue_ok_def seqs by (auto simp: queue_put_def heappush_heap)
  show "queued (queue_put k sequence p) = queued p \<union> set_option (pl_item p sequence)"
    unfolding queued_def seqs by (auto simp: queue_put_def)
  show "length (pl_queue (queue_put k sequence p)) = Suc (length (pl_queue p))"
    using arg_cong [OF q, of size] by simp
qed

subsection \<open>Every step keeps the invariant\<close>

lemma tally_cong: "pl_nfut p = pl_nfut q \<Longrightarrow> pl_task p = pl_task q \<Longrightarrow> tally P p = tally P q"
  by (simp add: tally_def)

lemma set_future_frame [simp]:
  "pl_queue (set_future f st p) = pl_queue p" "pl_item (set_future f st p) = pl_item p"
  "pl_sequence (set_future f st p) = pl_sequence p" "pl_unfinished (set_future f st p) = pl_unfinished p"
  "pl_running_jobs (set_future f st p) = pl_running_jobs p" "pl_runner (set_future f st p) = pl_runner p"
  "pl_nfut (set_future f st p) = pl_nfut p" "pl_admitted (set_future f st p) = pl_admitted p"
  "pl_refused (set_future f st p) = pl_refused p" "pl_task (set_future f st p) = pl_task p"
  "pl_workers (set_future f st p) = pl_workers p" "pl_busy (set_future f st p) = pl_busy p"
  "pl_closed (set_future f st p) = pl_closed p" "pl_shutdown (set_future f st p) = pl_shutdown p"
  "pl_worker (set_future f st p) = pl_worker p"
  "fu_sequence (pl_fut (set_future f st p) g) = fu_sequence (pl_fut p g)"
  by (simp_all add: set_future_def)

lemma set_future_done: "st \<noteq> Fut_pending \<Longrightarrow> fut_done f (set_future f st p)"
  "fut_done g p \<Longrightarrow> fut_done g (set_future f st p)"
  by (auto simp: set_future_def fut_done_def)

lemma set_future_inv:
  assumes "pool_inv cfg p"
  shows "pool_inv cfg (set_future f st p)"
proof -
  have "queue_ok (set_future f st p) \<longleftrightarrow> queue_ok p" "queued (set_future f st p) = queued p"
      "tally P (set_future f st p) = tally P p" for P
    by (simp_all add: queue_ok_def seqs_def queued_def tally_def)
  with assms show ?thesis
    using set_future_done(2) [of _ p f st] by (auto simp: pool_inv_def places_ok_def counts_ok_def idle_future_def numbered_item_def)
qed

lemma active_task:
  assumes "pool_inv cfg p" and "pl_task p f \<noteq> T_none"
  shows "f < pl_nfut p"
  using assms by (auto simp: pool_inv_def places_ok_def not_less)

text \<open>A thread moves between two phases, the number of idle workers changing to \<open>n\<close>.\<close>

lemma move_inv:
  assumes inv: "pool_inv cfg p" and a: "active (pl_task p f)" "active ph" "pending (pl_task p f)" "pending ph"
    and n: "tally owns_worker p - of_bool (owns_worker (pl_task p f)) + of_bool (owns_worker ph) +
      int (length ws) \<le> pc_pool_size cfg"
    and q: "pview q = pview (goto f ph (p\<lparr>pl_workers := ws\<rparr>))"
  shows "pool_inv cfg q"
proof (rule pview_cong [OF q])
  let ?q = "goto f ph (p\<lparr>pl_workers := ws\<rparr>)"
  have f: "f < pl_nfut p" using a(1) by (intro active_task [OF inv]) auto
  have "tally P ?q = tally P p - of_bool (P (pl_task p f)) + of_bool (P ph)" for P
    using tally_goto [of f "p\<lparr>pl_workers := ws\<rparr>" P ph] f by (simp add: tally_def)
  then have "counts_ok cfg ?q"
    using inv a n by (simp add: pool_inv_def counts_ok_def goto_def)
  moreover have "queue_ok ?q \<longleftrightarrow> queue_ok p" "queued ?q = queued p"
    by (simp_all add: queue_ok_def seqs_def queued_def goto_def)
  moreover have "places_ok ?q"
  proof -
    have "f \<notin> set (pl_admitted p) \<union> set (pl_refused p) \<union> queued p"
      using inv a(1) by (auto simp: pool_inv_def places_ok_def idle_future_def)
    moreover have "fut_done g ?q = fut_done g p" for g by (simp add: fut_done_def goto_def)
    ultimately show ?thesis
      using inv a f \<open>queued ?q = queued p\<close> unfolding pool_inv_def places_ok_def idle_future_def numbered_item_def
      by (auto simp: goto_def)
  qed
  ultimately show "pool_inv cfg ?q" using inv by (simp add: pool_inv_def)
qed

lemma finally_inv:
  assumes inv: "pool_inv cfg p" and f: "pl_task p f = T_finally"
  shows "pool_inv cfg (goto f T_fallback (queue_task_done p))"
proof -
  let ?q = "goto f T_fallback (queue_task_done p)"
  have n: "f < pl_nfut p" using active_task [OF inv] f by simp
  then have "tally P ?q = tally P p - of_bool (P T_finally) + of_bool (P T_fallback)" for P
    using tally_goto [of f "queue_task_done p" P T_fallback] f by (simp add: tally_def queue_task_done_def)
  then have "counts_ok cfg ?q" using inv by (simp add: pool_inv_def counts_ok_def goto_def queue_task_done_def)
  moreover have same: "queue_ok ?q \<longleftrightarrow> queue_ok p" "queued ?q = queued p" "fut_done g ?q = fut_done g p" for g
    by (simp_all add: queue_ok_def seqs_def queued_def goto_def queue_task_done_def fut_done_def)
  moreover have "places_ok ?q"
    using inv f n unfolding pool_inv_def places_ok_def idle_future_def numbered_item_def same
    by (auto simp: goto_def queue_task_done_def)
  ultimately show ?thesis using inv by (simp add: pool_inv_def)
qed

lemma fallback_inv:
  assumes inv: "pool_inv cfg p" and f: "pl_task p f = T_fallback"
  shows "pool_inv cfg (fallback_step f p)"
proof -
  define p1 where "p1 = set_future f (Fut_exception Process_error) p"
  have inv1: "pool_inv cfg p1" and d: "fut_done f p1" and f1: "pl_task p1 f = T_fallback" and n: "f < pl_nfut p1"
    using set_future_inv [OF inv] set_future_done(1) f active_task [OF inv, of f] by (simp_all add: p1_def)
  have "1 \<le> tally active p1" using tally_less [of "\<lambda>_. False" active f p1] f1 n by (simp add: tally_def)
  then have "pl_running_jobs p1 \<noteq> 0" using inv1 by (auto simp: pool_inv_def counts_ok_def)
  let ?q = "goto f T_end (p1\<lparr>pl_running_jobs := pl_running_jobs p1 - 1\<rparr>)"
  have eq: "fallback_step f p = ?q"
    using \<open>pl_running_jobs p1 \<noteq> 0\<close> by (simp add: fallback_step_def p1_def Let_def)
  have "tally P ?q = tally P p1 - of_bool (P T_fallback) + of_bool (P T_end)" for P
    using tally_goto [of f "p1\<lparr>pl_running_jobs := pl_running_jobs p1 - 1\<rparr>" P T_end] n f1
    by (simp add: tally_def)
  then have "counts_ok cfg ?q" using inv1 by (simp add: pool_inv_def counts_ok_def goto_def)
  moreover have same: "queue_ok ?q \<longleftrightarrow> queue_ok p1" "queued ?q = queued p1" "fut_done g ?q = fut_done g p1" for g
    by (simp_all add: queue_ok_def seqs_def queued_def goto_def fut_done_def)
  moreover have "places_ok ?q"
    using inv1 d n f1 unfolding pool_inv_def places_ok_def idle_future_def numbered_item_def same
    by (auto simp: goto_def)
  ultimately show ?thesis using inv1 by (simp add: pool_inv_def eq)
qed

lemmas pool_ops = goto_def upd_worker_def bump_def task_failed_def worker_shutdown_def set_pid_def count_task_def
  add_worker_to_pool_def get_process_busy_def queue_task_done_def

lemma pview_goto: "pview x = pview y \<Longrightarrow> pview (goto f ph x) = pview (goto f ph y)"
  by (simp add: pview_def goto_def fut_done_def)

lemma pview_set_future: "pview x = pview y \<Longrightarrow> pview (set_future f st x) = pview (set_future f st y)"
  by (auto simp: pview_def set_future_def fut_done_def fun_eq_iff)

lemma pview_clean: "pview x = pview y \<Longrightarrow> pview (upd_worker w g x) = pview y"
  "pview x = pview y \<Longrightarrow> pview (task_failed x) = pview y"
  "pview x = pview y \<Longrightarrow> pview (count_task w x) = pview y"
  by (simp_all add: pview_simps)

text \<open>A move that keeps the idle workers and takes no new one.\<close>

lemma move_inv_simple:
  assumes "pool_inv cfg p" and "active (pl_task p f)" "pending (pl_task p f)" and "active ph" "pending ph"
    and "owns_worker ph \<Longrightarrow> owns_worker (pl_task p f)" and "pview q = pview (goto f ph p)"
  shows "pool_inv cfg q"
  using assms by (intro move_inv [of cfg p f ph "pl_workers p" q]) (auto simp: pool_inv_def counts_ok_def)

lemma submit_job_inv:
  assumes inv: "pool_inv cfg p" and t: "pl_task p f = T_submit n w"
  shows "pool_inv cfg (submit_job_step f n w inp p)"
proof -
  have inv': "pool_inv cfg (set_future f (Fut_exception Pickling_failed) p)" using inv by (rule set_future_inv)
  have move: "pool_inv cfg (goto f ph x)" if "active ph" "pending ph" "pview x = pview p" for ph x
    by (rule move_inv_simple [OF inv, of f ph]) (use t that in \<open>auto intro: pview_goto\<close>)
  have move': "pool_inv cfg (goto f (T_done_with w Finish) (set_future f (Fut_exception Pickling_failed) (count_task w p)))"
    by (rule move_inv_simple [OF inv', of f "T_done_with w Finish"])
      (auto simp: t pview_simps intro!: pview_goto pview_set_future)
  show ?thesis
    using inv move' by (cases inp) (auto simp: submit_job_step_def Let_def pview_simps intro!: move)
qed

lemma poll_inv:
  assumes inv: "pool_inv cfg p" and t: "pl_task p f = T_poll w"
  shows "pool_inv cfg (poll_step f w inp p)"
proof -
  have move: "pool_inv cfg q" if "pview q = pview (goto f (T_done_with w Finish) (set_future f st p))" for q st
    by (rule move_inv_simple [OF set_future_inv [OF inv, of f st], of f "T_done_with w Finish"]) (use t that in simp_all)
  show ?thesis
  proof (cases inp)
    case (In_value v)
    then show ?thesis using move [of _ "Fut_result v"] by (simp add: poll_step_def)
  next
    case (In_exception e)
    then show ?thesis
      by (auto simp: poll_step_def Let_def
          intro!: move [of _ "Fut_exception e"] pview_goto pview_clean pview_set_future)
  next
    case In_eof
    then show ?thesis
      by (auto simp: poll_step_def intro!: move [of _ "Fut_exception Process_error"] pview_goto pview_clean pview_set_future)
  next
    case In_receive_error
    then show ?thesis
      by (auto simp: poll_step_def intro!: move [of _ "Fut_exception Receive_failed"] pview_goto pview_clean pview_set_future)
  next
    case In_nothing
    then show ?thesis
      using inv by (auto simp: poll_step_def intro!: move [of _ "Fut_exception Process_error"] pview_goto pview_clean pview_set_future)
  qed (use inv in \<open>simp_all add: poll_step_def\<close>)
qed

lemma continue_inv:
  assumes inv: "pool_inv cfg p" and a: "active (pl_task p f)" "pending (pl_task p f)" and own: "owns_worker (pl_task p f)"
    and n: "length ws \<le> Suc (length (pl_workers p))"
    and q: "pview q = pview (p\<lparr>pl_workers := ws\<rparr>)"
  shows "pool_inv cfg (continue_task f w k q)" "pool_inv cfg (goto f T_finally q)"
proof -
  have bound: "tally owns_worker p - 1 + int (length ws) \<le> pc_pool_size cfg"
    using inv n by (simp add: pool_inv_def counts_ok_def)
  have move: "pool_inv cfg q'" if "active ph" "pending ph" "\<not> owns_worker ph" "pview q' = pview (goto f ph (set_future f st q))" for q' ph st
  proof (rule move_inv [OF set_future_inv [OF inv, of f st], of f ph ws])
    show "pview q' = pview (goto f ph ((set_future f st p)\<lparr>pl_workers := ws\<rparr>))"
      using that(4) q by (auto simp: pview_def goto_def set_future_def fut_done_def fun_eq_iff)
  qed (use a that own bound in \<open>simp_all add: tally_def\<close>)
  show fin: "pool_inv cfg (goto f T_finally q)"
    by (rule move_inv [OF inv a(1) _ a(2), of T_finally ws])
      (use q own bound in \<open>simp_all add: pview_def goto_def fut_done_def fun_eq_iff\<close>)
  show "pool_inv cfg (continue_task f w k q)"
  proof (cases k)
    case (Retry n)
    show ?thesis
    proof (cases n)
      case 0
      then show ?thesis
        using Retry
        by (auto simp: continue_task_def
            intro!: move [of T_finally _ "Fut_exception Process_error"] pview_goto pview_set_future pview_clean)
    next
      case (Suc m)
      have "pool_inv cfg (goto f (T_get m) (upd_worker w (\<lambda>k. k\<lparr>wk_alive := False\<rparr>) q))"
        by (rule move_inv [OF inv a(1) _ a(2), of "T_get m" ws])
          (use q own bound in \<open>simp_all add: pview_def pool_ops fut_done_def fun_eq_iff\<close>)
      then show ?thesis using Retry Suc by (simp add: continue_task_def)
    qed
  qed (use fin in \<open>simp add: continue_task_def\<close>)
qed

lemma done_with_cases:
  "fst (done_with_process cfg w rss p) \<in>
     {p, add_worker_to_pool p, add_worker_to_pool (worker_shutdown w p), p\<lparr>pl_workers := pl_workers p @ [w]\<rparr>}"
  by (simp add: done_with_process_def split: option.split)

lemma done_with_view:
  assumes "done_with_process cfg w rss p = (q, returned)"
  shows "\<exists>ws. length ws \<le> Suc (length (pl_workers p)) \<and> pview q = pview (p\<lparr>pl_workers := ws\<rparr>)"
proof -
  have grow: "pview (add_worker_to_pool x) = pview (p\<lparr>pl_workers := pl_workers p @ [0]\<rparr>)"
    if "x = p \<or> x = worker_shutdown w p" for x
    using that by (auto simp: pview_def pool_ops fut_done_def)
  consider "q = p" | "q = add_worker_to_pool p \<or> q = add_worker_to_pool (worker_shutdown w p)"
    | "q = p\<lparr>pl_workers := pl_workers p @ [w]\<rparr>"
    using done_with_cases [of cfg w rss p] assms by auto
  then show ?thesis
  proof cases
    case 1
    then show ?thesis by (intro exI [of _ "pl_workers p"]) (auto simp: pview_simps)
  next
    case 2
    then show ?thesis using grow by (intro exI [of _ "pl_workers p @ [0]"]) auto
  next
    case 3
    then show ?thesis by (intro exI [of _ "pl_workers p @ [w]"]) simp
  qed
qed

lemma run_task_inv:
  assumes inv: "pool_inv cfg p"
  shows "pool_inv cfg (run_task_step cfg f inp p)"
proof (cases "pl_task p f")
  case (T_get n)
  then show ?thesis using move_inv_simple [OF inv, of f "T_size n (int (length (pl_busy p)))"] by (simp add: run_task_step_def)
next
  case (T_size n bw)
  have f: "f < pl_nfut p" using active_task [OF inv] T_size by simp
  have "tally owns_worker p + 1 \<le> tally active p"
    using T_size f by (intro tally_less) (auto elim: owns_worker.elims)
  then have room: "tally owns_worker p + 1 \<le> pc_pool_size cfg"
    using inv by (cases "pl_runner p = R_get") (simp_all add: pool_inv_def counts_ok_def)
  have "pool_inv cfg (goto f (T_add n) p)" if "pl_workers p = []"
    by (rule move_inv [OF inv, of f "T_add n" "[]"]) (use T_size room that in \<open>simp_all add: pview_def goto_def fut_done_def\<close>)
  moreover have "pool_inv cfg (goto f (T_take n) p)"
    by (rule move_inv_simple [OF inv, of f "T_take n"]) (simp_all add: T_size)
  ultimately show ?thesis using T_size by (simp add: run_task_step_def get_process_grows_def Let_def)
next
  case (T_add n)
  have "pool_inv cfg (goto f (T_take n) (add_worker_to_pool p))"
    by (rule move_inv [OF inv, of f "T_take n" "pl_workers p @ [0]"])
      (use T_add inv in \<open>simp_all add: pview_def pool_ops fut_done_def pool_inv_def counts_ok_def\<close>)
  then show ?thesis using T_add by (simp add: run_task_step_def)
next
  case (T_take n)
  show ?thesis
  proof (cases "pl_workers p")
    case (Cons w rest)
    have "pool_inv cfg (goto f (T_taken n w) (p\<lparr>pl_workers := rest\<rparr>))"
      by (rule move_inv [OF inv, of f "T_taken n w" rest])
        (use T_take Cons inv in \<open>simp_all add: pview_def pool_ops fut_done_def Let_def pool_inv_def counts_ok_def\<close>)
    then show ?thesis using T_take Cons by (simp add: run_task_step_def)
  qed (use T_take inv in \<open>simp add: run_task_step_def\<close>)
next
  case (T_taken n w)
  have "pool_inv cfg (goto f (T_submit n w) (get_process_busy w p))"
    by (rule move_inv_simple [OF inv, of f "T_submit n w"])
      (use T_taken in \<open>simp_all add: pview_def pool_ops fut_done_def Let_def\<close>)
  then show ?thesis using T_taken by (simp add: run_task_step_def)
next
  case (T_submit n w)
  then show ?thesis using submit_job_inv [OF inv] by (simp add: run_task_step_def)
next
  case (T_poll w)
  then show ?thesis using poll_inv [OF inv] by (simp add: run_task_step_def)
next
  case (T_done_with w k)
  have "pool_inv cfg (goto f ph x)" if "ph = T_finally \<or> ph = T_count w n k" "pview x = pview p" for n ph x
    by (rule move_inv_simple [OF inv, of f ph]) (use T_done_with that in \<open>auto intro: pview_goto\<close>)
  then show ?thesis using T_done_with by (simp add: run_task_step_def Let_def pview_simps)
next
  case (T_count w busy k)
  then show ?thesis
    using move_inv_simple [OF inv, of f "T_total w (busy + int (length (pl_workers p)) + 1) k"] by (simp add: run_task_step_def)
next
  case (T_total w tot k)
  have "pool_inv cfg (goto f ph p)" if "ph = T_retire w k \<or> ph = T_keep w k" for ph
    by (rule move_inv_simple [OF inv, of f ph]) (use T_total that in auto)
  then show ?thesis using T_total by (simp add: run_task_step_def)
next
  case (T_retire w k)
  show ?thesis
    using continue_inv(1) [OF inv, where f = f and ws = "pl_workers p" and q = "worker_shutdown w p"] T_retire
    by (simp add: run_task_step_def pview_simps)
next
  case (T_keep w k)
  obtain q returned where q: "done_with_process cfg w (case inp of In_rss r \<Rightarrow> r | _ \<Rightarrow> None) p = (q, returned)"
    by (metis surj_pair)
  obtain ws where ws: "length ws \<le> Suc (length (pl_workers p))" "pview q = pview (p\<lparr>pl_workers := ws\<rparr>)"
    using done_with_view [OF q] by blast
  show ?thesis
    using continue_inv [OF inv _ _ _ ws, of f] T_keep q by (simp add: run_task_step_def)
next
  case T_finally
  then show ?thesis using finally_inv [OF inv] by (simp add: run_task_step_def)
next
  case T_fallback
  then show ?thesis using fallback_inv [OF inv] by (simp add: run_task_step_def)
qed (use inv in \<open>simp_all add: run_task_step_def\<close>)

lemma get_done_inv:
  assumes inv: "pool_inv cfg p" and get: "queue_get p = Some (item, p')"
    and dn: "\<And>f. item = Some f \<Longrightarrow> fut_done f p"
  shows "pool_inv cfg (queue_task_done p')"
proof -
  have ok: "queue_ok p" using inv by (simp add: pool_inv_def)
  obtain h where p': "p' = p\<lparr>pl_queue := h\<rparr>" using queue_get_spec(1) [OF ok get] by auto
  note spec = queue_get_spec(2-5) [OF ok get]
  let ?q = "queue_task_done p'"
  have same: "queued ?q = queued p'" "queue_ok ?q = queue_ok p'" "\<And>P. tally P ?q = tally P p" "\<And>f. fut_done f ?q = fut_done f p"
    by (simp_all add: queued_def seqs_def queue_ok_def tally_def queue_task_done_def p' fut_done_def)
  have "counts_ok cfg ?q"
    using inv spec(2) unfolding pool_inv_def counts_ok_def same by (simp add: queue_task_done_def p')
  moreover have "places_ok ?q"
    using inv spec(3) dn unfolding pool_inv_def places_ok_def same idle_future_def numbered_item_def
    by (auto simp: queue_task_done_def p')
  ultimately show ?thesis using spec(1) by (simp add: pool_inv_def same)
qed

lemma launch_inv:
  assumes inv: "pool_inv cfg p" and get: "queue_get p = Some (Some f, p')" and r: "pl_runner p = R_get"
  shows "pool_inv cfg ((goto f (T_get 9) p')\<lparr>pl_runner := R_put\<rparr>)"
proof -
  have ok: "queue_ok p" using inv by (simp add: pool_inv_def)
  obtain h where p': "p' = p\<lparr>pl_queue := h\<rparr>" using queue_get_spec(1) [OF ok get] by auto
  note spec = queue_get_spec(2-5) [OF ok get]
  have f: "f < pl_nfut p" "pl_task p f = T_none" "f \<notin> set (pl_admitted p)" "f \<notin> set (pl_refused p)"
    using inv spec(3) by (auto simp: pool_inv_def places_ok_def idle_future_def)
  let ?q = "(goto f (T_get 9) p')\<lparr>pl_runner := R_put\<rparr>"
  have same: "queued ?q = queued p'" "queue_ok ?q = queue_ok p'" "\<And>g. fut_done g ?q = fut_done g p"
    by (simp_all add: queued_def seqs_def queue_ok_def goto_def p' fut_done_def)
  have t: "tally P ?q = tally P p - of_bool (P T_none) + of_bool (P (T_get 9))" for P
    using tally_goto [of f p P "T_get 9"] f by (simp add: tally_def goto_def p')
  have "counts_ok cfg ?q"
    using inv spec(2) r unfolding pool_inv_def counts_ok_def t by (simp add: goto_def p')
  moreover have "places_ok ?q"
    using inv spec(3,4) f unfolding pool_inv_def places_ok_def same idle_future_def numbered_item_def by (auto simp: goto_def p')
  ultimately show ?thesis using spec(1) by (simp add: pool_inv_def same)
qed

lemma queue_get_set_future:
  "queue_get p = Some (item, p') \<Longrightarrow> queue_get (set_future f st p) = Some (item, set_future f st p')"
  by (auto simp: queue_get_def set_future_def fut_done_def split: sum.splits prod.splits)

lemma cancel_all_inv: "pool_inv cfg p \<Longrightarrow> pool_inv cfg (cancel_all_futures_on_queue n p)"
proof (induction n arbitrary: p)
  case (Suc n)
  show ?case
  proof (cases "queue_get p")
    case (Some r)
    obtain item p' where r: "r = (item, p')" by (cases r)
    show ?thesis
    proof (cases item)
      case None
      then show ?thesis using get_done_inv [OF Suc.prems, of None p'] Some r by simp
    next
      case (Some f)
      have "queue_get (set_future f Fut_cancelled p) = Some (Some f, set_future f Fut_cancelled p')"
        using queue_get_set_future \<open>queue_get p = Some r\<close> r Some by simp
      then have "pool_inv cfg (queue_task_done (set_future f Fut_cancelled p'))"
        by (rule get_done_inv [OF set_future_inv [OF Suc.prems]]) (auto intro: set_future_done)
      moreover have "queue_task_done (set_future f Fut_cancelled p') = set_future f Fut_cancelled (queue_task_done p')"
        by (simp add: queue_task_done_def set_future_def fut_done_def)
      ultimately show ?thesis
        using Suc.IH \<open>queue_get p = Some r\<close> r Some by simp
    qed
  qed (use Suc.prems in simp)
qed simp

lemma release_slot_inv:
  assumes "pool_inv cfg p" and "pl_runner p = R_get" and "ph \<noteq> R_get"
  shows "pool_inv cfg (p\<lparr>pl_running_jobs := pl_running_jobs p - 1, pl_runner := ph\<rparr>)"
proof -
  let ?q = "p\<lparr>pl_running_jobs := pl_running_jobs p - 1, pl_runner := ph\<rparr>"
  have "queue_ok ?q = queue_ok p" "places_ok ?q = places_ok p" "\<And>P. tally P ?q = tally P p"
    by (simp_all add: queue_ok_def places_ok_def seqs_def queued_def idle_future_def numbered_item_def fut_done_def tally_def)
  with assms show ?thesis by (simp add: pool_inv_def counts_ok_def)
qed

lemma get_runner: "queue_get p = Some (item, p') \<Longrightarrow> pl_runner p' = pl_runner p"
  by (auto simp: queue_get_def split: sum.splits prod.splits)

lemma get_done: "queue_get p = Some (item, p') \<Longrightarrow> fut_done f p' = fut_done f p"
  by (auto simp: queue_get_def fut_done_def split: sum.splits prod.splits)

lemma runner_inv:
  assumes inv: "pool_inv cfg p" and pos: "0 < pc_pool_size cfg"
  shows "pool_inv cfg (runner_step cfg p)"
proof (cases "pl_runner p")
  case R_put
  let ?q = "p\<lparr>pl_running_jobs := pl_running_jobs p + 1, pl_runner := R_get\<rparr>"
  have "queue_ok ?q = queue_ok p" "places_ok ?q = places_ok p" "\<And>P. tally P ?q = tally P p"
    by (simp_all add: queue_ok_def places_ok_def seqs_def queued_def idle_future_def numbered_item_def fut_done_def tally_def)
  then have "pool_inv cfg ?q" if "pl_running_jobs p < pc_pool_size cfg"
    using inv that R_put by (simp add: pool_inv_def counts_ok_def)
  then show ?thesis using R_put inv pos by (simp add: runner_step_def)
next
  case R_get
  show ?thesis
  proof (cases "queue_get p")
    case (Some r)
    obtain item p' where r: "r = (item, p')" by (cases r)
    have slot: "pool_inv cfg ((queue_task_done p')\<lparr>pl_running_jobs := pl_running_jobs p' - 1, pl_runner := ph\<rparr>)"
      if "ph \<noteq> R_get" "\<And>f. item = Some f \<Longrightarrow> fut_done f p" for ph
      using release_slot_inv [OF get_done_inv [OF inv, of item p'], of ph] that Some r R_get get_runner
      by (simp add: queue_task_done_def)
    show ?thesis
    proof (cases item)
      case None
      then show ?thesis
        using R_get Some r slot [of R_exited] by (simp add: runner_step_def Let_def cancel_all_inv)
    next
      case (Some f)
      have "pool_inv cfg (bump h ((goto f (T_get 9) p')\<lparr>pl_runner := R_put\<rparr>))" for h
        by (rule pview_cong [OF _ launch_inv [OF inv _ R_get]])
          (use \<open>queue_get p = Some r\<close> r Some in \<open>simp_all add: pview_simps\<close>)
      then show ?thesis
        using R_get \<open>queue_get p = Some r\<close> r Some slot [of R_put] get_done
        by (simp add: runner_step_def)
    qed
  qed (use R_get inv in \<open>simp add: runner_step_def\<close>)
qed (use inv in \<open>simp add: runner_step_def\<close>)

lemma submit_inv:
  assumes inv: "pool_inv cfg p"
  shows "pool_inv cfg (fst (pool_submit k p))"
proof (cases "k < 0 \<or> pl_closed p")
  case False
  let ?n = "pl_nfut p"
  let ?q = "fst (pool_submit k p)"
  have new: "?n \<notin> set (pl_admitted p) \<union> set (pl_refused p) \<union> queued p" and none: "pl_task p ?n = T_none"
    using inv by (auto simp: pool_inv_def places_ok_def idle_future_def)
  have q: "pl_queue ?q = pl_queue p" "pl_item ?q = (pl_item p)(pl_sequence p := Some ?n)" "pl_sequence ?q = pl_sequence p + 1"
      "pl_nfut ?q = Suc ?n" "pl_admitted ?q = ?n # pl_admitted p" "pl_refused ?q = pl_refused p" "pl_task ?q = pl_task p"
      "pl_unfinished ?q = pl_unfinished p" "pl_running_jobs ?q = pl_running_jobs p" "pl_runner ?q = pl_runner p"
      "pl_workers ?q = pl_workers p"
      "\<And>f. fu_sequence (pl_fut ?q f) = (if f = ?n then pl_sequence p else fu_sequence (pl_fut p f))"
      "\<And>f. fut_done f ?q = (f \<noteq> ?n \<and> fut_done f p)"
    using False by (simp_all add: pool_submit_def fut_done_def)
  have old: "\<forall>s \<in> seqs p. s \<noteq> pl_sequence p" "seqs ?q = seqs p"
    using inv by (auto simp: pool_inv_def queue_ok_def seqs_def q)
  then have "queued ?q = queued p" by (auto simp: queued_def q)
  moreover have "queue_ok ?q" using inv old by (auto simp: pool_inv_def queue_ok_def q)
  moreover have "tally P ?q = tally P p" if "\<not> P T_none" for P using that none by (simp add: tally_def q)
  ultimately show ?thesis
    using inv none new unfolding pool_inv_def places_ok_def counts_ok_def idle_future_def numbered_item_def q
    by (auto simp: less_Suc_eq)
qed (use inv in \<open>auto simp: pool_submit_def\<close>)

lemma put_frame:
  "pl_nfut (queue_put k s p) = pl_nfut p" "pl_task (queue_put k s p) = pl_task p"
  "pl_admitted (queue_put k s p) = pl_admitted p" "pl_refused (queue_put k s p) = pl_refused p"
  "pl_unfinished (queue_put k s p) = pl_unfinished p + 1" "pl_running_jobs (queue_put k s p) = pl_running_jobs p"
  "pl_runner (queue_put k s p) = pl_runner p" "pl_workers (queue_put k s p) = pl_workers p"
  "tally P (queue_put k s p) = tally P p" "fut_done g (queue_put k s p) = fut_done g p"
  "numbered_item g (queue_put k s p) = numbered_item g p"
  by (simp_all add: queue_put_def tally_def fut_done_def numbered_item_def)

lemma put_inv:
  assumes inv: "pool_inv cfg p"
  shows "pool_inv cfg (submit_put cfg f block p)"
proof (cases "f \<in> set (pl_admitted p)")
  case True
  let ?p = "p\<lparr>pl_admitted := remove1 f (pl_admitted p)\<rparr>"
  let ?r = "?p\<lparr>pl_refused := f # pl_refused p\<rparr>"
  let ?q = "queue_put (fu_priority (pl_fut p f)) (fu_sequence (pl_fut p f)) ?p"
  have f: "f < pl_nfut p" "pl_task p f = T_none" "f \<notin> queued p" "distinct (pl_admitted p)" "queue_ok p" "numbered_item f p"
    using inv True by (auto simp: pool_inv_def places_ok_def idle_future_def)
  have same: "queue_ok ?p = queue_ok p" "queued ?p = queued p" "queue_ok ?r = queue_ok p" "queued ?r = queued p" "seqs ?p = seqs p"
    "\<And>g. numbered_item g ?p = numbered_item g p" "\<And>g. numbered_item g ?r = numbered_item g p" "\<And>g. fut_done g ?p = fut_done g p"
    by (simp_all add: queue_ok_def seqs_def queued_def numbered_item_def fut_done_def)
  have "pool_inv cfg ?r"
    using inv True f unfolding pool_inv_def places_ok_def counts_ok_def idle_future_def same
    by (auto simp: tally_def fut_done_def)
  moreover have fresh: "fu_sequence (pl_fut p f) \<notin> seqs p" using f by (auto simp: numbered_item_def queued_def)
  have spec: "queue_ok ?q" "queued ?q = insert f (queued p)" "length (pl_queue ?q) = Suc (length (pl_queue p))"
    using queue_put_spec [of ?p "fu_sequence (pl_fut p f)"] f same fresh by (simp_all add: numbered_item_def)
  have "pool_inv cfg ?q"
    using inv True f spec unfolding pool_inv_def places_ok_def counts_ok_def idle_future_def put_frame same
    by (auto simp: tally_def)
  then have "pool_inv cfg (bump h ?q)" for h by (rule pview_cong [rotated]) (simp add: pview_simps)
  ultimately show ?thesis using True inv by (simp add: submit_put_def)
qed (use inv in \<open>simp add: submit_put_def\<close>)

lemma pview_fold: "(\<And>x q. pview (g x q) = pview q) \<Longrightarrow> pview (fold g xs p) = pview p"
  by (induction xs arbitrary: p) auto

lemma fold_inv: "(\<And>x q. pool_inv cfg q \<Longrightarrow> pool_inv cfg (g x q)) \<Longrightarrow> pool_inv cfg p \<Longrightarrow> pool_inv cfg (fold g xs p)"
  by (induction xs arbitrary: p) auto

lemma kill_inv: "pool_inv cfg p \<Longrightarrow> pool_inv cfg (cancel_and_kill f p)"
  by (auto simp: cancel_and_kill_def Let_def pview_simps set_future_inv split: option.splits
      intro: pview_cong [OF _ set_future_inv])

lemma fewer_workers_inv:
  assumes inv: "pool_inv cfg p" and n: "length ws \<le> length (pl_workers p)" and q: "pview q = pview (p\<lparr>pl_workers := ws\<rparr>)"
  shows "pool_inv cfg q"
proof (rule pview_cong [OF q])
  let ?q = "p\<lparr>pl_workers := ws\<rparr>"
  have "queue_ok ?q = queue_ok p" "places_ok ?q = places_ok p" "\<And>P. tally P ?q = tally P p"
    by (simp_all add: queue_ok_def places_ok_def seqs_def queued_def idle_future_def numbered_item_def fut_done_def tally_def)
  with inv n show "pool_inv cfg ?q" by (simp add: pool_inv_def counts_ok_def)
qed

lemma sentinel_inv:
  assumes inv: "pool_inv cfg p"
  shows "pool_inv cfg (queue_put k (pl_sequence p)
    (p\<lparr>pl_item := (pl_item p)(pl_sequence p := None), pl_sequence := pl_sequence p + 1\<rparr>))"
    (is "pool_inv cfg (queue_put k ?s ?p)")
proof -
  have old: "?s \<notin> seqs p" "seqs ?p = seqs p" using inv by (auto simp: pool_inv_def queue_ok_def seqs_def)
  have item: "pl_item ?p s = pl_item p s" if "s \<in> seqs p" for s using that old by auto
  then have "queued ?p = queued p" by (simp add: queued_def old cong: bex_cong)
  moreover have "queue_ok ?p" using inv item unfolding pool_inv_def queue_ok_def old by (auto simp: less_le_trans less_imp_le)
  ultimately have spec: "queue_ok (queue_put k ?s ?p)" "queued (queue_put k ?s ?p) = queued p"
      "length (pl_queue (queue_put k ?s ?p)) = Suc (length (pl_queue p))"
    using queue_put_spec [of ?p ?s k] old by simp_all
  have "numbered_item g ?p" if "numbered_item g p" for g using that by (auto simp: numbered_item_def)
  then show ?thesis
    using inv spec unfolding pool_inv_def places_ok_def counts_ok_def idle_future_def put_frame
    by (auto simp: tally_def fut_done_def)
qed

lemma inv_flags:
  "pool_inv cfg p \<Longrightarrow> pool_inv cfg (p\<lparr>pl_shutdown := sd\<rparr>)"
  "pool_inv cfg p \<Longrightarrow> pool_inv cfg (p\<lparr>pl_closed := c, pl_shutdown := sd\<rparr>)"
  by (erule pview_cong [rotated], simp add: pview_def fut_done_def)+

lemma shutdown_begin_inv: "pool_inv cfg p \<Longrightarrow> pool_inv cfg (pool_shutdown_begin wait cancel p)"
  by (simp add: pool_shutdown_begin_def Let_def inv_flags cancel_all_inv)

lemma shutdown_step_inv:
  assumes inv: "pool_inv cfg p"
  shows "pool_inv cfg (pool_shutdown_step cfg expired p)"
proof (cases "pl_shutdown p")
  case (SD_put wait cancel)
  then show ?thesis using inv by (simp add: pool_shutdown_step_def inv_flags sentinel_inv)
next
  case (SD_kill wait cancel)
  have "pool_inv cfg (fold cancel_and_kill fs p)" for fs using inv by (intro fold_inv kill_inv)
  then show ?thesis using SD_kill inv by (simp add: pool_shutdown_step_def inv_flags)
next
  case SD_join
  have "pool_inv cfg ((fold worker_shutdown ws (p\<lparr>pl_workers := [], pl_busy := []\<rparr>))\<lparr>pl_shutdown := SD_closed\<rparr>)" for ws
    by (rule fewer_workers_inv [OF inv, of "[]"]) (simp_all add: pview_simps pview_fold)
  then show ?thesis using SD_join inv by (simp add: pool_shutdown_step_def del: fold_append)
qed (use inv in \<open>simp_all add: pool_shutdown_step_def\<close>)

lemma pool_step_inv:
  assumes "pool_inv cfg p" and "0 < pc_pool_size cfg"
  shows "pool_inv cfg (pool_step cfg ev p)"
proof (cases ev)
  case Pv_clear_workers
  have "pool_inv cfg (clear_workers p)"
    unfolding clear_workers_def
    by (rule fewer_workers_inv [OF assms(1), of "[]"]) (simp_all add: pview_simps pview_fold)
  then show ?thesis using Pv_clear_workers by simp
next
  case (Pv_die w)
  then show ?thesis using assms(1) by (auto intro: pview_cong simp: pview_simps)
qed (use assms in \<open>simp_all add: submit_inv put_inv runner_inv run_task_inv set_future_inv kill_inv shutdown_begin_inv shutdown_step_inv\<close>)

lemma pool_init_view:
  "pview ((add_worker_to_pool ^^ n) pool_empty) = pview (pool_empty\<lparr>pl_workers := replicate n 0\<rparr>)"
  by (induction n) (auto simp: pview_def pool_ops fut_done_def fun_eq_iff pool_empty_def)

lemma pool_init_inv:
  assumes "0 < pc_pool_size cfg"
  shows "pool_inv cfg (pool_init cfg)"
proof (unfold pool_init_def, rule pview_cong [OF pool_init_view])
  show "pool_inv cfg (pool_empty\<lparr>pl_workers := replicate (nat (pc_pool_size cfg)) 0\<rparr>)"
    using assms by (simp add: pool_inv_defs pool_empty_def seqs_def queued_def tally_def heap_from_def)
qed

lemma pool_reachable_inv:
  assumes "pool_reachable cfg p" and "0 < pc_pool_size cfg"
  shows "pool_inv cfg p"
  using assms(1) by induction (simp_all add: pool_init_inv pool_step_inv assms(2))

end
