(* ===== verification/PoolLive.thy ===== *)
theory PoolLive
  imports PoolInv
begin

text \<open>
  Workers of the local executor: every worker is idle, busy with exactly one thread, or in transit with
  exactly one thread; and as long as no worker is leaked and the pool keeps at least one worker,
  there is always a worker that a waiting thread can count on.
\<close>

subsection \<open>Runs without a leak\<close>

fun held :: "task_phase \<Rightarrow> nat option" where
  "held (T_submit _ w) = Some w"
| "held (T_poll w) = Some w"
| "held (T_done_with w _) = Some w"
| "held _ = None"

text \<open>
  The events after which a worker would be lost: \<open>submit_job\<close> raises an exception \<open>run_task\<close> does not
  expect, or the future of an unpicklable job was cancelled; reading the memory of a worker raises;
  and the two operations that take idle workers away, \<open>clear_workers\<close> and the end of a shutdown.
\<close>

definition keeps_workers :: "pool_config \<Rightarrow> pool_event \<Rightarrow> pool \<Rightarrow> bool" where
  "keeps_workers cfg ev p =
     (case ev of
        Pv_task f inp \<Rightarrow>
          (case pl_task p f of
             T_submit n w \<Rightarrow> inp \<noteq> In_raises \<and> \<not> (inp = In_unpicklable \<and> fut_done f p)
           | T_keep w k \<Rightarrow> snd (done_with_process cfg w (case inp of In_rss r \<Rightarrow> r | _ \<Rightarrow> None) p)
           | _ \<Rightarrow> True)
      | Pv_clear_workers \<Rightarrow> False
      | Pv_shutdown_step expired \<Rightarrow> pl_shutdown p \<noteq> SD_join
      | _ \<Rightarrow> True)"

inductive pool_sound :: "pool_config \<Rightarrow> pool \<Rightarrow> bool" for cfg where
  init: "pool_sound cfg (pool_init cfg)"
| step: "pool_sound cfg p \<Longrightarrow> keeps_workers cfg ev p \<Longrightarrow> pool_sound cfg (pool_step cfg ev p)"

subsection \<open>Where the workers are\<close>

text \<open>A worker in transit has left the idle queue and is not yet busy, or is no longer busy and not yet idle.\<close>

fun transit :: "task_phase \<Rightarrow> nat option" where
  "transit (T_taken _ w) = Some w"
| "transit (T_count w _ _) = Some w"
| "transit (T_total w _ _) = Some w"
| "transit (T_retire w _) = Some w"
| "transit (T_keep w _) = Some w"
| "transit _ = None"

text \<open>\<open>H\<close> and \<open>R\<close> map threads to the busy worker they hold and to the worker they have in transit.\<close>

definition workers_ok :: "(nat \<Rightarrow> nat option) \<Rightarrow> (nat \<Rightarrow> nat option) \<Rightarrow> nat list \<Rightarrow> nat list \<Rightarrow> nat \<Rightarrow> bool" where
  "workers_ok H R idle busy n \<longleftrightarrow>
     distinct (idle @ busy) \<and> set idle \<union> set busy \<union> ran R \<subseteq> {..<n} \<and>
     set busy = ran H \<and> inj_on H (dom H) \<and> ran R \<inter> (set idle \<union> set busy) = {} \<and> inj_on R (dom R)"

abbreviation pool_workers_ok :: "pool \<Rightarrow> bool" where
  "pool_workers_ok p \<equiv> workers_ok (held \<circ> pl_task p) (transit \<circ> pl_task p) (pl_workers p) (pl_busy p) (pl_nworker p)"

lemma ran_clear:
  assumes "inj_on m (dom m)" and "m f = Some w"
  shows "ran (m(f := None)) = ran m - {w}"
proof -
  have "g = f" if "m g = Some w" for g using assms that by (auto simp: inj_on_def dom_def)
  then have "(\<exists>g. g \<noteq> f \<and> m g = Some v) \<longleftrightarrow> (\<exists>g. m g = Some v) \<and> v \<noteq> w" for v
    using assms(2) by (metis option.inject)
  moreover have "(\<exists>g. (m(f := None)) g = Some v) \<longleftrightarrow> (\<exists>g. g \<noteq> f \<and> m g = Some v)" for v by auto
  ultimately show ?thesis unfolding ran_def by blast
qed

lemma inj_on_clear: "inj_on m (dom m) \<Longrightarrow> inj_on (m(f := None)) (dom (m(f := None)))"
  by (auto simp: inj_on_def dom_def)

lemma inj_on_set: "inj_on m (dom m) \<Longrightarrow> w \<notin> ran m \<Longrightarrow> inj_on (m(f := Some w)) (dom (m(f := Some w)))"
  by (auto simp: inj_on_def dom_def ran_def)

lemma workers_take:
  assumes "workers_ok H R (w # idle) busy n" and "R f = None"
  shows "workers_ok H (R(f := Some w)) idle busy n"
  using assms inj_on_set [of R w f] ran_map_upd [of R f w] unfolding workers_ok_def by simp blast

lemma workers_busy:
  assumes "workers_ok H R idle busy n" and "R f = Some w" and "H f = None"
  shows "workers_ok (H(f := Some w)) (R(f := None)) idle (busy @ [w]) n"
proof -
  have w: "w \<in> ran R" "w \<notin> set busy" "w \<notin> set idle" "w < n" "w \<notin> ran H"
    using assms(1) ranI [of R f, OF assms(2)] by (auto simp: workers_ok_def)
  then show ?thesis
    using assms inj_on_set [of H w f] inj_on_clear [of R f] ran_clear [of R f w] ran_map_upd [of H f w]
    unfolding workers_ok_def by auto
qed

lemma workers_return:
  assumes "workers_ok H R idle busy n" and "H f = Some w" and "R f = None"
  shows "workers_ok (H(f := None)) (R(f := Some w)) idle (remove1 w busy) n"
proof -
  have w: "w \<in> set busy" "w \<notin> ran R" "w \<notin> set idle" "w < n"
    using assms(1,2) by (auto simp: workers_ok_def ranI)
  then show ?thesis
    using assms inj_on_set [of R w f] inj_on_clear [of H f] ran_clear [of H f w] by (auto simp: workers_ok_def)
qed

lemma workers_drop:
  assumes "workers_ok H R idle busy n"
  shows "workers_ok H (R(f := None)) idle busy n"
proof -
  have "ran (R(f := None)) \<subseteq> ran R" by (auto simp: ran_def)
  then show ?thesis using assms inj_on_clear [of R f] by (auto simp: workers_ok_def)
qed

lemma workers_put_back:
  assumes "workers_ok H R idle busy n" and "R f = Some w"
  shows "workers_ok H (R(f := None)) (idle @ [w]) busy n"
proof -
  have "w \<in> ran R" using assms(2) by (rule ranI)
  then show ?thesis
    using assms(1) assms(2) ran_clear [of R f w] inj_on_clear [of R f] unfolding workers_ok_def by auto
qed

lemma workers_add: "workers_ok H R idle busy n \<Longrightarrow> workers_ok H R (idle @ [n]) busy (Suc n)"
  by (auto simp: workers_ok_def)

text \<open>A worker that is idle, held, about to be added, or will certainly be put back.\<close>

fun secures :: "task_phase \<Rightarrow> bool" where
  "secures (T_add _) = True"
| "secures (T_taken _ _) = True"
| "secures (T_count _ c _) = (c \<le> 0)"
| "secures (T_total _ n _) = (n \<le> 1)"
| "secures (T_keep _ _) = True"
| "secures ph = (held ph \<noteq> None)"

definition pool_stock :: "pool \<Rightarrow> bool" where
  "pool_stock p \<longleftrightarrow> pl_workers p \<noteq> [] \<or> (\<exists>f. secures (pl_task p f))"

subsection \<open>Every step that keeps the workers keeps the invariants\<close>

definition wview where
  "wview p = (pl_task p, pl_workers p, pl_busy p, pl_nworker p)"

definition workers_inv :: "pool \<Rightarrow> bool" where
  "workers_inv p \<longleftrightarrow> pool_workers_ok p \<and> pool_stock p"

lemma wview_cong: "wview q = wview p \<Longrightarrow> workers_inv p \<Longrightarrow> workers_inv q"
  by (simp add: wview_def workers_inv_def pool_stock_def)

lemma comp_upd: "g \<circ> m(f := ph) = (g \<circ> m)(f := g ph)"
  by auto

text \<open>A move of a thread that keeps, or has never had, its worker.\<close>

lemma same_move:
  assumes inv: "workers_inv p" and w: "held ph = held (pl_task p f)" "transit ph = transit (pl_task p f)"
    and s: "secures (pl_task p f) \<Longrightarrow> secures ph" and q: "wview q = wview (goto f ph p)"
  shows "workers_inv q"
proof (rule wview_cong [OF q])
  have "(held \<circ> pl_task p)(f := held ph) = held \<circ> pl_task p"
       "(transit \<circ> pl_task p)(f := transit ph) = transit \<circ> pl_task p"
    using w by auto
  moreover have "\<exists>g. secures (((pl_task p)(f := ph)) g)" if "\<exists>g. secures (pl_task p g)"
    using that s by (metis fun_upd_apply)
  ultimately show "workers_inv (goto f ph p)"
    using inv by (auto simp: workers_inv_def goto_def comp_upd pool_stock_def)
qed

lemma wview_ops:
  "wview (set_future f st p) = wview p" "wview (count_task w p) = wview p" "wview (task_failed p) = wview p"
  "wview (upd_worker w g p) = wview p" "wview (set_pid f w p) = wview p" "wview (p\<lparr>pl_running_futs := fs\<rparr>) = wview p"
  "wview (worker_shutdown w p) = wview p" "wview (queue_task_done p) = wview p" "wview (bump h p) = wview p"
  "wview (p\<lparr>pl_running_jobs := n\<rparr>) = wview p"
  by (simp_all add: wview_def pool_ops set_future_def)

lemma wview_goto: "wview x = wview y \<Longrightarrow> wview (goto f ph x) = wview (goto f ph y)"
  by (simp add: wview_def goto_def)

lemma submit_job_workers:
  assumes inv: "workers_inv p" and t: "pl_task p f = T_submit n w"
    and ok: "inp \<noteq> In_raises" "\<not> (inp = In_unpicklable \<and> fut_done f p)"
  shows "workers_inv (submit_job_step f n w inp p)"
proof -
  have move: "workers_inv (goto f ph x)" if "held ph = Some w" "wview x = wview p" for ph x
    by (rule same_move [OF inv, of ph f]) (use that t in \<open>auto intro: wview_goto elim!: held.elims\<close>)
  show ?thesis
    using inv ok by (cases inp) (auto simp: submit_job_step_def Let_def wview_ops intro!: move)
qed

lemma poll_workers:
  assumes inv: "workers_inv p" and t: "pl_task p f = T_poll w"
  shows "workers_inv (poll_step f w inp p)"
proof -
  have move: "workers_inv (goto f (T_done_with w Finish) x)" if "wview x = wview p" for x
    by (rule same_move [OF inv, of "T_done_with w Finish" f]) (use that t in \<open>auto intro: wview_goto\<close>)
  show ?thesis
    using inv by (cases inp) (auto simp: poll_step_def Let_def wview_ops intro!: move)
qed

text \<open>After \<open>done_with_process\<close> has returned, the thread has no worker any more.\<close>

lemma continue_view: "\<exists>ph. held ph = None \<and> transit ph = None \<and> wview (continue_task f w k q) = wview (goto f ph q)"
proof (cases k)
  case (Retry n)
  show ?thesis
  proof (cases n)
    case 0
    then show ?thesis using Retry
      by (intro exI [of _ T_finally]) (auto simp: continue_task_def wview_ops intro!: wview_goto)
  next
    case (Suc m)
    then show ?thesis using Retry
      by (intro exI [of _ "T_get m"]) (auto simp: continue_task_def wview_ops intro!: wview_goto)
  qed
qed (auto simp: continue_task_def intro!: exI [of _ T_finally])

lemma leave_workers:
  assumes t: "held (pl_task p f) = None"
    and ok: "workers_ok (held \<circ> pl_task p) ((transit \<circ> pl_task p)(f := None)) (pl_workers q) (pl_busy q) (pl_nworker q)"
    and q: "pl_task q = pl_task p" and s: "pl_workers q \<noteq> [] \<or> (\<exists>g. g \<noteq> f \<and> secures (pl_task p g))"
  shows "workers_inv (continue_task f w k q)"
proof -
  obtain ph where ph: "held ph = None" "transit ph = None" "wview (continue_task f w k q) = wview (goto f ph q)"
    using continue_view by blast
  have "(held \<circ> pl_task p)(f := None) = held \<circ> pl_task p" using t by auto
  then have "workers_inv (goto f ph q)"
    using ok q s ph(1,2) by (auto simp: workers_inv_def goto_def comp_upd pool_stock_def)
  with ph(3) show ?thesis by (rule wview_cong)
qed

lemma retire_workers:
  assumes inv: "workers_inv p" and t: "pl_task p f = T_retire w k"
  shows "workers_inv (continue_task f w k (worker_shutdown w p))"
proof (rule leave_workers [where p = p])
  have "pool_workers_ok p" using inv by (simp add: workers_inv_def)
  then show "workers_ok (held \<circ> pl_task p) ((transit \<circ> pl_task p)(f := None)) (pl_workers (worker_shutdown w p))
      (pl_busy (worker_shutdown w p)) (pl_nworker (worker_shutdown w p))"
    using workers_drop by (simp add: worker_shutdown_def upd_worker_def)
  show "pl_workers (worker_shutdown w p) \<noteq> [] \<or> (\<exists>g. g \<noteq> f \<and> secures (pl_task p g))"
    using inv t by (auto simp: workers_inv_def pool_stock_def worker_shutdown_def upd_worker_def) (metis held.simps secures.simps)
qed (simp_all add: t worker_shutdown_def upd_worker_def)

lemma keep_workers:
  assumes inv: "workers_inv p" and t: "pl_task p f = T_keep w k" and r: "done_with_process cfg w rss p = (q, True)"
  shows "workers_inv (continue_task f w k q)"
proof (rule leave_workers [where p = p])
  let ?H = "held \<circ> pl_task p" and ?R = "transit \<circ> pl_task p"
  have ok: "workers_ok ?H ?R (pl_workers p) (pl_busy p) (pl_nworker p)" using inv by (simp add: workers_inv_def)
  have "workers_ok ?H (?R(f := None)) (pl_workers p @ [w]) (pl_busy p) (pl_nworker p)"
    by (rule workers_put_back [OF ok]) (simp add: t)
  moreover have "q \<in> {add_worker_to_pool p, add_worker_to_pool (worker_shutdown w p), p\<lparr>pl_workers := pl_workers p @ [w]\<rparr>}"
    using r unfolding done_with_process_def by (auto split: if_splits option.splits)
  ultimately show "workers_ok ?H (?R(f := None)) (pl_workers q) (pl_busy q) (pl_nworker q)" "pl_task q = pl_task p"
      "pl_workers q \<noteq> [] \<or> (\<exists>g. g \<noteq> f \<and> secures (pl_task p g))"
    using workers_add [OF workers_drop [OF ok]] by (auto simp: pool_ops)
qed (simp add: t)

lemma run_task_workers:
  assumes inv: "workers_inv p" and keep: "keeps_workers cfg (Pv_task f inp) p"
    and m: "1 \<le> pc_min_workers cfg"
  shows "workers_inv (run_task_step cfg f inp p)"
proof (cases "pl_task p f")
  case (T_get n)
  then show ?thesis
    using same_move [OF inv, of "T_size n (int (length (pl_busy p)))" f] by (simp add: run_task_step_def)
next
  case (T_size n bw)
  have "workers_inv (goto f ph p)" if "ph = T_add n \<or> ph = T_take n" for ph
    by (rule same_move [OF inv, of ph f]) (use that T_size in auto)
  then show ?thesis using T_size by (simp add: run_task_step_def)
next
  case (T_add n)
  have eq: "(held \<circ> pl_task p)(f := None) = held \<circ> pl_task p" "(transit \<circ> pl_task p)(f := None) = transit \<circ> pl_task p"
    using T_add by auto
  have "pool_workers_ok p" using inv by (simp add: workers_inv_def)
  from workers_add [OF this] have "workers_inv (goto f (T_take n) (add_worker_to_pool p))"
    by (simp add: workers_inv_def goto_def comp_upd eq pool_stock_def add_worker_to_pool_def bump_def)
  then show ?thesis using T_add by (simp add: run_task_step_def)
next
  case (T_take n)
  show ?thesis
  proof (cases "pl_workers p")
    case (Cons w rest)
    have eq: "(held \<circ> pl_task p)(f := None) = held \<circ> pl_task p" using T_take by auto
    have "pool_workers_ok p" using inv by (simp add: workers_inv_def)
    then have "workers_ok (held \<circ> pl_task p) ((transit \<circ> pl_task p)(f := Some w)) rest (pl_busy p) (pl_nworker p)"
      using Cons T_take by (intro workers_take) simp_all
    then have "workers_inv (goto f (T_taken n w) (p\<lparr>pl_workers := rest\<rparr>))"
      by (auto simp: workers_inv_def goto_def comp_upd eq pool_stock_def intro!: exI [of _ f])
    then show ?thesis using T_take Cons by (simp add: run_task_step_def)
  qed (use T_take inv in \<open>simp add: run_task_step_def\<close>)
next
  case (T_taken n w)
  have "pool_workers_ok p" using inv by (simp add: workers_inv_def)
  then have "workers_ok ((held \<circ> pl_task p)(f := Some w)) ((transit \<circ> pl_task p)(f := None)) (pl_workers p)
      (pl_busy p @ [w]) (pl_nworker p)"
    by (rule workers_busy) (simp_all add: T_taken)
  then have "workers_inv (goto f (T_submit n w) (get_process_busy w p))"
    by (auto simp: workers_inv_def goto_def comp_upd pool_stock_def get_process_busy_def bump_def Let_def intro!: exI [of _ f])
  then show ?thesis using T_taken by (simp add: run_task_step_def)
next
  case (T_submit n w)
  then show ?thesis using submit_job_workers [OF inv] keep by (simp add: run_task_step_def keeps_workers_def)
next
  case (T_poll w)
  then show ?thesis using poll_workers [OF inv] by (simp add: run_task_step_def)
next
  case (T_done_with w k)
  have ok: "pool_workers_ok p" using inv by (simp add: workers_inv_def)
  have heldf: "(held \<circ> pl_task p) f = Some w" using T_done_with by simp
  then have w: "w \<in> set (pl_busy p)" using ok by (auto simp: workers_ok_def intro: ranI)
  let ?b = "remove1 w (pl_busy p)"
  let ?q = "goto f (T_count w (int (length ?b)) k) (p\<lparr>pl_busy := ?b\<rparr>)"
  have "workers_ok ((held \<circ> pl_task p)(f := None)) ((transit \<circ> pl_task p)(f := Some w)) (pl_workers p) ?b (pl_nworker p)"
    by (rule workers_return [OF ok]) (simp_all add: T_done_with)
  then have "pool_workers_ok ?q" by (simp add: goto_def comp_upd)
  moreover have "pool_stock ?q"
  proof (cases ?b)
    case (Cons v vs)
    have "set ?b = set (pl_busy p) - {w}" using ok by (intro set_remove1_eq) (simp add: workers_ok_def)
    then have v: "v \<in> set (pl_busy p)" "v \<noteq> w" using Cons by auto
    then obtain g where g: "held (pl_task p g) = Some v" using ok by (auto simp: workers_ok_def ran_def)
    then have "secures (pl_task p g)" "g \<noteq> f" using v(2) T_done_with by (auto elim!: held.elims)
    then show ?thesis by (auto simp: pool_stock_def goto_def intro!: exI [of _ g])
  qed (auto simp: pool_stock_def goto_def intro!: exI [of _ f])
  ultimately show ?thesis using w T_done_with by (simp add: run_task_step_def workers_inv_def Let_def)
next
  case (T_count w busy k)
  let ?t = "busy + int (length (pl_workers p)) + 1"
  have "workers_inv (goto f (T_total w ?t k) p)"
  proof (cases "pl_workers p")
    case Nil
    then show ?thesis by (intro same_move [OF inv, of "T_total w ?t k" f]) (simp_all add: T_count)
  next
    case (Cons v vs)
    have "(held \<circ> pl_task p)(f := None) = held \<circ> pl_task p" "(transit \<circ> pl_task p)(f := Some w) = transit \<circ> pl_task p"
      using T_count by auto
    then show ?thesis using inv Cons by (simp add: workers_inv_def goto_def comp_upd pool_stock_def)
  qed
  then show ?thesis using T_count by (simp add: run_task_step_def)
next
  case (T_total w tot k)
  have "workers_inv (goto f (T_keep w k) p)"
    by (rule same_move [OF inv, of "T_keep w k" f]) (simp_all add: T_total)
  moreover have "workers_inv (goto f (T_retire w k) p)" if "surplus cfg tot p"
    by (rule same_move [OF inv, of "T_retire w k" f]) (use that m in \<open>simp_all add: T_total surplus_def\<close>)
  ultimately show ?thesis using T_total by (simp add: run_task_step_def)
next
  case (T_retire w k)
  then show ?thesis using retire_workers [OF inv] by (simp add: run_task_step_def)
next
  case (T_keep w k)
  obtain q where q: "done_with_process cfg w (case inp of In_rss r \<Rightarrow> r | _ \<Rightarrow> None) p = (q, True)"
    using keep T_keep by (auto simp: keeps_workers_def) (metis eq_snd_iff)
  show ?thesis
    using keep_workers [OF inv T_keep q] T_keep q by (simp add: run_task_step_def)
next
  case T_finally
  have "workers_inv (goto f T_fallback (queue_task_done p))"
    by (rule same_move [OF inv, of T_fallback f]) (use T_finally in \<open>auto simp: wview_ops intro!: wview_goto\<close>)
  then show ?thesis using T_finally by (simp add: run_task_step_def)
next
  case T_fallback
  have "workers_inv (goto f T_end x)" if "wview x = wview p" for x
    by (rule same_move [OF inv, of T_end f]) (use that T_fallback in \<open>auto intro: wview_goto\<close>)
  then show ?thesis using T_fallback by (simp add: run_task_step_def fallback_step_def Let_def wview_ops)
qed (use inv in \<open>simp_all add: run_task_step_def\<close>)

lemma wview_fold: "(\<And>x q. wview (g x q) = wview q) \<Longrightarrow> wview (fold g xs p) = wview p"
  by (induction xs arbitrary: p) auto

lemma wview_kill: "wview (cancel_and_kill f p) = wview p"
  by (simp add: cancel_and_kill_def Let_def wview_ops split: option.splits)

lemma wview_get: "queue_get p = Some (item, q) \<Longrightarrow> wview q = wview p"
  by (auto simp: queue_get_def wview_def split: sum.splits prod.splits)

lemma wview_cancel_all: "wview (cancel_all_futures_on_queue n p) = wview p"
proof (induction n arbitrary: p)
  case (Suc n)
  then show ?case using wview_get by (fastforce simp: wview_ops split: option.splits)
qed simp

lemma wview_slot: "wview (p\<lparr>pl_running_jobs := n, pl_runner := r\<rparr>) = wview p"
  by (simp add: wview_def)

lemma runner_workers:
  assumes inv: "workers_inv p" and ok: "pool_inv cfg p"
  shows "workers_inv (runner_step cfg p)"
proof (cases "pl_runner p = R_get \<and> (\<exists>f q. queue_get p = Some (Some f, q) \<and> \<not> fut_done f q)")
  case True
  then obtain f q where q: "queue_get p = Some (Some f, q)" "\<not> fut_done f q" "pl_runner p = R_get" by blast
  have "f \<in> queued p" using queue_get_spec(4) [OF _ q(1)] ok by (simp add: pool_inv_def)
  then have t: "pl_task p f = T_none" using ok by (auto simp: pool_inv_def places_ok_def idle_future_def)
  have "workers_inv (bump h ((goto f (T_get 9) q)\<lparr>pl_runner := R_put\<rparr>))" for h
    by (rule same_move [OF inv, of "T_get 9" f])
      (use t wview_get [OF q(1)] in \<open>simp_all add: wview_def goto_def bump_def\<close>)
  then show ?thesis using q by (simp add: runner_step_def)
next
  case False
  then have "wview (runner_step cfg p) = wview p"
    using wview_get [of p]
    by (auto simp: runner_step_def wview_cancel_all Let_def wview_ops wview_slot
        split: runner_phase.splits option.splits)
  then show ?thesis using inv by (rule wview_cong)
qed

lemma pool_step_workers:
  assumes inv: "workers_inv p" and ok: "pool_inv cfg p" and keep: "keeps_workers cfg ev p" and m: "1 \<le> pc_min_workers cfg"
  shows "workers_inv (pool_step cfg ev p)"
proof -
  have same: "workers_inv (pool_step cfg ev p)" if "wview (pool_step cfg ev p) = wview p"
    using that inv by (rule wview_cong)
  show ?thesis
  proof (cases ev)
    case Pv_runner
    then show ?thesis using runner_workers [OF inv ok] by simp
  next
    case (Pv_task f inp)
    then show ?thesis using run_task_workers [OF inv _ m] keep by simp
  next
    case Pv_clear_workers
    then show ?thesis using keep by (simp add: keeps_workers_def)
  next
    case (Pv_shutdown_step expired)
    have "wview (fold cancel_and_kill fs p) = wview p" for fs by (rule wview_fold) (rule wview_kill)
    then show ?thesis
      using keep Pv_shutdown_step
      by (intro same)
        (auto simp: keeps_workers_def pool_shutdown_step_def wview_def queue_put_def split: pool_shutdown.splits)
  next
    case (Pv_shutdown wait cancel)
    have "wview (p\<lparr>pl_closed := c, pl_shutdown := sd\<rparr>) = wview p" for c sd by (simp add: wview_def)
    then show ?thesis using Pv_shutdown
      by (intro same) (simp add: pool_shutdown_begin_def wview_cancel_all Let_def)
  next
    case (Pv_submit k)
    then show ?thesis by (intro same) (simp add: pool_submit_def wview_def)
  next
    case (Pv_put f block)
    then show ?thesis by (intro same) (simp add: submit_put_def queue_put_def bump_def wview_def)
  qed (rule same; simp add: wview_ops wview_kill)+
qed

lemma pool_init_workers:
  assumes "0 < pc_pool_size cfg"
  shows "workers_inv (pool_init cfg)"
proof -
  have "pool_workers_ok ((add_worker_to_pool ^^ n) pool_empty) \<and> pl_task ((add_worker_to_pool ^^ n) pool_empty) = (\<lambda>_. T_none) \<and>
      length (pl_workers ((add_worker_to_pool ^^ n) pool_empty)) = n" for n
  proof (induction n)
    case 0
    show ?case by (simp add: pool_empty_def workers_ok_def ran_def o_def)
  next
    case (Suc n)
    then show ?case using workers_add by (auto simp: add_worker_to_pool_def bump_def)
  qed
  from this [of "nat (pc_pool_size cfg)"] show ?thesis
    using assms by (auto simp: workers_inv_def pool_init_def pool_stock_def)
qed

lemma pool_sound_inv:
  assumes "pool_sound cfg p" and "0 < pc_pool_size cfg" and "1 \<le> pc_min_workers cfg"
  shows "workers_inv p \<and> pool_inv cfg p"
  using assms(1)
  by induction (use assms in \<open>auto simp: pool_init_workers pool_init_inv intro: pool_step_workers pool_step_inv\<close>)

end
