(* ===== verification/PoolProps.thy ===== *)
theory PoolProps
  imports PoolLive
begin

text \<open>
  What the local executor guarantees in every interleaving of its threads, and the runs in which it
  does not: a stranded job, a leaked worker, a worker killed under another job.
\<close>

subsection \<open>What every step but a submission and a put keeps\<close>

text \<open>
  A property of the pool that the primitive changes keep is kept by whole steps.  It is proved once for
  the finality of futures and the keys of the queue below.
\<close>

locale pool_kept =
  fixes I :: "pool \<Rightarrow> bool"
  assumes worker: "I p \<Longrightarrow> I (upd_worker w g p)" and stats: "I p \<Longrightarrow> I (bump h p)"
    and pid: "I p \<Longrightarrow> I (set_pid f w p)" and phase: "I p \<Longrightarrow> I (goto f ph p)"
    and fut: "st \<noteq> Fut_pending \<Longrightarrow> I p \<Longrightarrow> I (set_future f st p)" and added: "I p \<Longrightarrow> I (add_worker_to_pool p)"
    and count: "I p \<Longrightarrow> I (p\<lparr>pl_unfinished := n\<rparr>)" and jobs: "I p \<Longrightarrow> I (p\<lparr>pl_running_jobs := n\<rparr>)"
    and runner: "I p \<Longrightarrow> I (p\<lparr>pl_runner := r\<rparr>)" and idle: "I p \<Longrightarrow> I (p\<lparr>pl_workers := ws\<rparr>)"
    and busy: "I p \<Longrightarrow> I (p\<lparr>pl_busy := ws\<rparr>)" and running: "I p \<Longrightarrow> I (p\<lparr>pl_running_futs := fs\<rparr>)"
    and closing: "I p \<Longrightarrow> I (p\<lparr>pl_closed := c\<rparr>)" and phases: "I p \<Longrightarrow> I (p\<lparr>pl_shutdown := sd\<rparr>)"
    and get: "I p \<Longrightarrow> queue_get p = Some (item, q) \<Longrightarrow> I q"
begin

lemmas prims = worker stats pid phase fut added count jobs runner idle busy running closing phases

lemma derived:
  assumes "I p"
  shows "I (task_failed p)" "I (worker_shutdown w p)" "I (count_task w p)" "I (queue_task_done p)" "I (get_process_busy w p)"
  using assms by (auto simp: task_failed_def worker_shutdown_def count_task_def queue_task_done_def get_process_busy_def Let_def prims)

lemma kept_fold: "(\<And>x q. I q \<Longrightarrow> I (g x q)) \<Longrightarrow> I p \<Longrightarrow> I (fold g xs p)"
  by (induction xs arbitrary: p) auto

lemma kept_cancel_all: "I p \<Longrightarrow> I (cancel_all_futures_on_queue n p)"
proof (induction n arbitrary: p)
  case (Suc n)
  then show ?case using get [OF Suc.prems] by (auto simp: prims derived split: option.splits)
qed simp

lemma kept_kill: "I p \<Longrightarrow> I (cancel_and_kill f p)"
  by (auto simp: cancel_and_kill_def Let_def prims split: option.splits)

lemma kept_clear: "I p \<Longrightarrow> I (clear_workers p)"
  unfolding clear_workers_def by (intro kept_fold derived prims)

lemma kept_done_with: "I p \<Longrightarrow> done_with_process cfg w rss p = (q, r) \<Longrightarrow> I q"
  using done_with_cases [of cfg w rss p] by (auto simp: prims derived)

lemma kept_continue: "I p \<Longrightarrow> I (continue_task f w k p)"
  by (auto simp: continue_task_def Let_def prims split: continuation.splits nat.splits)

lemma kept_run_task:
  assumes "I p"
  shows "I (run_task_step cfg f inp p)"
proof -
  have "I (submit_job_step f n w inp p)" "I (poll_step f w inp p)" "I (fallback_step f p)" for n w
    using assms by (auto simp: submit_job_step_def poll_step_def fallback_step_def Let_def prims derived
        split: task_input.splits)
  then show ?thesis
    using assms kept_done_with [OF assms]
    by (auto simp: run_task_step_def Let_def prims derived kept_continue split: task_phase.splits list.splits prod.splits)
qed

lemma kept_runner: "I p \<Longrightarrow> I (runner_step cfg p)"
  using get [of p]
  by (auto simp: runner_step_def Let_def prims derived kept_cancel_all split: runner_phase.splits option.splits)

lemma kept_shutdown:
  assumes "I p"
  shows "I (pool_shutdown_begin wait cancel p)"
    and "(\<And>w c. pl_shutdown p \<noteq> SD_put w c) \<Longrightarrow> I (pool_shutdown_step cfg expired p)"
proof -
  show "I (pool_shutdown_begin wait cancel p)"
    using assms by (simp add: pool_shutdown_begin_def Let_def prims kept_cancel_all)
  have "I (fold cancel_and_kill fs p)" for fs using assms by (intro kept_fold kept_kill)
  moreover have "I (fold worker_shutdown ws (p\<lparr>pl_workers := [], pl_busy := []\<rparr>))" for ws
    using assms by (intro kept_fold derived prims)
  ultimately show "I (pool_shutdown_step cfg expired p)" if "\<And>w c. pl_shutdown p \<noteq> SD_put w c"
    using assms that by (auto simp: pool_shutdown_step_def prims simp del: fold_append split: pool_shutdown.splits)
qed

text \<open>The steps that add a future or an item are left to the property at hand.\<close>

lemma kept_step:
  assumes "I p" and "\<And>k. I (fst (pool_submit k p))" and "\<And>f block. I (submit_put cfg f block p)"
    and "\<And>w c expired. pl_shutdown p = SD_put w c \<Longrightarrow> I (pool_shutdown_step cfg expired p)"
  shows "I (pool_step cfg ev p)"
proof (cases ev)
  case (Pv_shutdown_step expired)
  then show ?thesis using assms kept_shutdown(2) [of p cfg expired] by (cases "pl_shutdown p") auto
qed (use assms in \<open>simp_all add: kept_runner kept_run_task prims kept_kill kept_clear kept_shutdown(1)\<close>)

end

subsection \<open>Futures are final\<close>

definition settled_in :: "pool \<Rightarrow> pool \<Rightarrow> bool" where
  "settled_in p q \<longleftrightarrow> pl_nfut p \<le> pl_nfut q \<and>
     (\<forall>f < pl_nfut p. fut_done f p \<longrightarrow> fu_state (pl_fut q f) = fu_state (pl_fut p f))"

lemma settled_refl [simp]: "settled_in p p"
  by (simp add: settled_in_def)

lemma settled_trans: "settled_in p q \<Longrightarrow> settled_in q r \<Longrightarrow> settled_in p r"
  unfolding settled_in_def fut_done_def by (metis le_trans less_le_trans)

lemma settled_futures: "pl_nfut q = pl_nfut p \<Longrightarrow> pl_fut q = pl_fut p \<Longrightarrow> settled_in p q"
  by (simp add: settled_in_def)

lemma get_futures: "queue_get p = Some (item, q) \<Longrightarrow> pl_nfut q = pl_nfut p \<and> pl_fut q = pl_fut p \<and> pl_item q = pl_item p"
  by (auto simp: queue_get_def split: sum.splits prod.splits)

interpretation settled: pool_kept "settled_in a" for a
proof
  fix p st f w
  show "settled_in a p \<Longrightarrow> settled_in a (set_future f st p)" "settled_in a p \<Longrightarrow> settled_in a (set_pid f w p)"
    by (auto elim!: settled_trans simp: settled_in_def set_future_def set_pid_def fut_done_def)
qed (auto elim!: settled_trans intro!: settled_futures simp: upd_worker_def bump_def goto_def add_worker_to_pool_def get_futures)

lemma settled_step: "settled_in p (pool_step cfg ev p)"
proof (rule settled.kept_step)
  show "settled_in p (fst (pool_submit k p))" for k
    by (auto simp: pool_submit_def settled_in_def)
qed (auto simp: submit_put_def pool_shutdown_step_def queue_put_def bump_def settled_in_def)

lemma settled_run: "settled_in p (pool_run cfg evs p)"
  unfolding pool_run_def by (induction evs arbitrary: p) (auto intro: settled_step settled_trans)

subsection \<open>The keys of the queue\<close>

text \<open>A queued key is the priority and the number its future was submitted with.\<close>

definition keys_ok :: "pool \<Rightarrow> bool" where
  "keys_ok p \<longleftrightarrow>
     (\<forall>k s f. (k, s) \<in> set (pl_queue p) \<longrightarrow> pl_item p s = Some f \<longrightarrow>
        f < pl_nfut p \<and> fu_priority (pl_fut p f) = k \<and> fu_sequence (pl_fut p f) = s)"

lemma keys_okD:
  "keys_ok p \<Longrightarrow> (k, s) \<in> set (pl_queue p) \<Longrightarrow> pl_item p s = Some f \<Longrightarrow>
     f < pl_nfut p \<and> fu_priority (pl_fut p f) = k \<and> fu_sequence (pl_fut p f) = s"
  by (simp add: keys_ok_def)

lemma put_queue: "set (pl_queue (queue_put k s p)) = insert (k, s) (set (pl_queue p))"
  using mset_eq_setD [of "heappush (pl_queue p) (k, s)" "(k, s) # pl_queue p"] by (simp add: queue_put_def mset_heappush)

lemma keys_put:
  assumes "keys_ok p"
    and "\<And>f. pl_item p s = Some f \<Longrightarrow> f < pl_nfut p \<and> fu_priority (pl_fut p f) = k \<and> fu_sequence (pl_fut p f) = s"
  shows "keys_ok (queue_put k s p)"
  using keys_okD [OF assms(1)] assms(2) unfolding keys_ok_def [of "queue_put k s p"] put_queue by (auto simp: queue_put_def)

lemma keys_fields:
  "keys_ok (p\<lparr>pl_admitted := a\<rparr>) = keys_ok p" "keys_ok (p\<lparr>pl_refused := b\<rparr>) = keys_ok p" "keys_ok (bump h p) = keys_ok p"
  "keys_ok (p\<lparr>pl_shutdown := sd\<rparr>) = keys_ok p"
  by (simp_all add: keys_ok_def bump_def)

definition keyed :: "pool \<Rightarrow> bool" where
  "keyed p \<longleftrightarrow> keys_ok p \<and> queue_ok p"

lemma keyed_cong:
  assumes "keyed p" and "pl_queue q = pl_queue p" "pl_item q = pl_item p" "pl_nfut q = pl_nfut p" "pl_sequence q = pl_sequence p"
    and "\<And>f. fu_priority (pl_fut q f) = fu_priority (pl_fut p f)" "\<And>f. fu_sequence (pl_fut q f) = fu_sequence (pl_fut p f)"
  shows "keyed q"
  using assms(1) unfolding keyed_def keys_ok_def queue_ok_def seqs_def assms(2-) .

interpretation keyed: pool_kept keyed
proof
  fix p item q
  assume p: "keyed p" and get: "queue_get p = Some (item, q)"
  note spec = queue_get_spec [OF _ get]
  have "set (pl_queue q) \<subseteq> set (pl_queue p)"
    using spec(1) p mset_eq_setD [of "pl_queue p" "_ # pl_queue q"] by (force simp: keyed_def)
  then show "keyed q"
    using p spec(2) get_futures [OF get] keys_okD [of p] unfolding keyed_def keys_ok_def [of q] by auto
qed (erule keyed_cong; simp add: upd_worker_def bump_def goto_def add_worker_to_pool_def set_pid_def set_future_def)+

lemma keyed_step:
  assumes inv: "pool_inv cfg p" and k: "keyed p" and pos: "0 < pc_pool_size cfg"
  shows "keyed (pool_step cfg ev p)"
proof (rule keyed.kept_step [OF k])
  have old: "(k, s) \<in> set (pl_queue p) \<Longrightarrow> s \<noteq> pl_sequence p" for k s
    using inv by (force simp: pool_inv_def queue_ok_def seqs_def)
  have keys: "keys_ok p" using k by (simp add: keyed_def)
  show "keyed (fst (pool_submit k p))" for k
  proof -
    have "keys_ok (fst (pool_submit k p))"
      using keys_okD [OF keys] old by (fastforce simp: keys_ok_def [of "fst _"] pool_submit_def)
    then show ?thesis using submit_inv [OF inv, of k] by (simp add: keyed_def pool_inv_def)
  qed
  show "keyed (submit_put cfg f block p)" for f block
  proof -
    have "numbered_item f p \<and> f < pl_nfut p" if "f \<in> set (pl_admitted p)"
      using inv that by (auto simp: pool_inv_def places_ok_def idle_future_def)
    then have "keys_ok (submit_put cfg f block p)"
      using keys by (auto simp: submit_put_def keys_fields numbered_item_def intro!: keys_put)
    then show ?thesis using put_inv [OF inv, of f block] by (simp add: keyed_def pool_inv_def)
  qed
  show "keyed (pool_shutdown_step cfg expired p)" if "pl_shutdown p = SD_put w c" for w c expired
  proof -
    have item: "keys_ok (p\<lparr>pl_item := (pl_item p)(pl_sequence p := None), pl_sequence := pl_sequence p + 1\<rparr>)"
      using keys_okD [OF keys] old by (auto simp: keys_ok_def [of "pl_sequence_update _ _"])
    have "keys_ok (pool_shutdown_step cfg expired p)"
      using that keys item by (auto simp: pool_shutdown_step_def keys_fields intro!: keys_put)
    then show ?thesis using shutdown_step_inv [OF inv, of expired] by (simp add: keyed_def pool_inv_def)
  qed
qed

subsection \<open>Own steps of a task thread\<close>

text \<open>An upper bound on the steps a task thread has still to take.\<close>

fun return_rank :: "continuation \<Rightarrow> nat" where
  "return_rank Finish = 3"
| "return_rank (Retry 0) = 3"
| "return_rank (Retry (Suc n)) = 14 + 10 * n"

fun task_rank :: "task_phase \<Rightarrow> nat" where
  "task_rank (T_get n) = 13 + 10 * n"
| "task_rank (T_size n _) = 12 + 10 * n"
| "task_rank (T_add n) = 11 + 10 * n"
| "task_rank (T_take n) = 10 + 10 * n"
| "task_rank (T_taken n _) = 9 + 10 * n"
| "task_rank (T_submit n _) = 8 + 10 * n"
| "task_rank (T_poll _) = 7"
| "task_rank (T_done_with _ k) = 3 + return_rank k"
| "task_rank (T_count _ _ k) = 2 + return_rank k"
| "task_rank (T_total _ _ k) = 1 + return_rank k"
| "task_rank (T_retire _ k) = return_rank k"
| "task_rank (T_keep _ k) = return_rank k"
| "task_rank T_finally = 2"
| "task_rank T_fallback = 1"
| "task_rank T_end = 0"
| "task_rank T_none = 104"

lemma goto_task [simp]: "pl_task (goto f ph p) = (pl_task p)(f := ph)"
  by (simp add: goto_def)

lemma task_frame [simp]:
  "pl_task (upd_worker w g p) = pl_task p" "pl_task (bump h p) = pl_task p" "pl_task (task_failed p) = pl_task p"
  "pl_task (worker_shutdown w p) = pl_task p" "pl_task (set_pid f w p) = pl_task p" "pl_task (count_task w p) = pl_task p"
  "pl_task (add_worker_to_pool p) = pl_task p" "pl_task (queue_task_done p) = pl_task p"
  "pl_task (get_process_busy w p) = pl_task p" "pl_task (queue_put k s p) = pl_task p"
  by (simp_all add: pool_ops queue_put_def Let_def)

lemma done_with_task: "done_with_process cfg w rss p = (q, r) \<Longrightarrow> pl_task q = pl_task p"
  using done_with_cases [of cfg w rss p] by auto

text \<open>A step of a thread moves that thread alone, and towards its end.\<close>

definition advances :: "nat \<Rightarrow> nat \<Rightarrow> pool \<Rightarrow> pool \<Rightarrow> bool" where
  "advances f m p q \<longleftrightarrow> (\<forall>g. g \<noteq> f \<longrightarrow> pl_task q g = pl_task p g) \<and> task_rank (pl_task q f) < m"

lemma continue_task_advances: "advances f (return_rank k) p (continue_task f w k p)"
  by (cases k rule: return_rank.cases) (simp_all add: continue_task_def advances_def)

lemma return_rank_bounds: "3 \<le> return_rank k" "return_rank (Retry n) \<le> 4 + 10 * n"
  by (cases k rule: return_rank.cases; simp) (cases n; simp)

lemma submit_job_advances:
  "submit_job_step f n w inp p = p \<or> advances f (8 + 10 * n) p (submit_job_step f n w inp p)"
  using return_rank_bounds(2) [of n] by (cases inp) (auto simp: submit_job_step_def Let_def advances_def)

lemma poll_advances: "poll_step f w inp p = p \<or> advances f 7 p (poll_step f w inp p)"
  by (cases inp) (auto simp: poll_step_def Let_def advances_def)

lemma keep_advances:
  assumes "pl_task p f = T_keep w k"
  shows "advances f (return_rank k) p (run_task_step cfg f inp p)"
proof -
  obtain q r where q: "done_with_process cfg w (case inp of In_rss r \<Rightarrow> r | _ \<Rightarrow> None) p = (q, r)" by (metis surj_pair)
  have "advances f (return_rank k) p (continue_task f w k q)"
    using continue_task_advances [of f k q w] done_with_task [OF q] by (simp add: advances_def)
  then show ?thesis
    using assms q done_with_task [OF q] return_rank_bounds(1) [of k]
    by (cases r) (simp_all add: run_task_step_def, simp add: advances_def)
qed

text \<open>A thread that cannot move waits for a worker or for the answer of its worker, or is over.\<close>

fun thread_blocked :: "task_input \<Rightarrow> pool \<Rightarrow> task_phase \<Rightarrow> bool" where
  "thread_blocked inp p (T_take n) = (pl_workers p = [])"
| "thread_blocked inp p (T_submit n w) = (inp \<notin> {In_refused, In_submitted, In_unpicklable, In_broken_pipe, In_raises})"
| "thread_blocked inp p (T_poll w) =
     (\<not> (inp \<in> {In_eof, In_receive_error} \<or> (\<exists>v. inp = In_value v) \<or> (\<exists>e. inp = In_exception e) \<or>
         inp = In_nothing \<and> \<not> wk_alive (pl_worker p w)))"
| "thread_blocked inp p T_none = True"
| "thread_blocked inp p T_end = True"
| "thread_blocked inp p _ = False"

lemma blocked_waits: "thread_blocked inp p (pl_task p f) \<Longrightarrow> run_task_step cfg f inp p = p"
  by (cases "pl_task p f"; cases inp) (auto simp: run_task_step_def submit_job_step_def poll_step_def)

lemma run_task_advances:
  assumes "\<not> thread_blocked inp p (pl_task p f)"
  shows "advances f (task_rank (pl_task p f)) p (run_task_step cfg f inp p)"
proof (cases "pl_task p f")
  case (T_retire w k)
  then show ?thesis using continue_task_advances [of f k "worker_shutdown w p" w] by (simp add: run_task_step_def advances_def)
next
  case (T_keep w k)
  then show ?thesis using keep_advances [OF T_keep] by simp
next
  case (T_done_with w k)
  then show ?thesis
    using return_rank_bounds(1) [of k] by (simp add: run_task_step_def Let_def advances_def)
next
  case (T_submit n w)
  then show ?thesis
    using assms return_rank_bounds(2) [of n]
    by (cases inp) (auto simp: run_task_step_def submit_job_step_def Let_def advances_def)
next
  case (T_poll w)
  then show ?thesis
    using assms by (cases inp) (auto simp: run_task_step_def poll_step_def Let_def advances_def)
qed (use assms in \<open>auto simp: run_task_step_def fallback_step_def Let_def advances_def neq_Nil_conv split: list.splits\<close>)

lemma run_task_others: "g \<noteq> f \<Longrightarrow> pl_task (run_task_step cfg f inp p) g = pl_task p g"
  using run_task_advances [of inp p f cfg] blocked_waits [of inp p f cfg]
  by (cases "thread_blocked inp p (pl_task p f)") (simp_all add: advances_def)

text \<open>Nothing but its own steps moves a thread that has been started.\<close>

lemma cancel_all_task: "pl_task (cancel_all_futures_on_queue n p) = pl_task p"
  using wview_cancel_all [of n p] by (simp add: wview_def)

lemma get_task: "queue_get p = Some (item, q) \<Longrightarrow> pl_task q = pl_task p"
  using wview_get [of p item q] by (simp add: wview_def)

lemma kill_task: "pl_task (cancel_and_kill f p) = pl_task p"
  using wview_kill [of f p] by (simp add: wview_def)

lemma fold_task: "(\<And>x q. pl_task (g x q) = pl_task q) \<Longrightarrow> pl_task (fold g xs p) = pl_task p"
  by (induction xs arbitrary: p) auto

lemma runner_task:
  assumes "pool_inv cfg p" and "pl_task p f \<noteq> T_none"
  shows "pl_task (runner_step cfg p) f = pl_task p f"
proof -
  have "g \<noteq> f" if "queue_get p = Some (Some g, q)" for g q
    using queue_get_spec(4) [OF _ that] assms by (auto simp: pool_inv_def places_ok_def idle_future_def)
  then show ?thesis
    using get_task by (auto simp: runner_step_def cancel_all_task Let_def split: runner_phase.splits option.splits)
qed

lemma other_steps_task:
  assumes inv: "pool_inv cfg p" and f: "pl_task p f \<noteq> T_none" and ev: "\<And>inp. ev \<noteq> Pv_task f inp"
  shows "pl_task (pool_step cfg ev p) f = pl_task p f"
proof (cases ev)
  case (Pv_task g inp)
  then have "f \<noteq> g" using ev [of inp] by auto
  then show ?thesis using Pv_task run_task_others by simp
next
  case (Pv_shutdown_step expired)
  have "pl_task (fold cancel_and_kill fs p) = pl_task p" for fs by (rule fold_task) (rule kill_task)
  moreover have "pl_task (fold worker_shutdown ws (p\<lparr>pl_workers := [], pl_busy := []\<rparr>)) = pl_task p" for ws
    by (subst fold_task) simp_all
  ultimately show ?thesis
    using Pv_shutdown_step by (simp add: pool_shutdown_step_def del: fold_append split: pool_shutdown.split)
next
  case Pv_clear_workers
  then show ?thesis by (simp add: clear_workers_def fold_task)
qed (use runner_task [OF inv f] in
    \<open>auto simp: pool_submit_def submit_put_def kill_task pool_shutdown_begin_def cancel_all_task Let_def\<close>)

text \<open>How many times a thread moves in a run: its steps that are neither waits nor polls that hear nothing.\<close>

fun thread_moves :: "pool_config \<Rightarrow> nat \<Rightarrow> pool_event list \<Rightarrow> pool \<Rightarrow> nat" where
  "thread_moves cfg f [] p = 0"
| "thread_moves cfg f (ev # evs) p =
     of_bool (\<exists>inp. ev = Pv_task f inp \<and> \<not> thread_blocked inp p (pl_task p f)) +
     thread_moves cfg f evs (pool_step cfg ev p)"

lemma step_started:
  assumes inv: "pool_inv cfg p" and f: "pl_task p f \<noteq> T_none"
  shows "of_bool (\<exists>inp. ev = Pv_task f inp \<and> \<not> thread_blocked inp p (pl_task p f)) +
      task_rank (pl_task (pool_step cfg ev p) f) \<le> task_rank (pl_task p f)"
proof (cases "\<exists>inp. ev = Pv_task f inp")
  case True
  then obtain inp where ev: "ev = Pv_task f inp" by blast
  then show ?thesis
    using run_task_advances [of inp p f cfg] blocked_waits [of inp p f cfg]
    by (cases "thread_blocked inp p (pl_task p f)") (simp_all add: advances_def)
qed (use other_steps_task [OF inv f] in auto)

lemma step_stays_started:
  assumes inv: "pool_inv cfg p" and f: "pl_task p f \<noteq> T_none"
  shows "pl_task (pool_step cfg ev p) f \<noteq> T_none"
proof -
  have "pl_task (run_task_step cfg f inp p) f \<noteq> T_none" for inp
  proof -
    have "pl_task (continue_task f w k q) f \<noteq> T_none" for w k q
      by (cases k rule: return_rank.cases) (simp_all add: continue_task_def)
    then show ?thesis
      using f done_with_task
      by (auto simp: run_task_step_def submit_job_step_def poll_step_def fallback_step_def Let_def
          split: task_phase.splits task_input.splits list.splits prod.splits)
  qed
  then show ?thesis using other_steps_task [OF inv f, of ev] f by (cases "\<exists>inp. ev = Pv_task f inp") auto
qed

lemma moves_bound:
  assumes "pool_inv cfg p" and "0 < pc_pool_size cfg" and "pl_task p f \<noteq> T_none"
  shows "thread_moves cfg f evs p + task_rank (pl_task (pool_run cfg evs p) f) \<le> task_rank (pl_task p f)"
  using assms
proof (induction evs arbitrary: p)
  case (Cons ev evs)
  have "thread_moves cfg f evs (pool_step cfg ev p) + task_rank (pl_task (pool_run cfg evs (pool_step cfg ev p)) f)
      \<le> task_rank (pl_task (pool_step cfg ev p) f)"
    by (rule Cons.IH) (use Cons.prems in \<open>simp_all add: pool_step_inv step_stays_started\<close>)
  then show ?case using step_started [of cfg p f ev] Cons.prems by (simp add: pool_run_def)
qed (simp add: pool_run_def)

text \<open>Whatever a thread that secures a worker is waiting for, its worker or the pool answers it.\<close>

lemma secures_moves:
  assumes "secures ph"
  shows "\<exists>inp. \<not> thread_blocked inp p ph"
proof (cases ph)
  case (T_submit n w)
  then show ?thesis by (intro exI [of _ In_submitted]) simp
next
  case (T_poll w)
  then show ?thesis by (intro exI [of _ In_eof]) simp
qed (use assms in auto)

lemma active_moves:
  assumes "workers_inv p" and "active (pl_task p f)"
  shows "\<exists>g inp. \<not> thread_blocked inp p (pl_task p g)"
proof (cases "secures (pl_task p f) \<or> (\<exists>n. pl_task p f = T_take n)")
  case True
  then consider "secures (pl_task p f)" | n where "pl_task p f = T_take n" by blast
  then show ?thesis
  proof cases
    case 1
    then show ?thesis using secures_moves by blast
  next
    case 2
    show ?thesis
    proof (cases "pl_workers p = []")
      case True
      then obtain g where "secures (pl_task p g)" using assms(1) by (auto simp: workers_inv_def pool_stock_def)
      then show ?thesis using secures_moves by blast
    next
      case False
      then show ?thesis using 2 by (intro exI [of _ f]) simp
    qed
  qed
next
  case False
  then show ?thesis using assms(2) by (intro exI [of _ f]) (cases "pl_task p f"; auto)
qed

lemma advances_neq: "advances f (task_rank (pl_task p f)) p q \<Longrightarrow> q \<noteq> p"
  by (auto simp: advances_def)

lemma cancel_all_runner: "pl_runner (cancel_all_futures_on_queue n p) = pl_runner p"
proof (induction n arbitrary: p)
  case (Suc n)
  then show ?case using get_runner by (auto simp: queue_task_done_def split: option.splits)
qed simp

lemma runner_moves:
  assumes inv: "pool_inv cfg p" and pos: "0 < pc_pool_size cfg" and none: "\<And>f. \<not> active (pl_task p f)"
    and q: "pl_queue p \<noteq> []" and r: "pl_runner p \<noteq> R_exited"
  shows "pool_step cfg Pv_runner p \<noteq> p"
proof (cases "pl_runner p")
  case R_put
  have "pl_running_jobs p = 0" using inv none R_put by (simp add: pool_inv_def counts_ok_def tally_def)
  then show ?thesis using R_put pos by (auto simp: runner_step_def dest: arg_cong [of _ _ pl_runner])
next
  case R_get
  obtain item q' where get: "queue_get p = Some (item, q')"
    using hq.pop_good [of "pl_queue p"] inv q by (fastforce simp: queue_get_def pool_inv_def queue_ok_def split: prod.splits)
  have "pl_runner (pool_step cfg Pv_runner p) \<noteq> R_get"
    using R_get get by (auto simp: runner_step_def Let_def bump_def cancel_all_runner split: option.split)
  then show ?thesis using R_get by auto
qed (use r in simp)

end
