(* ===== verification/PoolGuarantees.thy ===== *)
theory PoolGuarantees
  imports PoolProps "HOL-Library.Code_Target_Nat"
begin

text \<open>
  What the local executor guarantees in every interleaving of its threads, and the runs in which it
  does not: a job stranded without workers, a leaked worker, a put that arrives after the runner has
  left.
\<close>

subsection \<open>Concrete runs\<close>

lemma pool_run_reachable: "pool_reachable cfg p \<Longrightarrow> pool_reachable cfg (pool_run cfg evs p)"
  unfolding pool_run_def by (induction evs arbitrary: p) (auto intro: pool_reachable.step)

fun run_keeps :: "pool_config \<Rightarrow> pool_event list \<Rightarrow> pool \<Rightarrow> bool" where
  "run_keeps cfg [] p = True"
| "run_keeps cfg (ev # evs) p = (keeps_workers cfg ev p \<and> run_keeps cfg evs (pool_step cfg ev p))"

lemma pool_run_sound: "pool_sound cfg p \<Longrightarrow> run_keeps cfg evs p \<Longrightarrow> pool_sound cfg (pool_run cfg evs p)"
  by (induction evs arbitrary: p) (auto simp: pool_run_def intro: pool_sound.step)

definition small_pool :: "int \<Rightarrow> int \<Rightarrow> pool_config" where
  "small_pool n m = pool_configure (Some n) 8 (Some m) None None 4"

lemma small_pool_size [simp]: "pc_pool_size (small_pool n m) = (if n = 0 then 8 else n)" "pc_min_workers (small_pool n m) = m"
  by (simp_all add: small_pool_def pool_configure_def)

text \<open>The steps of the runner that start job \<open>f\<close>, and of its thread up to the submission and to the end.\<close>

definition launch :: "pool_event list" where
  "launch = [Pv_runner, Pv_runner]"

definition steps :: "nat \<Rightarrow> nat \<Rightarrow> pool_event list" where
  "steps n f = replicate n (Pv_task f In_nothing)"

definition enter :: "int \<Rightarrow> nat \<Rightarrow> pool_event list" where
  "enter k f = [Pv_submit k, Pv_put f True]"

definition finish_job :: "nat \<Rightarrow> pool_event list" where
  "finish_job f = Pv_task f In_submitted # Pv_task f (In_value 7) # steps 6 f"

text \<open>Two jobs, the second of them more urgent; the first is taken by the runner before the second arrives.\<close>

definition pool_at :: "int \<Rightarrow> int \<Rightarrow> pool_event list \<Rightarrow> pool" where
  "pool_at n m evs = pool_run (small_pool n m) evs (pool_init (small_pool n m))"

definition three_jobs :: "pool_event list" where
  "three_jobs = enter 5 0 @ launch @ enter 5 1 @ enter 3 2 @ [Pv_runner]"

definition one_done :: "pool_event list" where
  "one_done = three_jobs @ steps 4 0 @ finish_job 0"

lemma pool_at_reachable [simp]: "pool_reachable (small_pool n m) (pool_at n m evs)"
  unfolding pool_at_def by (intro pool_run_reachable pool_reachable.init)

lemma three_jobs_values:
  "(let p = pool_at 2 1 three_jobs in
    (map_option fst (queue_get p), pl_nfut p, pl_unfinished p, pl_running_jobs p, map (pl_task p) [0, 1, 2], pl_queue p)) =
   (Some (Some 2), 3, 3, 2, [T_get 9, T_none, T_none], [(3, 2), (5, 1)])"
  by code_simp

lemma one_done_values:
  "(let p = pool_at 2 1 one_done in
    (fu_state (pl_fut p 0), pl_nfut p, pl_unfinished p, pl_running_jobs p, map (pl_task p) [0, 1, 2], length (pl_queue p),
     pl_workers p, fut_done 0 p)) =
   (Fut_result 7, 3, 2, 1, [T_end, T_none, T_none], 2, [1, 0], True)"
  by code_simp

lemmas run_values = three_jobs_values [unfolded Let_def prod.inject] one_done_values [unfolded Let_def prod.inject]

subsection \<open>Accounts\<close>

lemma tally_card: "tally P p = int (card {f. f < pl_nfut p \<and> P (pl_task p f)})"
proof -
  have "tally P p = (\<Sum>f \<in> {..< pl_nfut p} \<inter> {f. P (pl_task p f)}. 1)"
    unfolding tally_def by (subst sum.inter_restrict) (auto simp: of_bool_def intro!: sum.cong)
  also have "{..< pl_nfut p} \<inter> {f. P (pl_task p f)} = {f. f < pl_nfut p \<and> P (pl_task p f)}" by auto
  finally show ?thesis by simp
qed



text \<open>
  (C30) No job is lost by the local executor: in every reachable state each submitted job is being put,
  was refused by a full queue, waits in the queue, is run by a thread, or its future is done; it is in
  at most one of these places; and when its thread has ended its future is done.
\<close>

theorem pool_no_job_lost:
  assumes "pool_reachable cfg p" and "0 < pc_pool_size cfg" and "f < pl_nfut p"
  shows "(f \<in> set (pl_admitted p) \<or> f \<in> set (pl_refused p) \<or> f \<in> queued p \<or> active (pl_task p f) \<or> fut_done f p) \<and>
    of_bool (f \<in> set (pl_admitted p)) + of_bool (f \<in> set (pl_refused p)) + of_bool (f \<in> queued p) +
      of_bool (pl_task p f \<noteq> T_none) \<le> (1::nat) \<and>
    (pl_task p f = T_end \<longrightarrow> fut_done f p)"
proof -
  have ok: "places_ok p" using pool_reachable_inv [OF assms(1,2)] by (simp add: pool_inv_def)
  have "f \<notin> set (pl_admitted p) \<union> set (pl_refused p) \<union> queued p" if "pl_task p f \<noteq> T_none"
    using ok that by (auto simp: places_ok_def idle_future_def)
  then show ?thesis using ok assms(3) by (auto simp: places_ok_def)
qed

theorem pool_no_job_lost_witness: "fut_done 0 (pool_at 2 1 one_done)"
  using pool_no_job_lost [of "small_pool 2 1" "pool_at 2 1 one_done" 0] run_values(2) by simp

text \<open>
  A future that is done stays as it is, whatever the threads, the caller and a shutdown do
  afterwards: a result is never replaced by a cancellation or by the fallback exception.
\<close>

theorem pool_futures_final:
  assumes "f < pl_nfut p" and "fut_done f p"
  shows "fu_state (pl_fut (pool_run cfg evs p) f) = fu_state (pl_fut p f)"
  using settled_run [of p cfg evs] assms by (simp add: settled_in_def)

theorem pool_futures_final_witness:
  "fu_state (pl_fut (pool_run (small_pool 2 1) [Pv_kill 0, Pv_shutdown False True] (pool_at 2 1 one_done)) 0) = Fut_result 7"
  using pool_futures_final [of 0 "pool_at 2 1 one_done" "small_pool 2 1"] run_values(2) by simp

subsection \<open>The priority queue as a multiset of jobs\<close>

definition pool_jobs :: "pool \<Rightarrow> (int \<times> int \<times> nat option) multiset" where
  "pool_jobs p = image_mset (\<lambda>(k, s). (k, s, pl_item p s)) (mset (pl_queue p))"

lemma keyed_reachable: "pool_reachable cfg p \<Longrightarrow> 0 < pc_pool_size cfg \<Longrightarrow> keyed p"
proof (induction rule: pool_reachable.induct)
  case init
  have "pl_queue ((add_worker_to_pool ^^ n) pool_empty) = []" for n
    using pool_init_view [of n] by (simp add: pview_def pool_empty_def)
  then show ?case using pool_init_inv [of cfg] init by (simp add: keyed_def keys_ok_def pool_init_def pool_inv_def)
next
  case (step p ev)
  then show ?case using keyed_step pool_reachable_inv by blast
qed

lemma get_refines:
  assumes ok: "queue_ok p" and get: "queue_get p = Some (item, q)"
  shows "\<exists>k s. pool_jobs p = add_mset (k, s, item) (pool_jobs q) \<and> (\<forall>(k', s', item') \<in># pool_jobs q. (k, s) < (k', s'))"
proof -
  obtain k s where ks: "\<forall>x \<in> set (pl_queue p). (k, s) \<le> x" "pl_item p s = item"
      "mset (pl_queue p) = add_mset (k, s) (mset (pl_queue q))"
    using queue_get_spec(1) [OF ok get] by blast
  have item: "pl_item q = pl_item p" using get_futures [OF get] by simp
  have "mset (map snd (pl_queue p)) = mset (s # map snd (pl_queue q))" using ks(3) by simp
  then have "s \<notin> snd ` set (pl_queue q)"
    using ok mset_eq_imp_distinct_iff [of "map snd (pl_queue p)" "s # map snd (pl_queue q)"] by (auto simp: queue_ok_def)
  then have "(k, s) < (k', s')" if "(k', s') \<in> set (pl_queue q)" for k' s'
    using that ks(1) mset_eq_setD [of "pl_queue p" "(k, s) # pl_queue q"] ks(3) by (force simp: less_prod_def' order_le_less)
  then show ?thesis using ks(2,3) by (intro exI [of _ k] exI [of _ s]) (auto simp: pool_jobs_def item)
qed

text \<open>
  (C34) The submission queue implements a multiset of jobs ordered by priority and, among equal
  priorities, by submission: a put with room adds exactly the job with the priority and number it was
  submitted with, a get on a nonempty queue takes out the strictly least job and nothing else, and a
  get on an empty queue blocks.
\<close>

theorem pool_queue_refines_priority_multiset:
  assumes "pool_reachable cfg p" and "0 < pc_pool_size cfg"
  shows "(f \<in> set (pl_admitted p) \<and> \<not> queue_is_full cfg p \<longrightarrow>
      pool_jobs (submit_put cfg f block p) =
        add_mset (fu_priority (pl_fut p f), fu_sequence (pl_fut p f), Some f) (pool_jobs p)) \<and>
    (queue_get p = None \<longleftrightarrow> pool_jobs p = {#}) \<and>
    (\<forall>item q. queue_get p = Some (item, q) \<longrightarrow>
      (\<exists>k s. pool_jobs p = add_mset (k, s, item) (pool_jobs q) \<and>
         (\<forall>(k', s', item') \<in># pool_jobs q. (k, s) < (k', s')) \<and>
         (\<forall>g. item = Some g \<longrightarrow> k = fu_priority (pl_fut p g) \<and> s = fu_sequence (pl_fut p g))))"
proof (intro conjI impI allI)
  have inv: "pool_inv cfg p" using assms by (rule pool_reachable_inv)
  have ok: "queue_ok p" "keys_ok p" using keyed_reachable [OF assms] by (simp_all add: keyed_def)
  show "pool_jobs (submit_put cfg f block p) =
      add_mset (fu_priority (pl_fut p f), fu_sequence (pl_fut p f), Some f) (pool_jobs p)"
    if "f \<in> set (pl_admitted p) \<and> \<not> queue_is_full cfg p"
  proof -
    have "pl_item p (fu_sequence (pl_fut p f)) = Some f"
      using inv that by (simp add: pool_inv_def places_ok_def numbered_item_def)
    then show ?thesis using that by (simp add: pool_jobs_def submit_put_def queue_put_def bump_def mset_heappush)
  qed
  show "queue_get p = None \<longleftrightarrow> pool_jobs p = {#}"
    using ok hq.pop_good [of "pl_queue p"]
    by (cases "pl_queue p = []") (auto simp: queue_get_def queue_ok_def pool_jobs_def hq.pop_Nil split: prod.splits)
  show "\<exists>k s. pool_jobs p = add_mset (k, s, item) (pool_jobs q) \<and>
         (\<forall>(k', s', item') \<in># pool_jobs q. (k, s) < (k', s')) \<and>
         (\<forall>g. item = Some g \<longrightarrow> k = fu_priority (pl_fut p g) \<and> s = fu_sequence (pl_fut p g))"
    if "queue_get p = Some (item, q)" for item q
  proof -
    obtain k s where ks: "pool_jobs p = add_mset (k, s, item) (pool_jobs q)"
        "\<forall>(k', s', item') \<in># pool_jobs q. (k, s) < (k', s')"
      using get_refines [OF ok(1), of item q] \<open>queue_get p = Some (item, q)\<close> by blast
    have "(k, s, item) \<in># pool_jobs p" using ks(1) by simp
    then have "(k, s) \<in> set (pl_queue p)" "item = pl_item p s" by (auto simp: pool_jobs_def)
    then show ?thesis using ks keys_okD [OF ok(2)] by (intro exI [of _ k] exI [of _ s]) auto
  qed
qed

theorem pool_queue_refines_priority_multiset_witness:
  "\<exists>q. queue_get (pool_at 2 1 three_jobs) = Some (Some 2, q) \<and>
     (\<exists>s. (3, s, Some 2) \<in># pool_jobs (pool_at 2 1 three_jobs) \<and> (\<forall>(k', s', item') \<in># pool_jobs q. (3, s) < (k', s')))"
proof -
  let ?p = "pool_at 2 1 three_jobs"
  obtain q where q: "queue_get ?p = Some (Some 2, q)" using run_values(1) by auto
  have "fu_priority (pl_fut ?p 2) = 3" by code_simp
  then show ?thesis
    using pool_queue_refines_priority_multiset [of "small_pool 2 1" ?p, THEN conjunct2, THEN conjunct2, THEN spec, THEN spec, THEN mp, OF _ _ q] q
    by fastforce
qed

subsection \<open>Progress, termination and shutdown\<close>

text \<open>
  (C32) The executor does not get stuck while its workers are kept.  Consider a pool of positive size that keeps at
  least one worker, in a state reached without losing a worker: no \<open>submit_job\<close> raised what \<open>run_task\<close> does not expect, no memory
  reading raised, nobody called \<open>clear_workers\<close>, and \<open>shutdown\<close> has not yet discarded the workers after its join.  If then a job is
  unfinished and the runner has not exited, the runner or some started thread can take a step, given the answer
  of its worker where it waits for one.  In particular a thread that waits for a worker is never
  alone without one.
\<close>

theorem pool_never_stuck:
  assumes "pool_sound cfg p" and "0 < pc_pool_size cfg" and "1 \<le> pc_min_workers cfg"
    and "pl_unfinished p \<noteq> 0" and "pl_runner p \<noteq> R_exited"
  shows "pool_step cfg Pv_runner p \<noteq> p \<or> (\<exists>f inp. active (pl_task p f) \<and> pool_step cfg (Pv_task f inp) p \<noteq> p)"
proof (cases "\<exists>f. active (pl_task p f)")
  case True
  then obtain f where "active (pl_task p f)" by blast
  then obtain g inp where g: "\<not> thread_blocked inp p (pl_task p g)"
    using active_moves pool_sound_inv [OF assms(1-3)] by blast
  then have "active (pl_task p g)" by (cases "pl_task p g") auto
  moreover have "pool_step cfg (Pv_task g inp) p \<noteq> p"
    using advances_neq [OF run_task_advances [OF g]] by simp
  ultimately show ?thesis by blast
next
  case False
  have inv: "pool_inv cfg p" using pool_sound_inv [OF assms(1-3)] by blast
  have "\<not> pending (pl_task p f)" for f using False [simplified, rule_format, of f] by (cases "pl_task p f") auto
  then have "tally pending p = 0" by (simp add: tally_def)
  then have "pl_queue p \<noteq> []" using inv assms(4) by (auto simp: pool_inv_def counts_ok_def)
  then show ?thesis using runner_moves [OF inv assms(2) _ _ assms(5)] False by blast
qed

theorem pool_never_stuck_witness:
  "\<exists>ev. pool_step (small_pool 2 1) ev (pool_at 2 1 three_jobs) \<noteq> pool_at 2 1 three_jobs"
proof -
  let ?cfg = "small_pool 2 1" and ?p = "pool_at 2 1 three_jobs"
  have "run_keeps ?cfg three_jobs (pool_init ?cfg)" by code_simp
  then have "pool_sound ?cfg ?p" unfolding pool_at_def by (intro pool_run_sound pool_sound.init)
  moreover have "pl_runner ?p \<noteq> R_exited" by code_simp
  moreover have "0 < pc_pool_size ?cfg" "1 \<le> pc_min_workers ?cfg" "pl_unfinished ?p \<noteq> 0" using run_values(1) by simp_all
  ultimately show ?thesis using pool_never_stuck [of ?cfg ?p] by blast
qed

text \<open>
  The answers a step can get: \<open>submit_job\<close> refuses, succeeds or raises; a poll finds a result, an error or nothing.  The other steps do not
  ask.
\<close>

fun possible_answer :: "task_phase \<Rightarrow> task_input \<Rightarrow> bool" where
  "possible_answer (T_submit n w) inp = (inp \<in> {In_refused, In_submitted, In_unpicklable, In_broken_pipe, In_raises})"
| "possible_answer (T_poll w) inp = (inp \<in> {In_nothing, In_eof, In_receive_error} \<or> (\<exists>v. inp = In_value v) \<or> (\<exists>e. inp = In_exception e))"
| "possible_answer _ inp = True"

lemma possible_answer_blocked:
  "possible_answer (pl_task p f) inp \<Longrightarrow> thread_blocked inp p (pl_task p f) \<Longrightarrow> pl_task p f \<noteq> T_none \<Longrightarrow>
   (\<exists>n. pl_task p f = T_take n \<and> pl_workers p = []) \<or>
   (\<exists>w. pl_task p f = T_poll w \<and> inp = In_nothing \<and> wk_alive (pl_worker p w)) \<or> pl_task p f = T_end"
  by (cases "pl_task p f") auto

text \<open>
  (C33) A task thread moves at most 103 times from its start, ten attempts to submit included, whatever it is answered and
  whatever the other threads do.  A step that does not move it changes nothing at all, and there are three such
  steps: waiting for an idle worker while there is none, a round of the polling loop that hears nothing from a
  worker that is alive, and those of a thread that has ended.  These are not counted, and nothing bounds how often a thread repeats the
  first two: it ends if it is eventually given a worker, and its worker eventually answers or dies.
\<close>

theorem task_thread_bounded:
  assumes "pool_reachable cfg p" and "0 < pc_pool_size cfg" and "pl_task p f \<noteq> T_none"
  shows "thread_moves cfg f evs p + task_rank (pl_task (pool_run cfg evs p) f) \<le> task_rank (pl_task p f) \<and>
    task_rank (T_get 9) = 103 \<and>
    (\<forall>inp. possible_answer (pl_task p f) inp \<and> pl_task (pool_step cfg (Pv_task f inp) p) f = pl_task p f \<longrightarrow>
       pool_step cfg (Pv_task f inp) p = p \<and>
       ((\<exists>n. pl_task p f = T_take n \<and> pl_workers p = []) \<or>
        (\<exists>w. pl_task p f = T_poll w \<and> inp = In_nothing \<and> wk_alive (pl_worker p w)) \<or> pl_task p f = T_end))"
proof (intro conjI allI impI; (elim conjE)?)
  show "thread_moves cfg f evs p + task_rank (pl_task (pool_run cfg evs p) f) \<le> task_rank (pl_task p f)"
    using pool_reachable_inv [OF assms(1,2)] assms(2,3) by (rule moves_bound)
  fix inp
  assume answer: "possible_answer (pl_task p f) inp" and stay: "pl_task (pool_step cfg (Pv_task f inp) p) f = pl_task p f"
  have blocked: "thread_blocked inp p (pl_task p f)"
    using run_task_advances [of inp p f cfg] stay by (auto simp: advances_def)
  show "pool_step cfg (Pv_task f inp) p = p" using blocked_waits [OF blocked] by simp
  show "(\<exists>n. pl_task p f = T_take n \<and> pl_workers p = []) \<or>
      (\<exists>w. pl_task p f = T_poll w \<and> inp = In_nothing \<and> wk_alive (pl_worker p w)) \<or> pl_task p f = T_end"
    using answer blocked assms(3) by (rule possible_answer_blocked)
qed simp

theorem task_thread_bounded_witness:
  "thread_moves (small_pool 2 1) 0 (steps 4 0 @ finish_job 0) (pool_at 2 1 three_jobs) \<le> 103"
  using task_thread_bounded [of "small_pool 2 1" "pool_at 2 1 three_jobs" 0 "steps 4 0 @ finish_job 0"] run_values(1)
  by simp

text \<open>
  (C35) When \<open>shutdown\<close> has finished waiting, the queue is empty, the idle and busy workers are gone, and
  every job that reached the queue has a finished future, or is in the last instructions of its thread,
  where it gets one.
\<close>

theorem pool_shutdown_drains:
  assumes "pool_reachable cfg p" and "0 < pc_pool_size cfg" and "pl_shutdown p = SD_join"
    and "pl_shutdown (pool_shutdown_step cfg expired p) = SD_closed" and "f < pl_nfut p"
    and "f \<notin> set (pl_admitted p)" and "f \<notin> set (pl_refused p)"
  shows "pl_queue p = [] \<and> pl_workers (pool_shutdown_step cfg expired p) = [] \<and>
    pl_busy (pool_shutdown_step cfg expired p) = [] \<and>
    (fut_done f p \<or> pl_task p f = T_fallback \<and> fut_done f (pool_step cfg (Pv_task f inp) p))"
proof (intro conjI)
  have u: "pl_unfinished p = 0" using assms(3,4) by (auto simp: pool_shutdown_step_def split: if_splits)
  have inv: "pool_inv cfg p" using pool_reachable_inv [OF assms(1,2)] .
  have counts: "0 = int (length (pl_queue p)) + tally pending p" using inv u by (simp add: pool_inv_def counts_ok_def)
  then show q: "pl_queue p = []" using tally_nonneg [of pending p] by (cases "pl_queue p") auto
  have "tally pending p = 0" using counts q by simp
  then have np: "\<not> pending (pl_task p f)" using tally_zero assms(5) by blast
  have "queued p = {}" using q by (simp add: queued_def seqs_def)
  then have "fut_done f p \<or> active (pl_task p f)"
    using inv assms(5-7) by (auto simp: pool_inv_def places_ok_def)
  then show "fut_done f p \<or> pl_task p f = T_fallback \<and> fut_done f (pool_step cfg (Pv_task f inp) p)"
    using np by (cases "pl_task p f") (auto simp: run_task_step_def fallback_step_def goto_def Let_def fut_done_def set_future_def)
  have "pl_workers (fold worker_shutdown ws x) = pl_workers x" "pl_busy (fold worker_shutdown ws x) = pl_busy x" for ws x
    by (induction ws arbitrary: x) (simp_all add: worker_shutdown_def upd_worker_def)
  then show "pl_workers (pool_shutdown_step cfg expired p) = []" "pl_busy (pool_shutdown_step cfg expired p) = []"
    using assms(3) u by (simp_all add: pool_shutdown_step_def del: fold_append)
qed

definition closing_run :: "pool_event list" where
  "closing_run =
     enter 5 0 @ launch @ steps 4 0 @ finish_job 0 @
     [Pv_shutdown True False, Pv_shutdown_step False, Pv_runner, Pv_runner, Pv_shutdown_step False]"

lemma closing_values:
  "(let p = pool_at 1 1 closing_run in
    (pl_shutdown p, pl_shutdown (pool_shutdown_step (small_pool 1 1) False p), pl_nfut p, pl_admitted p, pl_refused p, pl_task p 0)) =
   (SD_join, SD_closed, 1, [], [], T_end)"
  by code_simp

theorem pool_shutdown_drains_witness:
  "pl_workers (pool_shutdown_step (small_pool 1 1) False (pool_at 1 1 closing_run)) = [] \<and> fut_done 0 (pool_at 1 1 closing_run)"
  using pool_shutdown_drains [of "small_pool 1 1" "pool_at 1 1 closing_run" False 0 In_nothing] closing_values
  by (simp add: Let_def)

subsection \<open>Runs that end in a deadlock\<close>

definition all_blocked :: "pool_config \<Rightarrow> pool \<Rightarrow> bool" where
  "all_blocked cfg p \<longleftrightarrow> pool_step cfg Pv_runner p = p \<and> (\<forall>f inp. pool_step cfg (Pv_task f inp) p = p)"

lemma listed_phases:
  assumes "pool_reachable cfg p" and "0 < pc_pool_size cfg" and "\<forall>f \<in> set [0..<pl_nfut p]. pl_task p f \<in> S"
  shows "pl_task p f \<in> insert T_none S"
  using assms pool_reachable_inv [OF assms(1,2)]
  by (cases "f < pl_nfut p") (auto simp: pool_inv_def places_ok_def)

lemma all_blockedI:
  assumes "\<And>f. pl_task p f \<in> {T_none, T_end, T_take 9}" and "pl_workers p = []" and "runner_step cfg p = p"
  shows "all_blocked cfg p"
proof -
  have "thread_blocked inp p (pl_task p f)" for f inp using assms(1) [of f] assms(2) by auto
  then show ?thesis using assms(3) blocked_waits by (simp add: all_blocked_def)
qed

text \<open>
  With \<open>min_workers = 0\<close>: the first job returns its worker to a pool with another one and no backlog, so
  the worker is shut down.  Two more jobs see one idle worker and add none; one of them takes it, finishes,
  and again the worker is shut down: the other waits on an empty queue of workers.
\<close>

definition stranding_run :: "pool_event list" where
  "stranding_run =
     enter 0 0 @ launch @ steps 4 0 @ finish_job 0 @
     enter 0 1 @ launch @ enter 0 2 @ launch @ steps 2 1 @ steps 2 2 @ steps 2 1 @ finish_job 1 @ [Pv_runner]"

lemma stranding_values:
  "(let p = pool_at 2 0 stranding_run in
    (pl_unfinished p, pl_runner p, queue_get p = None, map (pl_task p) [0, 1, 2], pl_nfut p, pl_workers p, pl_busy p, fut_done 2 p)) =
   (1, R_get, True, [T_end, T_end, T_take 9], 3, [], [], False)"
  by code_simp

text \<open>
  (C36) A pool with \<open>min_workers = 0\<close> can strand a job: a run of two workers and three jobs ends with one
  job unfinished, no worker idle or busy, and no thread able to take a step.
\<close>

theorem min_workers_zero_strands_job:
  "\<exists>p. pool_reachable (small_pool 2 0) p \<and> all_blocked (small_pool 2 0) p \<and>
     pl_unfinished p = 1 \<and> \<not> fut_done 2 p \<and> pl_workers p = [] \<and> pl_busy p = []"
proof (intro exI conjI)
  let ?p = "pool_at 2 0 stranding_run"
  note v = stranding_values [unfolded Let_def prod.inject]
  have "pl_task ?p f \<in> {T_none, T_end, T_take 9}" for f
    using listed_phases [of "small_pool 2 0" ?p "{T_end, T_take 9}" f] v by (simp add: upt_rec numeral_2_eq_2)
  then show "all_blocked (small_pool 2 0) ?p"
    by (rule all_blockedI) (use v in \<open>simp_all add: runner_step_def\<close>)
qed (use stranding_values in \<open>simp_all add: Let_def\<close>)

text \<open>
  An exception of \<open>submit_job\<close> that \<open>run_task\<close> does not expect leaves through \<open>finally\<close> without
  \<open>done_with_process\<close>: the worker stays in the set of busy workers for good.
\<close>

definition leaking_run :: "pool_event list" where
  "leaking_run =
     enter 0 0 @ launch @ steps 5 0 @ [Pv_task 0 In_raises] @ steps 2 0 @ enter 0 1 @ launch @ steps 2 1"

lemma leaking_values:
  "(let p = pool_at 1 1 leaking_run in
    (pl_unfinished p, pl_runner p, pl_running_jobs p, map (pl_task p) [0, 1], pl_nfut p, pl_workers p, pl_busy p,
     wk_alive (pl_worker p 0), fu_state (pl_fut p 0), fut_done 1 p)) =
   (1, R_put, 1, [T_end, T_take 9], 2, [], [0], True, Fut_exception Process_error, False)"
  by code_simp

text \<open>
  An unexpected exception while a job is sent to its worker leaks the worker: it stays busy although
  no thread has it, the pool of one worker cannot run the next job any more, and the caller of the first
  sees the fallback exception instead of the error.
\<close>

theorem unexpected_error_leaks_worker:
  "\<exists>p. pool_reachable (small_pool 1 1) p \<and> all_blocked (small_pool 1 1) p \<and>
     pl_unfinished p = 1 \<and> \<not> fut_done 1 p \<and> pl_busy p = [0] \<and> wk_alive (pl_worker p 0) \<and>
     \<not> (\<exists>f. held (pl_task p f) = Some 0) \<and> fu_state (pl_fut p 0) = Fut_exception Process_error"
proof (intro exI conjI)
  let ?p = "pool_at 1 1 leaking_run"
  note v = leaking_values [unfolded Let_def prod.inject]
  have ph: "pl_task ?p f \<in> {T_none, T_end, T_take 9}" for f
    using listed_phases [of "small_pool 1 1" ?p "{T_end, T_take 9}" f] v by (simp add: upt_rec)
  then show "all_blocked (small_pool 1 1) ?p"
    by (rule all_blockedI) (use v in \<open>simp_all add: runner_step_def\<close>)
  show "\<not> (\<exists>f. held (pl_task ?p f) = Some 0)"
  proof
    assume "\<exists>f. held (pl_task ?p f) = Some 0"
    then obtain f where "held (pl_task ?p f) = Some 0" by blast
    then show False using ph [of f] by auto
  qed
qed (use leaking_values in \<open>simp_all add: Let_def\<close>)

text \<open>
  A submitter that has passed the closed check puts its job after the runner has taken the sentinel and
  left.
\<close>

definition late_run :: "pool_event list" where
  "late_run =
     [Pv_submit 0, Pv_shutdown True False, Pv_shutdown_step False, Pv_runner, Pv_runner, Pv_put 0 True, Pv_shutdown_step False]"

lemma late_values:
  "(let p = pool_at 1 1 late_run in
    (pl_unfinished p, pl_runner p, pl_task p 0, pl_nfut p, pl_shutdown p, fut_done 0 p)) =
   (1, R_exited, T_none, 1, SD_join, False)"
  by code_simp

text \<open>
  (C37) A submission that races with \<open>shutdown\<close> can hang it: a job put on the queue after the runner has
  left is never run and never cancelled, so the join of the queue never returns.
\<close>

theorem late_put_hangs_shutdown:
  "\<exists>p. pool_reachable (small_pool 1 1) p \<and> all_blocked (small_pool 1 1) p \<and> pl_shutdown p = SD_join \<and>
     pl_unfinished p = 1 \<and> \<not> fut_done 0 p \<and> (\<forall>expired. pool_step (small_pool 1 1) (Pv_shutdown_step expired) p = p)"
proof (intro exI conjI)
  let ?p = "pool_at 1 1 late_run"
  note v = late_values [unfolded Let_def prod.inject]
  have ph: "pl_task ?p f = T_none" for f
    using listed_phases [of "small_pool 1 1" ?p "{}" f] listed_phases [of "small_pool 1 1" ?p "{T_none}" f] v by simp
  then have "thread_blocked inp ?p (pl_task ?p f)" for f inp by simp
  then show "all_blocked (small_pool 1 1) ?p"
    using v blocked_waits by (simp add: all_blocked_def runner_step_def)
  show "\<forall>expired. pool_step (small_pool 1 1) (Pv_shutdown_step expired) ?p = ?p"
    using v by (simp add: pool_shutdown_step_def)
qed (use late_values in \<open>simp_all add: Let_def\<close>)

end
