(* ===== verification/PoolApi.thy ===== *)
theory PoolApi
  imports Pool
begin

text \<open>
  The edges of the local executor (\<open>_pool.py\<close>): its statistics, the process id of a future and its callback, and the
  end of a \<open>with\<close> block.
\<close>

subsection \<open>Statistics\<close>

definition reset_counters :: "pool \<Rightarrow> pool" where
  "reset_counters = bump (\<lambda>_. \<lparr>ps_received = 0, ps_launched = 0, ps_failed = 0, ps_created = 0, ps_max_busy = 0\<rparr>)"

definition to_dict :: "pool_stats \<Rightarrow> (string \<times> int) list" where
  "to_dict s =
     [(''tasks_received'', ps_received s), (''tasks_launched'', ps_launched s), (''tasks_failed'', ps_failed s),
      (''worker_processes_created'', ps_created s), (''max_workers_busy_concurrently'', ps_max_busy s)]"

text \<open>\<open>existing\<close> is the size of the weak set of worker objects, which the garbage collector decides.\<close>

definition pool_get_statistics :: "nat \<Rightarrow> pool \<Rightarrow> (string \<times> int) list" where
  "pool_get_statistics existing p =
     to_dict (pl_stats p) @
     [(''worker_processes_still_alive'', int existing), (''worker_processes_busy'', int (length (pl_busy p))),
      (''worker_processes_idle'', int (length (pl_workers p)))]"

text \<open>Reading twice gives the same, and a reset clears the counters but not what is counted now.\<close>

lemma reset_statistics:
  "map_of (pool_get_statistics n (reset_counters p)) ''tasks_received'' = Some 0"
  "map_of (pool_get_statistics n (reset_counters p)) ''tasks_failed'' = Some 0"
  "map_of (pool_get_statistics n (reset_counters p)) ''worker_processes_busy'' = map_of (pool_get_statistics n p) ''worker_processes_busy''"
  "map_of (pool_get_statistics n (reset_counters p)) ''worker_processes_idle'' = map_of (pool_get_statistics n p) ''worker_processes_idle''"
  by (simp_all add: pool_get_statistics_def reset_counters_def to_dict_def bump_def)

subsection \<open>The process id of a future\<close>

text \<open>\<open>fp_calls\<close> records the invocations of callbacks, each with the process id it finds.\<close>

record pid_state =
  fp_pid :: "nat option"
  fp_callback :: "nat option"
  fp_calls :: "(nat \<times> nat option) list"

definition pid_setter :: "nat option \<Rightarrow> pid_state \<Rightarrow> pid_state" where
  "pid_setter v s =
     (case fp_callback s of
        None \<Rightarrow> s\<lparr>fp_pid := v\<rparr>
      | Some fn \<Rightarrow> s\<lparr>fp_pid := v, fp_calls := fp_calls s @ [(fn, v)]\<rparr>)"

definition add_pid_callback :: "nat \<Rightarrow> pid_state \<Rightarrow> pid_state" where
  "add_pid_callback fn s =
     (let s' = s\<lparr>fp_callback := Some fn\<rparr>
      in if fp_pid s = None then s' else s'\<lparr>fp_calls := fp_calls s @ [(fn, fp_pid s)]\<rparr>)"

text \<open>Whether the callback comes before or after the process id, it is called once with that id.\<close>

lemma pid_callback_once:
  assumes "fp_pid s = None" and "fp_callback s = None"
  shows "fp_calls (pid_setter (Some w) (add_pid_callback fn s)) = fp_calls s @ [(fn, Some w)]"
    and "fp_calls (add_pid_callback fn (pid_setter (Some w) s)) = fp_calls s @ [(fn, Some w)]"
  using assms by (simp_all add: pid_setter_def add_pid_callback_def Let_def)

subsection \<open>The end of a with block\<close>

text \<open>\<open>__exit__\<close>: the configured values override the defaults \<open>wait=True\<close>, \<open>cancel_futures=False\<close> of \<open>shutdown\<close>.\<close>

definition pool_exit :: "bool option \<Rightarrow> bool option \<Rightarrow> pool \<Rightarrow> pool" where
  "pool_exit shutdown_wait shutdown_cancel_futures p =
     pool_shutdown_begin (case shutdown_wait of None \<Rightarrow> True | Some b \<Rightarrow> b)
       (case shutdown_cancel_futures of None \<Rightarrow> False | Some b \<Rightarrow> b) p"

end
