(* ===== verification/RemoteFuture.thy ===== *)
theory RemoteFuture
  imports Json
begin

text \<open>
  The failure taxonomy of the remote executor (\<open>remote/errors.py\<close>) and the client's view of one remote
  request (\<open>remote/_future.py\<close>): a future with an authoritative submission state, its callbacks, and what
  an error says about acceptance and execution.
\<close>

subsection \<open>Errors\<close>

datatype acceptance_certainty = NOT_ACCEPTED | ACCEPTED | UNKNOWN

datatype execution_certainty = NOT_STARTED | MAY_HAVE_RUN | COMPLETED

datatype error_class =
    Err_RemoteExecutorError
  | Err_RemoteExecutorUnavailable
  | Err_RemoteAuthenticationError
  | Err_RemoteCompatibilityError
  | Err_RemoteQueueFull
  | Err_RemoteSubmissionTimeout
  | Err_SubmissionOutcomeUnknown
  | Err_RemoteQueueTimeout
  | Err_RemoteTaskError
  | Err_RemoteResultEncodingError
  | Err_RemoteResultTooLarge
  | Err_RemoteCancellationOutcomeUnknown
  | Err_RemoteForkedProcessError
  | Err_RemoteProcessError
  | Err_RemoteCancelledError
  | Err_RemoteConnectionLost
  | Err_RemoteServerRestarted
  | Err_RemoteProtocolError
  | Err_RemoteResultLost

text \<open>The class each class inherits its defaults from, \<open>None\<close> for the base class.\<close>

fun base_class :: "error_class \<Rightarrow> error_class option" where
  "base_class Err_RemoteExecutorError = None"
| "base_class Err_RemoteCompatibilityError = Some Err_RemoteAuthenticationError"
| "base_class Err_RemoteSubmissionTimeout = Some Err_RemoteQueueFull"
| "base_class Err_RemoteResultEncodingError = Some Err_RemoteTaskError"
| "base_class Err_RemoteResultTooLarge = Some Err_RemoteTaskError"
| "base_class Err_RemoteServerRestarted = Some Err_RemoteConnectionLost"
| "base_class _ = Some Err_RemoteExecutorError"

text \<open>The class attributes written in the body of a class.\<close>

fun class_defaults :: "error_class \<Rightarrow> (acceptance_certainty \<times> execution_certainty) option" where
  "class_defaults Err_RemoteExecutorError = Some (UNKNOWN, MAY_HAVE_RUN)"
| "class_defaults Err_RemoteExecutorUnavailable = Some (NOT_ACCEPTED, NOT_STARTED)"
| "class_defaults Err_RemoteAuthenticationError = Some (NOT_ACCEPTED, NOT_STARTED)"
| "class_defaults Err_RemoteQueueFull = Some (NOT_ACCEPTED, NOT_STARTED)"
| "class_defaults Err_RemoteQueueTimeout = Some (ACCEPTED, NOT_STARTED)"
| "class_defaults Err_RemoteTaskError = Some (ACCEPTED, COMPLETED)"
| "class_defaults Err_RemoteProcessError = Some (ACCEPTED, MAY_HAVE_RUN)"
| "class_defaults Err_RemoteCancelledError = Some (ACCEPTED, NOT_STARTED)"
| "class_defaults Err_RemoteResultLost = Some (ACCEPTED, COMPLETED)"
| "class_defaults _ = None"

fun class_depth :: "error_class \<Rightarrow> nat" where
  "class_depth Err_RemoteExecutorError = 0"
| "class_depth c = (if base_class c = Some Err_RemoteExecutorError then 1 else 2)"

text \<open>Attribute lookup along the base classes.\<close>

function error_defaults :: "error_class \<Rightarrow> acceptance_certainty \<times> execution_certainty" where
  "error_defaults c =
     (case class_defaults c of
        Some d \<Rightarrow> d
      | None \<Rightarrow> (case base_class c of None \<Rightarrow> (UNKNOWN, MAY_HAVE_RUN) | Some b \<Rightarrow> error_defaults b))"
  by pat_completeness auto

termination
proof (relation "measure class_depth")
  show "(b, c) \<in> measure class_depth" if "base_class c = Some b" for b c
    using that by (cases c) auto
qed simp

declare error_defaults.simps [simp del]

record remote_error =
  er_class :: error_class
  er_request_id :: "pystr option"
  er_acceptance :: acceptance_certainty
  er_execution :: execution_certainty

definition make_error ::
    "error_class \<Rightarrow> pystr option \<Rightarrow> (acceptance_certainty \<times> execution_certainty) option \<Rightarrow> remote_error" where
  "make_error cls rid certainty =
     (let d = (case certainty of None \<Rightarrow> error_defaults cls | Some d \<Rightarrow> d)
      in \<lparr>er_class = cls, er_request_id = rid, er_acceptance = fst d, er_execution = snd d\<rparr>)"

subsection \<open>Futures\<close>

datatype submission_state =
    LOCAL_PENDING | SENT_UNACKNOWLEDGED | ACCEPTED_QUEUED | RUNNING | SUCCEEDED | TASK_FAILED | CANCELLED | FAILED

text \<open>
  What a future ends with: a decoded value or exception (numbered, of any class), a remote error the client has made, a remote error
  the serializer has raised, or Deadpool's timeout.
\<close>

datatype failure = Task_exception nat | Remote_failure remote_error | Serializer_error remote_error | Deadpool_timeout

datatype base_future = Bf_pending | Bf_cancelled | Bf_result nat | Bf_exception failure

record remote_future =
  rf_request_id :: pystr
  rf_state :: submission_state
  rf_base :: base_future
  rf_pid :: json
  rf_worker_id :: json
  rf_callbacks :: "nat list"

definition new_future :: "pystr \<Rightarrow> remote_future" where
  "new_future rid =
     \<lparr>rf_request_id = rid, rf_state = LOCAL_PENDING, rf_base = Bf_pending, rf_pid = JNull, rf_worker_id = JNull,
      rf_callbacks = []\<rparr>"

definition rf_done :: "remote_future \<Rightarrow> bool" where
  "rf_done x \<longleftrightarrow> rf_base x \<noteq> Bf_pending"

definition rf_running :: "remote_future \<Rightarrow> bool" where
  "rf_running x \<longleftrightarrow> rf_state x = RUNNING \<and> \<not> rf_done x"

definition set_sent :: "remote_future \<Rightarrow> remote_future \<times> bool" where
  "set_sent x = (if rf_done x then (x, False) else (x\<lparr>rf_state := SENT_UNACKNOWLEDGED\<rparr>, True))"

definition set_accepted :: "remote_future \<Rightarrow> remote_future" where
  "set_accepted x = (if rf_done x then x else x\<lparr>rf_state := ACCEPTED_QUEUED\<rparr>)"

definition set_running :: "json \<Rightarrow> json \<Rightarrow> remote_future \<Rightarrow> remote_future" where
  "set_running pid worker x =
     (if rf_done x then x else x\<lparr>rf_pid := pid, rf_worker_id := worker, rf_state := RUNNING\<rparr>)"

definition set_result :: "nat \<Rightarrow> remote_future \<Rightarrow> remote_future" where
  "set_result v x = (if rf_done x then x else x\<lparr>rf_state := SUCCEEDED, rf_base := Bf_result v\<rparr>)"

definition set_exception :: "failure \<Rightarrow> bool \<Rightarrow> remote_future \<Rightarrow> remote_future" where
  "set_exception e task x =
     (if rf_done x then x
      else x\<lparr>rf_state := (if task then TASK_FAILED else FAILED), rf_base := Bf_exception e\<rparr>)"

definition set_cancelled :: "remote_future \<Rightarrow> remote_future" where
  "set_cancelled x = (if rf_done x then x else x\<lparr>rf_state := CANCELLED, rf_base := Bf_cancelled\<rparr>)"

text \<open>
  The local part of \<open>cancel\<close>: the answer when it needs no server, \<open>None\<close> when the client has to ask.
\<close>

definition cancel_local :: "remote_future \<Rightarrow> remote_future \<times> bool option" where
  "cancel_local x =
     (if rf_done x then (x, Some False)
      else if rf_state x = LOCAL_PENDING then (set_cancelled x, Some True)
      else (x, None))"

text \<open>\<open>_dispatch_callbacks\<close> takes the registered callbacks; a callback added later runs at once.\<close>

definition take_callbacks :: "remote_future \<Rightarrow> remote_future \<times> nat list" where
  "take_callbacks x = (x\<lparr>rf_callbacks := []\<rparr>, rf_callbacks x)"

definition add_done_callback :: "nat \<Rightarrow> remote_future \<Rightarrow> remote_future \<times> bool" where
  "add_done_callback cb x =
     (if rf_done x then (x, True) else (x\<lparr>rf_callbacks := rf_callbacks x @ [cb]\<rparr>, False))"

subsection \<open>The state of a future\<close>

text \<open>The submission state and the result of the base class always agree.\<close>

definition future_ok :: "remote_future \<Rightarrow> bool" where
  "future_ok x \<longleftrightarrow>
     (case rf_base x of
        Bf_pending \<Rightarrow> rf_state x \<in> {LOCAL_PENDING, SENT_UNACKNOWLEDGED, ACCEPTED_QUEUED, RUNNING}
      | Bf_cancelled \<Rightarrow> rf_state x = CANCELLED
      | Bf_result v \<Rightarrow> rf_state x = SUCCEEDED
      | Bf_exception e \<Rightarrow> rf_state x \<in> {TASK_FAILED, FAILED})"

lemmas future_defs = set_sent_def set_accepted_def set_running_def set_result_def set_exception_def set_cancelled_def
  cancel_local_def take_callbacks_def add_done_callback_def

text \<open>How a future may change: its identity stays, a finished future keeps its result and state.\<close>

definition future_evolves :: "remote_future \<Rightarrow> remote_future \<Rightarrow> bool" where
  "future_evolves x y \<longleftrightarrow>
     rf_request_id y = rf_request_id x \<and> (rf_done x \<longrightarrow> rf_base y = rf_base x \<and> rf_state y = rf_state x) \<and>
     (rf_state y = LOCAL_PENDING \<longrightarrow> rf_state x = LOCAL_PENDING) \<and> (future_ok x \<longrightarrow> future_ok y)"

lemma future_evolves_refl [simp]: "future_evolves x x"
  by (simp add: future_evolves_def)

lemma future_evolves_trans: "future_evolves x y \<Longrightarrow> future_evolves y z \<Longrightarrow> future_evolves x z"
  by (auto simp: future_evolves_def rf_done_def)

lemma future_evolves_ops [simp]:
  "future_evolves x (fst (set_sent x))" "future_evolves x (set_accepted x)" "future_evolves x (set_running p w x)"
  "future_evolves x (set_result v x)" "future_evolves x (set_exception e t x)" "future_evolves x (set_cancelled x)"
  "future_evolves x (fst (cancel_local x))" "future_evolves x (fst (take_callbacks x))"
  "future_evolves x (fst (add_done_callback cb x))" "future_evolves x (x\<lparr>rf_callbacks := cbs\<rparr>)"
  by (auto simp: future_defs future_evolves_def future_ok_def rf_done_def split: base_future.splits)

lemma terminal_ops [simp]:
  "rf_done (set_result v x)" "rf_done (set_exception e t x)" "rf_done (set_cancelled x)"
  by (auto simp: future_defs rf_done_def)

lemma error_defaults_derived [simp]:
  "error_defaults Err_RemoteExecutorUnavailable = (NOT_ACCEPTED, NOT_STARTED)"
  "error_defaults Err_SubmissionOutcomeUnknown = (UNKNOWN, MAY_HAVE_RUN)"
  "error_defaults Err_RemoteCompatibilityError = (NOT_ACCEPTED, NOT_STARTED)"
  "error_defaults Err_RemoteSubmissionTimeout = (NOT_ACCEPTED, NOT_STARTED)"
  by (simp_all add: error_defaults.simps)

end
