(* ===== verification/Client.thy ===== *)
theory Client
  imports RemoteFuture Protocol
begin

text \<open>
  The client of a remote pool (\<open>remote/client.py\<close>): registration and sending of requests, the sender and
  receiver threads, the completion lane, the loss of the connection, remote procedure calls and shutdown.

  As in the model of the local executor, each thread has a program counter and one event is one step of
  one thread up to its next access to shared state.  Futures are numbered in the order of registration.
\<close>

subsection \<open>Configuration and the handshake\<close>

text \<open>
  What \<open>serializer.loads\<close> answers: a value, an exception object, an error of its own, or a raised
  \<open>RemoteExecutorError\<close>.  Values and exception objects are numbered.
\<close>

datatype loaded = Ld_value nat | Ld_exception nat | Ld_raises | Ld_raises_remote remote_error

record client_config =
  cc_limits :: remote_limits
  cc_client_id :: pystr
  cc_serializer_name :: pystr
  cc_serializer_protocol :: json
  cc_python :: "int \<times> int"
  cc_implementation :: pystr
  cc_version :: pystr
  cc_application_fingerprint :: "pystr option"
  cc_registry_fingerprint :: "pystr option"
  cc_authentication :: json
  cc_sha256 :: "bytes \<Rightarrow> pystr"
  cc_dumps :: "control \<Rightarrow> bytes"
  cc_loads :: "bytes \<Rightarrow> loaded"

definition wire_name :: json where
  "wire_name = J ''experimental-deadpool-private-v1''"

definition client_hello :: "client_config \<Rightarrow> message" where
  "client_hello cfg =
     \<lparr>msg_kind = M_HELLO, msg_control = ctl
        [(''versions'', JList [JList [JInt (int proto_major), JInt (int proto_minor)]]),
         (''features'', JList [J ''chunking'']),
         (''wire'', wire_name),
         (''client_instance_id'', JStr (cc_client_id cfg)),
         (''serializer'', JStr (cc_serializer_name cfg)),
         (''serializer_protocol'', cc_serializer_protocol cfg),
         (''python'', JList [JInt (fst (cc_python cfg)), JInt (snd (cc_python cfg))]),
         (''implementation'', JStr (cc_implementation cfg)),
         (''deadpool_version'', JStr (cc_version cfg)),
         (''capabilities'', JList [J ''callable'', J ''registered'']),
         (''application_fingerprint'', opt_json (cc_application_fingerprint cfg)),
         (''registry_fingerprint'', opt_json (cc_registry_fingerprint cfg)),
         (''authentication'', cc_authentication cfg),
         (''max_result_bytes'', JInt (max_result_bytes (cc_limits cfg))),
         (''wire_limits'', JDict (wire_limits (cc_limits cfg)))], msg_payload = []\<rparr>"

text \<open>The answer to the \<open>HELLO\<close>: the class of the error raised, or the wire limits of the server.\<close>

definition check_welcome :: "client_config \<Rightarrow> message \<Rightarrow> error_class + control" where
  "check_welcome cfg m =
     (if msg_kind m = M_HANDSHAKE_REJECTED
      then Inl (if jget (msg_control m) ''reason'' = J ''authentication''
                then Err_RemoteAuthenticationError else Err_RemoteCompatibilityError)
      else if msg_kind m \<noteq> M_WELCOME then Inl Err_RemoteProtocolError
      else if jget (msg_control m) ''wire'' \<noteq> wire_name then Inl Err_RemoteCompatibilityError
      else case validate_wire_limits (jget (msg_control m) ''wire_limits'') of
             Inl _ \<Rightarrow> Inl Err_RemoteProtocolError
           | Inr server_limits \<Rightarrow>
               if \<not> same_dict server_limits (wire_limits (cc_limits cfg)) then Inl Err_RemoteCompatibilityError
               else Inr server_limits)"

subsection \<open>Submission options\<close>

record submission_options =
  so_priority :: pyval
  so_execution_timeout :: pyval
  so_queue_timeout :: pyval
  so_submission_timeout :: pyval
  so_group_id :: pyval
  so_metadata :: json

definition is_number :: "pyval \<Rightarrow> bool" where
  "is_number v \<longleftrightarrow> \<not> is_bool v \<and> (is_int v \<or> is_float v)"

definition positive_timeout :: "pyval \<Rightarrow> string \<Rightarrow> unit result" where
  "positive_timeout v name =
     (if \<not> is_number v \<or> \<not> num_isfinite v \<or> num_le0 v
      then Inl (ValueError (name @ '' must be finite and greater than zero'')) else Inr ())"

definition optional_timeout :: "pyval \<Rightarrow> string \<Rightarrow> unit result" where
  "optional_timeout v name =
     (if v \<noteq> VNone \<and> (\<not> is_number v \<or> \<not> num_isfinite v \<or> num_lt0 v)
      then Inl (ValueError (name @ '' must be finite and non-negative'')) else Inr ())"

definition check_group :: "pyval \<Rightarrow> unit result" where
  "check_group v =
     (case v of
        VNone \<Rightarrow> Inr ()
      | VStr s \<Rightarrow> if s = [] then Inl (ValueError ''deadpool_group_id must be non-empty'') else Inr ()
      | _ \<Rightarrow> Inl (TypeError ''deadpool_group_id must be a string or None''))"

definition check_options :: "submission_options \<Rightarrow> unit result" where
  "check_options opts = first_error
     [optional_timeout (so_execution_timeout opts) ''execution_timeout'',
      optional_timeout (so_queue_timeout opts) ''queue_timeout'',
      positive_timeout (so_submission_timeout opts) ''submission_timeout'',
      check_group (so_group_id opts),
      check (json_dict (so_metadata opts) \<noteq> None) (TypeError ''deadpool_metadata must be a dict''),
      check (is_int (so_priority opts) \<and> \<not> is_bool (so_priority opts) \<and> \<not> num_lt0 (so_priority opts))
        (ValueError ''deadpool_priority must be a non-negative integer'')]"

fun json_of :: "pyval \<Rightarrow> json" where
  "json_of VNone = JNull"
| "json_of (VBool b) = JBool b"
| "json_of (VInt i) = JInt i"
| "json_of (VFloat f) = JFloat f"
| "json_of (VStr s) = JStr s"
| "json_of VOther = JOther"

subsection \<open>State\<close>

text \<open>What the completion lane is asked to do for a future.\<close>

datatype completion =
    L_accepted nat
  | L_running nat json json
  | L_complete nat message
  | L_reject nat control
  | L_fail nat remote_error

datatype sender_phase =
    S_get
  | S_have message "nat option"
  | S_sock message "nat option"
  | S_write message "nat option"
  | S_lost
  | S_exit

datatype receiver_phase =
    R_top
  | R_read
  | R_term nat message
  | R_item completion
  | R_lost
  | R_exit

datatype lane_phase = Ln_idle | Ln_ack nat | Ln_lost nat | Ln_forget nat

datatype client_shutdown = Sh_open | Sh_wait "nat list" | Sh_close | Sh_stop | Sh_socket | Sh_drain nat | Sh_done

record rpc_cell =
  rc_event :: bool
  rc_response :: control
  rc_transport_error :: bool
  rc_future :: "nat option"

text \<open>
  \<open>cl_putting\<close> are the registered futures whose message is not yet on the outbound queue, \<open>cl_message\<close> is
  the message of each future; \<open>cl_loss\<close> and \<open>cl_loss_item\<close> are the rest of the loop of \<open>_connection_lost\<close>, run by
  the thread that entered it.  \<open>cl_handed\<close> records the futures whose message was handed to the socket,
  \<open>cl_heard\<close> those for which the server has announced acceptance, and \<open>cl_called\<close> the callbacks handed to
  the callback executor; the code has no use for the three.
\<close>

record client =
  cl_closed :: bool
  cl_transport_failed :: bool
  cl_socket :: bool
  cl_sequence :: nat
  cl_fut :: "nat \<Rightarrow> remote_future"
  cl_nfut :: nat
  cl_futures :: "(pystr, nat) dict"
  cl_message :: "nat \<Rightarrow> message"
  cl_putting :: "nat list"
  cl_outbound :: "(message option \<times> nat option) list"
  cl_terminal_received :: "pystr list"
  cl_sender :: sender_phase
  cl_receiver :: receiver_phase
  cl_lane :: "completion list"
  cl_lane_phase :: lane_phase
  cl_slots :: nat
  cl_loss :: "nat list"
  cl_loss_item :: "completion option"
  cl_rpc :: "(pystr, nat) dict"
  cl_cell :: "nat \<Rightarrow> rpc_cell"
  cl_ncell :: nat
  cl_shutdown :: client_shutdown
  cl_handed :: "nat list"
  cl_heard :: "nat list"
  cl_called :: "(nat list \<times> nat) list"

definition upd_future :: "nat \<Rightarrow> (remote_future \<Rightarrow> remote_future) \<Rightarrow> client \<Rightarrow> client" where
  "upd_future f g c = c\<lparr>cl_fut := (cl_fut c)(f := g (cl_fut c f))\<rparr>"

text \<open>\<open>_dispatch_callbacks\<close>: the callbacks go to the dispatcher, which runs each of them once.\<close>

definition dispatch_callbacks :: "nat \<Rightarrow> client \<Rightarrow> client" where
  "dispatch_callbacks f c =
     (case take_callbacks (cl_fut c f) of
        (x, []) \<Rightarrow> c
      | (x, cbs) \<Rightarrow> (upd_future f (\<lambda>_. x) c)\<lparr>cl_called := cl_called c @ [(cbs, f)]\<rparr>)"

text \<open>The terminal setters return at once on a finished future.\<close>

definition finish :: "nat \<Rightarrow> (remote_future \<Rightarrow> remote_future) \<Rightarrow> client \<Rightarrow> client" where
  "finish f g c = (if rf_done (cl_fut c f) then c else dispatch_callbacks f (upd_future f g c))"

definition forget :: "nat \<Rightarrow> client \<Rightarrow> client" where
  "forget f c = c\<lparr>cl_futures := AList.delete (rf_request_id (cl_fut c f)) (cl_futures c)\<rparr>"

definition outbound_full :: "client_config \<Rightarrow> client \<Rightarrow> bool" where
  "outbound_full cfg c \<longleftrightarrow> int (length (cl_outbound c)) \<ge> outbound_queue_size (cc_limits cfg)"

definition put_outbound :: "message option \<Rightarrow> nat option \<Rightarrow> client \<Rightarrow> client" where
  "put_outbound m f c = c\<lparr>cl_outbound := cl_outbound c @ [(m, f)]\<rparr>"

subsection \<open>Submission\<close>

datatype submit_failure =
    Submit_closed | Submit_option exn | Submit_serialization | Submit_timeout | Submit_unavailable | Submit_control exn

text \<open>The answer of \<open>_serialize_invocation\<close>.\<close>

datatype serialized = Ser_bytes bytes | Ser_timeout | Ser_raises

definition submit_control :: "client_config \<Rightarrow> pystr \<Rightarrow> pystr option \<Rightarrow> submission_options \<Rightarrow> bytes \<Rightarrow> control" where
  "submit_control cfg request_id operation opts payload =
     ctl [(''request_id'', JStr request_id),
          (''digest'', JStr (cc_sha256 cfg payload)),
          (''mode'', J (if operation = None then ''callable'' else ''registered'')),
          (''operation'', opt_json operation),
          (''priority'', json_of (so_priority opts)),
          (''execution_timeout'', json_of (so_execution_timeout opts)),
          (''queue_timeout'', json_of (so_queue_timeout opts)),
          (''group_id'', json_of (so_group_id opts)),
          (''metadata'', so_metadata opts)]"

definition request_id_of :: "client_config \<Rightarrow> nat \<Rightarrow> pystr" where
  "request_id_of cfg n = cc_client_id cfg @ lit '':'' @ nat_digits n"

text \<open>\<open>_submit\<close> up to the registration of the future; \<open>operation\<close> is the name given to \<open>submit_task\<close>.\<close>

definition submit_register ::
    "client_config \<Rightarrow> pystr option \<Rightarrow> submission_options \<Rightarrow> serialized \<Rightarrow> client \<Rightarrow> client \<times> (submit_failure + nat)" where
  "submit_register cfg operation opts ser c =
     (if operation = Some [] then (c, Inl (Submit_option (ValueError ''operation must be a non-empty string'')))
      else if cl_closed c then (c, Inl Submit_closed)
      else case check_options opts of
        Inl e \<Rightarrow> (c, Inl (Submit_option e))
      | Inr _ \<Rightarrow>
        (case ser of
           Ser_timeout \<Rightarrow> (c, Inl Submit_timeout)
         | Ser_raises \<Rightarrow> (c, Inl Submit_serialization)
         | Ser_bytes payload \<Rightarrow>
             if cl_transport_failed c \<or> \<not> cl_socket c then (c, Inl Submit_unavailable)
             else let n = Suc (cl_sequence c); f = cl_nfut c; rid = request_id_of cfg n
                  in (c\<lparr>cl_sequence := n,
                        cl_fut := (cl_fut c)(f := new_future rid),
                        cl_nfut := Suc f,
                        cl_futures := AList.update rid f (cl_futures c),
                        cl_message := (cl_message c)(f :=
                          \<lparr>msg_kind = M_SUBMIT, msg_control = submit_control cfg rid operation opts payload, msg_payload = payload\<rparr>),
                        cl_putting := f # cl_putting c\<rparr>, Inr f)))"

text \<open>
  The rest of \<open>_submit\<close>: \<open>late\<close> says that the deadline has passed before the put, \<open>expired\<close> that the put has
  waited until the deadline on a full queue.
\<close>

definition client_submit_put :: "client_config \<Rightarrow> nat \<Rightarrow> bool \<Rightarrow> bool \<Rightarrow> client \<Rightarrow> client" where
  "client_submit_put cfg f late expired c =
     (if f \<notin> set (cl_putting c) then c
      else let gone = forget f (c\<lparr>cl_putting := remove1 f (cl_putting c)\<rparr>)
      in case validate_control (cc_dumps cfg) (msg_control (cl_message c f)) (cc_limits cfg) of
           Inl _ \<Rightarrow> gone
         | Inr _ \<Rightarrow>
             if late then gone
             else if outbound_full cfg c then (if expired then gone else c)
             else put_outbound (Some (cl_message c f)) (Some f) (c\<lparr>cl_putting := remove1 f (cl_putting c)\<rparr>))"

subsection \<open>The loss of the connection\<close>

definition fail_cells :: "nat list \<Rightarrow> (nat \<Rightarrow> rpc_cell) \<Rightarrow> nat \<Rightarrow> rpc_cell" where
  "fail_cells ks cell = (\<lambda>k. if k \<in> set ks then (cell k)\<lparr>rc_transport_error := True, rc_event := True\<rparr> else cell k)"

text \<open>The locked part of \<open>_connection_lost\<close>, and whether the caller has to run the loop.\<close>

definition connection_lost :: "client \<Rightarrow> client \<times> bool" where
  "connection_lost c =
     (if cl_transport_failed c then (c, False)
      else (c\<lparr>cl_transport_failed := True, cl_socket := False, cl_loss := map snd (cl_futures c),
              cl_cell := fail_cells (map snd (cl_rpc c)) (cl_cell c), cl_rpc := []\<rparr>, True))"

text \<open>What the loop decides for a future from its submission state.\<close>

definition loss_error :: "remote_future \<Rightarrow> remote_error" where
  "loss_error x =
     (case rf_state x of
        LOCAL_PENDING \<Rightarrow> make_error Err_RemoteExecutorUnavailable (Some (rf_request_id x)) None
      | SENT_UNACKNOWLEDGED \<Rightarrow> make_error Err_SubmissionOutcomeUnknown (Some (rf_request_id x)) None
      | _ \<Rightarrow> make_error Err_RemoteConnectionLost (Some (rf_request_id x)) (Some (ACCEPTED, MAY_HAVE_RUN)))"

text \<open>
  \<open>_schedule_completion\<close> waits for a slot of the lane.  The executor behind the lane accepts until \<open>_finish_shutdown\<close> closes it; the
  branch for its \<open>RuntimeError\<close>, in which the caller gives the slot back and runs the completion itself, is left out, and the lane runs
  such a completion here.
\<close>

definition schedule_completion :: "completion \<Rightarrow> client \<Rightarrow> client option" where
  "schedule_completion item c =
     (if cl_slots c = 0 then None else Some (c\<lparr>cl_slots := cl_slots c - 1, cl_lane := cl_lane c @ [item]\<rparr>))"

text \<open>One step of the loop, and whether it has ended.\<close>

definition loss_step :: "client \<Rightarrow> client \<times> bool" where
  "loss_step c =
     (case cl_loss_item c of
        Some item \<Rightarrow>
          (case schedule_completion item c of
             None \<Rightarrow> (c, False)
           | Some c' \<Rightarrow> (c'\<lparr>cl_loss_item := None\<rparr>, False))
      | None \<Rightarrow>
          (case cl_loss c of
             [] \<Rightarrow> (c, True)
           | f # fs \<Rightarrow>
               if rf_done (cl_fut c f) \<or> rf_request_id (cl_fut c f) \<in> set (cl_terminal_received c)
               then (c\<lparr>cl_loss := fs\<rparr>, False)
               else (c\<lparr>cl_loss := fs, cl_loss_item := Some (L_fail f (loss_error (cl_fut c f)))\<rparr>, False)))"

subsection \<open>The sender\<close>

definition sender_failed :: "client \<Rightarrow> client" where
  "sender_failed c = (case connection_lost c of (c', entered) \<Rightarrow> c'\<lparr>cl_sender := (if entered then S_lost else S_exit)\<rparr>)"

text \<open>One step of \<open>_sender_loop\<close>; \<open>sent\<close> says whether \<open>send_message\<close> has returned.\<close>

definition sender_step :: "bool \<Rightarrow> client \<Rightarrow> client" where
  "sender_step sent c =
     (case cl_sender c of
        S_get \<Rightarrow>
          (case cl_outbound c of
             [] \<Rightarrow> c
           | (None, _) # rest \<Rightarrow> c\<lparr>cl_outbound := rest, cl_sender := S_exit\<rparr>
           | (Some m, fo) # rest \<Rightarrow> c\<lparr>cl_outbound := rest, cl_sender := S_have m fo\<rparr>)
      | S_have m fo \<Rightarrow>
          (case fo of
             None \<Rightarrow> c\<lparr>cl_sender := S_sock m None\<rparr>
           | Some f \<Rightarrow>
               (case set_sent (cl_fut c f) of
                  (x, ok) \<Rightarrow>
                    if ok then (upd_future f (\<lambda>_. x) c)\<lparr>cl_sender := S_sock m fo\<rparr>
                    else (forget f c)\<lparr>cl_sender := S_get\<rparr>))
      | S_sock m fo \<Rightarrow>
          if cl_socket c
          then c\<lparr>cl_sender := S_write m fo, cl_handed := (case fo of None \<Rightarrow> cl_handed c | Some f \<Rightarrow> f # cl_handed c)\<rparr>
          else sender_failed c
      | S_write m fo \<Rightarrow> if sent then c\<lparr>cl_sender := S_get\<rparr> else sender_failed c
      | S_lost \<Rightarrow> (case loss_step c of (c', ended) \<Rightarrow> if ended then c'\<lparr>cl_sender := S_exit\<rparr> else c')
      | S_exit \<Rightarrow> c)"

subsection \<open>The receiver\<close>

definition terminal_kinds :: "message_type list" where
  "terminal_kinds =
     [M_RESULT, M_TASK_ERROR, M_TIMED_OUT, M_CANCELLED, M_WORKER_LOST, M_RESULT_ENCODING_FAILED, M_RESULT_TOO_LARGE,
      M_QUEUE_TIMED_OUT]"

definition response_kinds :: "message_type list" where
  "response_kinds =
     [M_CANCEL_RESPONSE, M_CANCEL_GROUP_RESPONSE, M_STATUS_RESPONSE, M_STATS_RESPONSE, M_PONG, M_CLOSE_SESSION_RESPONSE]"

text \<open>\<open>message.control.get("token") or message.control.get("nonce")\<close>, when it is a string.\<close>

definition response_token :: "control \<Rightarrow> pystr option" where
  "response_token control =
     (let falsy = (\<lambda>v. v \<in> {JNull, JBool False, JInt 0, JFloat (Finite 0), JStr [], JList [], JDict []});
          v = (if falsy (jget control ''token'') then jget control ''nonce'' else jget control ''token'')
      in json_str v)"

definition rpc_response :: "message \<Rightarrow> client \<Rightarrow> client" where
  "rpc_response m c =
     (case response_token (msg_control m) of
        None \<Rightarrow> c
      | Some token \<Rightarrow>
          (case map_of (cl_rpc c) token of
             None \<Rightarrow> c
           | Some k \<Rightarrow>
               c\<lparr>cl_rpc := AList.delete token (cl_rpc c),
                 cl_cell := (cl_cell c)(k := (cl_cell c k)\<lparr>rc_event := True, rc_response := msg_control m\<rparr>)\<rparr>))"

definition receiver_failed :: "receiver_phase \<Rightarrow> client \<Rightarrow> client" where
  "receiver_failed next c =
     (case connection_lost c of (c', entered) \<Rightarrow> c'\<lparr>cl_receiver := (if entered then R_lost else next)\<rparr>)"

text \<open>\<open>_receive\<close>, up to the scheduling of a completion.\<close>

definition receive_message :: "message \<Rightarrow> client \<Rightarrow> client" where
  "receive_message m c =
     (let known = (case json_str (jget (msg_control m) ''request_id'') of
                     None \<Rightarrow> None | Some rid \<Rightarrow> map_of (cl_futures c) rid);
          c' = c\<lparr>cl_receiver := R_top\<rparr>
      in if msg_kind m = M_ACCEPTED \<and> known \<noteq> None
         then c\<lparr>cl_receiver := R_item (L_accepted (the known)), cl_heard := the known # cl_heard c\<rparr>
         else if msg_kind m = M_RUNNING \<and> known \<noteq> None
         then c\<lparr>cl_receiver := R_item (L_running (the known) (jget (msg_control m) ''pid'') (jget (msg_control m) ''worker_id'')),
                cl_heard := the known # cl_heard c\<rparr>
         else if msg_kind m \<in> set terminal_kinds \<and> known \<noteq> None
         then c\<lparr>cl_receiver := R_term (the known) m\<rparr>
         else if msg_kind m = M_REJECTED \<and> known \<noteq> None
         then c\<lparr>cl_receiver := R_item (L_reject (the known) (msg_control m))\<rparr>
         else if msg_kind m \<in> set response_kinds then rpc_response m c'
         else if msg_kind m \<in> {M_GOAWAY, M_PROTOCOL_ERROR, M_HANDSHAKE_REJECTED} then receiver_failed R_top c
         else c')"

text \<open>One step of \<open>_receiver_loop\<close>; the network delivers a message or an error.\<close>

definition receiver_step :: "message option \<Rightarrow> client \<Rightarrow> client" where
  "receiver_step arrival c =
     (case cl_receiver c of
        R_top \<Rightarrow> c\<lparr>cl_receiver := (if cl_socket c then R_read else R_exit)\<rparr>
      | R_read \<Rightarrow> (case arrival of Some m \<Rightarrow> receive_message m c | None \<Rightarrow> receiver_failed R_exit c)
      | R_term f m \<Rightarrow>
          c\<lparr>cl_terminal_received := rf_request_id (cl_fut c f) # cl_terminal_received c,
            cl_receiver := R_item (L_complete f m)\<rparr>
      | R_item item \<Rightarrow>
          (case schedule_completion item c of None \<Rightarrow> c | Some c' \<Rightarrow> c'\<lparr>cl_receiver := R_top\<rparr>)
      | R_lost \<Rightarrow> (case loss_step c of (c', ended) \<Rightarrow> if ended then c'\<lparr>cl_receiver := R_top\<rparr> else c')
      | R_exit \<Rightarrow> c)"

subsection \<open>The completion lane\<close>

definition task_error :: "client_config \<Rightarrow> pystr \<Rightarrow> message \<Rightarrow> failure" where
  "task_error cfg rid m =
     (let plain = Remote_failure (make_error Err_RemoteTaskError (Some rid) None)
      in if msg_payload m = [] then plain
         else case cc_loads cfg (msg_payload m) of Ld_exception n \<Rightarrow> Task_exception n | _ \<Rightarrow> plain)"

text \<open>The body of \<open>_complete\<close> before its \<open>finally\<close>: what a terminal message does to its future.\<close>

definition outcome :: "client_config \<Rightarrow> pystr \<Rightarrow> message \<Rightarrow> (remote_future \<Rightarrow> remote_future) option" where
  "outcome cfg rid m =
     (let failed = (\<lambda>e. Some (set_exception e False));
          remote = (\<lambda>cls. failed (Remote_failure (make_error cls (Some rid) None)));
          kind = msg_kind m
      in if kind = M_RESULT
         then (case cc_loads cfg (msg_payload m) of
                 Ld_value v \<Rightarrow> Some (set_result v)
               | Ld_exception v \<Rightarrow> Some (set_result v)
               | Ld_raises \<Rightarrow> remote Err_RemoteProtocolError
               | Ld_raises_remote e \<Rightarrow> failed (Serializer_error e))
         else if kind = M_TASK_ERROR then Some (set_exception (task_error cfg rid m) True)
         else if kind = M_TIMED_OUT then failed Deadpool_timeout
         else if kind = M_CANCELLED then Some set_cancelled
         else if kind = M_QUEUE_TIMED_OUT then remote Err_RemoteQueueTimeout
         else if kind = M_WORKER_LOST then remote Err_RemoteProcessError
         else if kind = M_RESULT_ENCODING_FAILED then remote Err_RemoteResultEncodingError
         else if kind = M_RESULT_TOO_LARGE then remote Err_RemoteResultTooLarge
         else None)"

definition complete :: "client_config \<Rightarrow> nat \<Rightarrow> message \<Rightarrow> client \<Rightarrow> client" where
  "complete cfg f m c = (case outcome cfg (rf_request_id (cl_fut c f)) m of None \<Rightarrow> c | Some g \<Rightarrow> finish f g c)"

definition reject_error :: "pystr \<Rightarrow> control \<Rightarrow> remote_error" where
  "reject_error rid control =
     (if jget control ''reason'' = J ''queue_full'' then make_error Err_RemoteQueueFull (Some rid) None
      else if jget control ''reason'' = J ''queue_timeout'' then make_error Err_RemoteQueueTimeout (Some rid) None
      else make_error Err_RemoteExecutorError (Some rid) (Some (NOT_ACCEPTED, NOT_STARTED)))"

definition release_slot :: "client \<Rightarrow> client" where
  "release_slot c = c\<lparr>cl_slots := Suc (cl_slots c), cl_lane_phase := Ln_idle\<rparr>"

definition run_completion :: "client_config \<Rightarrow> completion \<Rightarrow> client \<Rightarrow> client" where
  "run_completion cfg item c =
     (case item of
        L_accepted f \<Rightarrow> release_slot (upd_future f set_accepted c)
      | L_running f pid worker \<Rightarrow> release_slot (upd_future f (set_running pid worker) c)
      | L_complete f m \<Rightarrow> (complete cfg f m c)\<lparr>cl_lane_phase := Ln_ack f\<rparr>
      | L_reject f control \<Rightarrow>
          release_slot (forget f (finish f (set_exception (Remote_failure
            (reject_error (rf_request_id (cl_fut c f)) control)) False) c))
      | L_fail f e \<Rightarrow> release_slot (forget f (finish f (set_exception (Remote_failure e) False) c)))"

text \<open>
  One step of the completion executor's only thread; \<open>expired\<close> says that the put of the acknowledgement has
  waited for the control timeout on a full queue.
\<close>

definition lane_step :: "client_config \<Rightarrow> bool \<Rightarrow> client \<Rightarrow> client" where
  "lane_step cfg expired c =
     (case cl_lane_phase c of
        Ln_idle \<Rightarrow> (case cl_lane c of [] \<Rightarrow> c | item # rest \<Rightarrow> run_completion cfg item (c\<lparr>cl_lane := rest\<rparr>))
      | Ln_ack f \<Rightarrow>
          if \<not> outbound_full cfg c
          then (put_outbound (Some \<lparr>msg_kind = M_RESULT_ACK,
                  msg_control = ctl [(''request_id'', JStr (rf_request_id (cl_fut c f)))], msg_payload = []\<rparr>) None c)
                 \<lparr>cl_lane_phase := Ln_forget f\<rparr>
          else if expired
          then (case connection_lost c of (c', entered) \<Rightarrow> c'\<lparr>cl_lane_phase := (if entered then Ln_lost f else Ln_forget f)\<rparr>)
          else c
      | Ln_lost f \<Rightarrow> (case loss_step c of (c', ended) \<Rightarrow> if ended then c'\<lparr>cl_lane_phase := Ln_forget f\<rparr> else c')
      | Ln_forget f \<Rightarrow>
          release_slot ((forget f c)\<lparr>cl_terminal_received :=
            filter (\<lambda>r. r \<noteq> rf_request_id (cl_fut c f)) (cl_terminal_received c)\<rparr>))"

subsection \<open>Remote procedure calls and cancellation\<close>

text \<open>The registration of a call; \<open>None\<close> when there is no connection.\<close>

definition rpc_begin :: "pystr \<Rightarrow> nat option \<Rightarrow> client \<Rightarrow> client option" where
  "rpc_begin token f c =
     (if \<not> cl_socket c then None
      else Some (c\<lparr>cl_rpc := AList.update token (cl_ncell c) (cl_rpc c),
                   cl_cell := (cl_cell c)(cl_ncell c :=
                     \<lparr>rc_event = False, rc_response = [], rc_transport_error = False, rc_future = f\<rparr>),
                   cl_ncell := Suc (cl_ncell c)\<rparr>))"

text \<open>\<open>_enqueue_control\<close> with room; without, the call ends.\<close>

definition rpc_put :: "client_config \<Rightarrow> message_type \<Rightarrow> control \<Rightarrow> client \<Rightarrow> client" where
  "rpc_put cfg kind control c =
     (if outbound_full cfg c then c
      else put_outbound (Some \<lparr>msg_kind = kind, msg_control = control, msg_payload = []\<rparr>) None c)"

definition rpc_end :: "pystr \<Rightarrow> client \<Rightarrow> client" where
  "rpc_end token c = c\<lparr>cl_rpc := AList.delete token (cl_rpc c)\<rparr>"

text \<open>\<open>cancel\<close> of a future that can be cancelled without the server.\<close>

definition client_cancel :: "nat \<Rightarrow> client \<Rightarrow> client" where
  "client_cancel f c =
     (case cancel_local (cl_fut c f) of
        (x, Some True) \<Rightarrow> dispatch_callbacks f (upd_future f (\<lambda>_. x) c)
      | _ \<Rightarrow> c)"

text \<open>The end of \<open>_cancel\<close>: the answer for the call of cell \<open>k\<close> has come.\<close>

definition cancel_decided :: "nat \<Rightarrow> client \<Rightarrow> client" where
  "cancel_decided k c =
     (let x = cl_cell c k in
      case rc_future x of
        Some f \<Rightarrow> if rc_event x \<and> jget (rc_response x) ''response'' = J ''cancelled'' then finish f set_cancelled c else c
      | None \<Rightarrow> c)"

definition client_add_callback :: "nat \<Rightarrow> nat \<Rightarrow> client \<Rightarrow> client" where
  "client_add_callback f cb c =
     (case add_done_callback cb (cl_fut c f) of
        (x, now) \<Rightarrow> if now then c\<lparr>cl_called := cl_called c @ [([cb], f)]\<rparr> else upd_future f (\<lambda>_. x) c)"

subsection \<open>Shutdown\<close>

definition client_shutdown :: "client \<Rightarrow> client" where
  "client_shutdown c =
     (if cl_closed c then c else c\<lparr>cl_closed := True, cl_shutdown := Sh_wait (map snd (cl_futures c))\<rparr>)"

text \<open>
  \<open>_finish_shutdown\<close>; \<open>answered\<close> says that the call to close the session has ended, \<open>expired\<close> that a put has
  waited for its timeout.  \<open>Sh_drain n\<close> is \<open>_drain_semaphore\<close> with \<open>n\<close> slots of the lane taken; it gives them
  back at the end.
\<close>

definition finish_shutdown :: "client_config \<Rightarrow> bool \<Rightarrow> bool \<Rightarrow> client \<Rightarrow> client" where
  "finish_shutdown cfg answered expired c =
     (case cl_shutdown c of
        Sh_wait [] \<Rightarrow> c\<lparr>cl_shutdown := (if cl_socket c \<and> \<not> cl_transport_failed c then Sh_close else Sh_stop)\<rparr>
      | Sh_wait (f # fs) \<Rightarrow> if rf_done (cl_fut c f) then c\<lparr>cl_shutdown := Sh_wait fs\<rparr> else c
      | Sh_close \<Rightarrow> if answered then c\<lparr>cl_shutdown := Sh_stop\<rparr> else c
      | Sh_stop \<Rightarrow>
          if \<not> outbound_full cfg c then (put_outbound None None c)\<lparr>cl_shutdown := Sh_socket\<rparr>
          else if expired then c\<lparr>cl_shutdown := Sh_socket\<rparr> else c
      | Sh_socket \<Rightarrow> c\<lparr>cl_socket := False, cl_shutdown := Sh_drain 0\<rparr>
      | Sh_drain n \<Rightarrow>
          if int n \<ge> inbound_queue_size (cc_limits cfg) then c\<lparr>cl_slots := cl_slots c + n, cl_shutdown := Sh_done\<rparr>
          else if cl_slots c = 0 then c
          else c\<lparr>cl_slots := cl_slots c - 1, cl_shutdown := Sh_drain (Suc n)\<rparr>
      | _ \<Rightarrow> c)"

subsection \<open>Interleaving\<close>

datatype client_event =
    Cv_submit "pystr option" submission_options serialized
  | Cv_put nat bool bool
  | Cv_sender bool
  | Cv_receiver "message option"
  | Cv_lane bool
  | Cv_cancel nat
  | Cv_rpc_begin pystr "nat option"
  | Cv_rpc_put message_type control
  | Cv_rpc_end pystr
  | Cv_cancel_decided nat
  | Cv_add_callback nat nat
  | Cv_shutdown
  | Cv_finish_shutdown bool bool

fun client_step :: "client_config \<Rightarrow> client_event \<Rightarrow> client \<Rightarrow> client" where
  "client_step cfg (Cv_submit operation opts ser) c = fst (submit_register cfg operation opts ser c)"
| "client_step cfg (Cv_put f late expired) c = client_submit_put cfg f late expired c"
| "client_step cfg (Cv_sender sent) c = sender_step sent c"
| "client_step cfg (Cv_receiver arrival) c = receiver_step arrival c"
| "client_step cfg (Cv_lane expired) c = lane_step cfg expired c"
| "client_step cfg (Cv_cancel f) c = (if f < cl_nfut c then client_cancel f c else c)"
| "client_step cfg (Cv_rpc_begin token fo) c =
     (if (case fo of None \<Rightarrow> True | Some f \<Rightarrow> f < cl_nfut c)
      then (case rpc_begin token fo c of None \<Rightarrow> c | Some c' \<Rightarrow> c') else c)"
| "client_step cfg (Cv_rpc_put kind control) c = rpc_put cfg kind control c"
| "client_step cfg (Cv_rpc_end token) c = rpc_end token c"
| "client_step cfg (Cv_cancel_decided k) c = (if k < cl_ncell c then cancel_decided k c else c)"
| "client_step cfg (Cv_add_callback f cb) c = (if f < cl_nfut c then client_add_callback f cb c else c)"
| "client_step cfg Cv_shutdown c = client_shutdown c"
| "client_step cfg (Cv_finish_shutdown answered expired) c = finish_shutdown cfg answered expired c"

text \<open>The client after a successful handshake.\<close>

definition client_init :: "client_config \<Rightarrow> client" where
  "client_init cfg =
     \<lparr>cl_closed = False, cl_transport_failed = False, cl_socket = True, cl_sequence = 0,
      cl_fut = (\<lambda>_. new_future []), cl_nfut = 0, cl_futures = [],
      cl_message = (\<lambda>_. \<lparr>msg_kind = M_SUBMIT, msg_control = [], msg_payload = []\<rparr>), cl_putting = [],
      cl_outbound = [], cl_terminal_received = [], cl_sender = S_get, cl_receiver = R_top, cl_lane = [],
      cl_lane_phase = Ln_idle, cl_slots = nat (inbound_queue_size (cc_limits cfg)), cl_loss = [], cl_loss_item = None,
      cl_rpc = [], cl_cell = (\<lambda>_. \<lparr>rc_event = False, rc_response = [], rc_transport_error = False, rc_future = None\<rparr>),
      cl_ncell = 0, cl_shutdown = Sh_open, cl_handed = [], cl_heard = [], cl_called = []\<rparr>"

inductive client_reachable :: "client_config \<Rightarrow> client \<Rightarrow> bool" for cfg where
  init: "client_reachable cfg (client_init cfg)"
| step: "client_reachable cfg c \<Longrightarrow> client_reachable cfg (client_step cfg ev c)"

definition client_run :: "client_config \<Rightarrow> client_event list \<Rightarrow> client \<Rightarrow> client" where
  "client_run cfg evs c = fold (client_step cfg) evs c"

end
