(* ===== verification/ClientInv.thy ===== *)
theory ClientInv
  imports Client
begin

text \<open>
  Invariants of the remote client: how futures evolve, which registered futures somebody is about to finish,
  and what the errors of a lost connection say about the fate of a request.
\<close>

subsection \<open>Request ids\<close>

definition digits_value :: "pystr \<Rightarrow> nat" where
  "digits_value ds = foldl (\<lambda>a d. 10 * a + (d - 48)) 0 ds"

declare nat_digits.simps [simp del]

lemma digits_value_nat_digits: "digits_value (nat_digits n) = n"
proof (induction n rule: nat_digits.induct)
  case (1 n)
  then show ?case by (cases "n < 10") (simp_all add: nat_digits.simps [of n] digits_value_def)
qed

lemma nat_digits_inject: "nat_digits m = nat_digits n \<longleftrightarrow> m = n"
  by (metis digits_value_nat_digits)

lemma request_id_inject [simp]: "request_id_of cfg m = request_id_of cfg n \<longleftrightarrow> m = n"
  by (simp add: request_id_of_def nat_digits_inject)

subsection \<open>How futures evolve\<close>

text \<open>Every operation but a registration changes the futures one by one, each as its own operations allow.\<close>

definition steady :: "client \<Rightarrow> client \<Rightarrow> bool" where
  "steady c d \<longleftrightarrow> cl_nfut d = cl_nfut c \<and> cl_sequence d = cl_sequence c \<and> (\<forall>f. future_evolves (cl_fut c f) (cl_fut d f))"

lemma steady_refl [simp]: "steady c c"
  by (simp add: steady_def)

lemma steady_trans: "steady a c \<Longrightarrow> steady c d \<Longrightarrow> steady a d"
  by (auto simp: steady_def intro: future_evolves_trans)

lemma steady_fields [simp]:
  "steady a (c\<lparr>cl_futures := x1\<rparr>) = steady a c" "steady a (c\<lparr>cl_putting := x2\<rparr>) = steady a c"
  "steady a (c\<lparr>cl_outbound := x3\<rparr>) = steady a c" "steady a (c\<lparr>cl_terminal_received := x4\<rparr>) = steady a c"
  "steady a (c\<lparr>cl_sender := x5\<rparr>) = steady a c" "steady a (c\<lparr>cl_receiver := x6\<rparr>) = steady a c"
  "steady a (c\<lparr>cl_lane := x7\<rparr>) = steady a c" "steady a (c\<lparr>cl_lane_phase := x8\<rparr>) = steady a c"
  "steady a (c\<lparr>cl_slots := x9\<rparr>) = steady a c" "steady a (c\<lparr>cl_loss := y1\<rparr>) = steady a c"
  "steady a (c\<lparr>cl_loss_item := y2\<rparr>) = steady a c" "steady a (c\<lparr>cl_rpc := y3\<rparr>) = steady a c"
  "steady a (c\<lparr>cl_cell := y4\<rparr>) = steady a c" "steady a (c\<lparr>cl_ncell := y5\<rparr>) = steady a c"
  "steady a (c\<lparr>cl_shutdown := y6\<rparr>) = steady a c" "steady a (c\<lparr>cl_handed := y7\<rparr>) = steady a c"
  "steady a (c\<lparr>cl_heard := y8\<rparr>) = steady a c" "steady a (c\<lparr>cl_called := y9\<rparr>) = steady a c"
  "steady a (c\<lparr>cl_closed := z1\<rparr>) = steady a c" "steady a (c\<lparr>cl_transport_failed := z2\<rparr>) = steady a c"
  "steady a (c\<lparr>cl_socket := z3\<rparr>) = steady a c"
  by (simp_all add: steady_def)

lemma steady_ops [simp]:
  "steady a (forget f c) = steady a c" "steady a (put_outbound m fo c) = steady a c" "steady a (release_slot c) = steady a c"
  by (simp_all add: forget_def put_outbound_def release_slot_def)

lemma steady_lost: "connection_lost c = (d, e) \<Longrightarrow> steady c d"
  by (auto simp: connection_lost_def split: if_splits)

lemma steady_schedule: "schedule_completion item c = Some d \<Longrightarrow> steady c d"
  by (auto simp: schedule_completion_def split: if_splits)

lemma steady_loss_step: "loss_step c = (d, e) \<Longrightarrow> steady c d"
  by (auto simp: loss_step_def dest: steady_schedule split: option.splits list.splits if_splits)

lemma steady_upd: "steady a c \<Longrightarrow> future_evolves (cl_fut c f) (g (cl_fut c f)) \<Longrightarrow> steady a (upd_future f g c)"
  by (erule steady_trans) (simp add: steady_def upd_future_def)

lemma steady_dispatch: "steady a c \<Longrightarrow> steady a (dispatch_callbacks f c)"
  by (auto simp: dispatch_callbacks_def take_callbacks_def intro!: steady_upd split: list.splits)

lemma steady_finish: "steady a c \<Longrightarrow> (\<And>x. future_evolves x (g x)) \<Longrightarrow> steady a (finish f g c)"
  by (simp add: finish_def steady_dispatch steady_upd)

lemma outcome_evolves: "outcome cfg rid m = Some g \<Longrightarrow> future_evolves x (g x)"
  by (auto simp: outcome_def Let_def split: if_splits loaded.splits)

lemma steady_complete: "steady a c \<Longrightarrow> steady a (complete cfg f m c)"
  by (auto simp: complete_def intro: steady_finish outcome_evolves split: option.split)

lemma steady_sender: "steady c (sender_step sent c)"
proof -
  have "steady c (upd_future f (\<lambda>_. x) c)" if "set_sent (cl_fut c f) = (x, ok)" for f x ok
    using that future_evolves_ops(1) [of "cl_fut c f"] by (intro steady_upd) simp_all
  then show ?thesis
    by (auto simp: sender_step_def sender_failed_def dest: steady_lost steady_loss_step split: sender_phase.splits list.splits option.splits prod.splits)
qed

lemma steady_receiver: "steady c (receiver_step arrival c)"
proof -
  have "steady c (receiver_failed r c)" for r
    by (auto simp: receiver_failed_def dest: steady_lost split: prod.splits)
  moreover have "steady c (rpc_response m (c\<lparr>cl_receiver := R_top\<rparr>))" for m
    by (auto simp: rpc_response_def split: option.splits)
  ultimately have "steady c (receive_message m c)" for m by (simp add: receive_message_def Let_def)
  then show ?thesis
    using \<open>\<And>r. steady c (receiver_failed r c)\<close>
    by (auto simp: receiver_step_def dest: steady_schedule steady_loss_step split: receiver_phase.splits option.splits prod.splits)
qed

lemma steady_run_completion: "steady a c \<Longrightarrow> steady a (run_completion cfg item c)"
  by (auto simp: run_completion_def steady_upd steady_finish steady_complete split: completion.splits)

lemma steady_lane: "steady c (lane_step cfg expired c)"
  by (auto simp: lane_step_def steady_run_completion dest: steady_lost steady_loss_step split: lane_phase.splits list.splits prod.splits)

lemma steady_users:
  "steady c (client_submit_put cfg f late expired c)" "steady c (client_cancel f c)" "steady c (client_add_callback f cb c)"
  "steady c (finish_shutdown cfg answered expired c)" "steady c (cancel_decided k c)" "steady c (client_shutdown c)"
proof -
  show "steady c (client_submit_put cfg f late expired c)"
    by (simp add: client_submit_put_def Let_def split: sum.split)
  show "steady c (client_cancel f c)"
    by (auto simp: client_cancel_def cancel_local_def steady_upd steady_dispatch split: prod.splits option.splits bool.splits if_splits)
  show "steady c (client_add_callback f cb c)"
    by (auto simp: client_add_callback_def add_done_callback_def intro!: steady_upd)
  show "steady c (finish_shutdown cfg answered expired c)"
    by (simp add: finish_shutdown_def split: client_shutdown.split list.split)
  show "steady c (cancel_decided k c)"
    by (simp add: cancel_decided_def Let_def steady_finish split: option.split)
qed (simp add: client_shutdown_def)

lemma steady_step:
  assumes "\<And>operation opts ser. ev \<noteq> Cv_submit operation opts ser"
  shows "steady c (client_step cfg ev c)"
  using assms
  by (cases ev) (auto simp: steady_sender steady_receiver steady_lane steady_users rpc_begin_def rpc_put_def rpc_end_def
      split: option.split)

subsection \<open>What is pending for a future\<close>

fun about :: "completion \<Rightarrow> nat" where
  "about (L_accepted f) = f"
| "about (L_running f _ _) = f"
| "about (L_complete f _) = f"
| "about (L_reject f _) = f"
| "about (L_fail f _) = f"

text \<open>The completions after which the future is done.\<close>

fun settles :: "completion \<Rightarrow> nat option" where
  "settles (L_complete f _) = Some f"
| "settles (L_reject f _) = Some f"
| "settles (L_fail f _) = Some f"
| "settles _ = None"

definition items :: "client \<Rightarrow> completion set" where
  "items c = set (cl_lane c) \<union> set_option (cl_loss_item c) \<union> (case cl_receiver c of R_item i \<Rightarrow> {i} | _ \<Rightarrow> {})"

definition settling :: "client \<Rightarrow> nat set" where
  "settling c = {f. \<exists>i \<in> items c. settles i = Some f}"

definition open_futures :: "client \<Rightarrow> nat set" where
  "open_futures c = {f \<in> snd ` set (cl_futures c). \<not> rf_done (cl_fut c f)}"

definition ids_ok :: "client_config \<Rightarrow> client \<Rightarrow> bool" where
  "ids_ok cfg c \<longleftrightarrow>
     cl_sequence c = cl_nfut c \<and> (\<forall>f < cl_nfut c. rf_request_id (cl_fut c f) = request_id_of cfg (Suc f)) \<and>
     wf_dict (cl_futures c) \<and> (\<forall>(k, f) \<in> set (cl_futures c). f < cl_nfut c \<and> rf_request_id (cl_fut c f) = k)"

text \<open>References are to existing futures, and what is to be completed is a terminal message.\<close>

definition item_ok :: "client \<Rightarrow> completion \<Rightarrow> bool" where
  "item_ok c i \<longleftrightarrow> about i < cl_nfut c \<and> (\<forall>f m. i = L_complete f m \<longrightarrow> msg_kind m \<in> set terminal_kinds)"

definition refs_ok :: "client \<Rightarrow> bool" where
  "refs_ok c \<longleftrightarrow>
     (\<forall>i \<in> items c. item_ok c i) \<and> (\<forall>f \<in> set (cl_loss c). f < cl_nfut c) \<and>
     (\<forall>r \<in> set (cl_terminal_received c). \<exists>f < cl_nfut c. r = rf_request_id (cl_fut c f)) \<and>
     (\<forall>f m. cl_receiver c = R_term f m \<longrightarrow> f < cl_nfut c \<and> msg_kind m \<in> set terminal_kinds)"

text \<open>
  After the connection is lost, every open future is still to be treated by the loop or has a completion
  that will finish it; one whose terminal message was received has such a completion in any case.
\<close>

definition due_ok :: "client \<Rightarrow> bool" where
  "due_ok c \<longleftrightarrow>
     (cl_transport_failed c \<longrightarrow> open_futures c \<subseteq> set (cl_loss c) \<union> settling c) \<and>
     (\<forall>f \<in> open_futures c. rf_request_id (cl_fut c f) \<in> set (cl_terminal_received c) \<longrightarrow> f \<in> settling c)"

definition client_inv :: "client_config \<Rightarrow> client \<Rightarrow> bool" where
  "client_inv cfg c \<longleftrightarrow> ids_ok cfg c \<and> refs_ok c \<and> due_ok c"

subsection \<open>Frames\<close>

text \<open>The part of the state that changes of single futures leave alone.\<close>

definition cview where
  "cview c = (cl_closed c, cl_transport_failed c, cl_socket c, cl_futures c, cl_putting c, cl_outbound c,
     cl_terminal_received c, cl_sender c, cl_receiver c, cl_lane c, cl_slots c, cl_loss c, cl_loss_item c,
     cl_shutdown c, cl_handed c, cl_heard c, cl_message c)"

lemma cview_upd: "cview (upd_future f g c) = cview c"
  by (simp add: cview_def upd_future_def)

lemma cview_dispatch: "cview (dispatch_callbacks f c) = cview c"
  by (simp add: cview_def dispatch_callbacks_def upd_future_def take_callbacks_def split: list.split)

lemma cview_finish: "cview (finish f g c) = cview c"
  by (simp add: finish_def cview_dispatch cview_upd)

lemma cview_complete: "cview (complete cfg f m c) = cview c"
  by (simp add: complete_def cview_finish split: option.split)

lemma cview_rpc:
  "cview (rpc_response m c) = cview c" "rpc_begin token fo c = Some d \<Longrightarrow> cview d = cview c" "cview (rpc_end token c) = cview c"
  by (auto simp: cview_def rpc_response_def rpc_begin_def rpc_end_def split: option.splits if_splits)

lemma steady_ids:
  assumes "ids_ok cfg c" and "steady c d" and "set (cl_futures d) \<subseteq> set (cl_futures c)" and "wf_dict (cl_futures d)"
  shows "ids_ok cfg d"
  using assms by (auto simp: ids_ok_def steady_def future_evolves_def)

lemma open_steady:
  assumes "steady c d" and "set (cl_futures d) \<subseteq> set (cl_futures c)"
  shows "open_futures d \<subseteq> open_futures c"
  using assms by (auto simp: open_futures_def steady_def future_evolves_def rf_done_def)

text \<open>A step that keeps the futures, the completions under way and the loop, or loses them only with an open future.\<close>

lemma inv_step:
  assumes inv: "client_inv cfg c" and s: "steady c d"
    and reg: "set (cl_futures d) \<subseteq> set (cl_futures c)" "wf_dict (cl_futures d)"
    and failed: "cl_transport_failed d = cl_transport_failed c"
    and received: "set (cl_terminal_received d) \<subseteq> set (cl_terminal_received c)"
    and loss: "set (cl_loss d) \<subseteq> set (cl_loss c)" "open_futures d \<inter> set (cl_loss c) \<subseteq> set (cl_loss d) \<union> settling d"
    and items: "\<And>i. i \<in> items d \<Longrightarrow> i \<in> items c \<or> item_ok c i" "open_futures d \<inter> settling c \<subseteq> settling d"
    and recv: "\<And>f m. cl_receiver d = R_term f m \<Longrightarrow> cl_receiver c = R_term f m \<or> (f < cl_nfut c \<and> msg_kind m \<in> set terminal_kinds)"
  shows "client_inv cfg d"
proof -
  have n: "cl_nfut d = cl_nfut c" using s by (simp add: steady_def)
  have "ids_ok cfg d" using inv s reg by (auto simp: client_inv_def intro: steady_ids)
  moreover have "refs_ok d"
  proof -
    have same: "item_ok d i = item_ok c i" for i using n by (simp add: item_ok_def)
    have id: "rf_request_id (cl_fut d f) = rf_request_id (cl_fut c f)" for f using s by (simp add: steady_def future_evolves_def)
    have "refs_ok c" using inv by (simp add: client_inv_def)
    then show ?thesis
      using items(1) loss(1) recv received unfolding refs_ok_def same n id by (intro conjI ballI allI impI) (auto, blast+)
  qed
  moreover have "due_ok d"
  proof -
    have opn: "open_futures d \<subseteq> open_futures c" using s reg(1) by (rule open_steady)
    have id: "rf_request_id (cl_fut d f) = rf_request_id (cl_fut c f)" for f using s by (simp add: steady_def future_evolves_def)
    have "due_ok c" using inv by (simp add: client_inv_def)
    then show ?thesis
      using received loss(2) items(2) opn unfolding due_ok_def id failed by (intro conjI impI ballI) (blast, fastforce)
  qed
  ultimately show ?thesis by (simp add: client_inv_def)
qed

lemma view_inv:
  assumes inv: "client_inv cfg c" and s: "steady c d" and v: "cview d = cview c"
  shows "client_inv cfg d"
proof (rule inv_step [OF inv s])
  have "items d = items c" using v by (simp add: cview_def items_def)
  then show "\<And>i. i \<in> items d \<Longrightarrow> i \<in> items c \<or> item_ok c i" "open_futures d \<inter> settling c \<subseteq> settling d" by (auto simp: settling_def)
qed (use v inv in \<open>auto simp: cview_def client_inv_def ids_ok_def\<close>)

subsection \<open>Every step keeps the invariant\<close>

lemma settling_eq: "items d = items c \<Longrightarrow> settling d = settling c"
  by (simp add: settling_def)

text \<open>Steps that change neither completions, loop nor failure, and at most unregister futures.\<close>

lemma quiet_step:
  assumes inv: "client_inv cfg c" and s: "steady c d"
    and reg: "set (cl_futures d) \<subseteq> set (cl_futures c)" "wf_dict (cl_futures d)"
    and same: "cl_transport_failed d = cl_transport_failed c" "cl_loss d = cl_loss c" "items d = items c"
    and received: "set (cl_terminal_received d) \<subseteq> set (cl_terminal_received c)"
    and recv: "\<And>f m. cl_receiver d = R_term f m \<Longrightarrow> cl_receiver c = R_term f m"
  shows "client_inv cfg d"
  by (rule inv_step [OF inv s]) (use assms settling_eq [OF same(3)] in auto)

lemma forget_dict: "set (cl_futures (forget f c)) \<subseteq> set (cl_futures c)" "wf_dict (cl_futures c) \<Longrightarrow> wf_dict (cl_futures (forget f c))"
  by (auto simp: forget_def set_dict_delete)

lemma lost_inv:
  assumes inv: "client_inv cfg c" and l: "connection_lost c = (d, e)"
  shows "client_inv cfg d"
proof (cases "cl_transport_failed c")
  case False
  then have d: "d = c\<lparr>cl_transport_failed := True, cl_socket := False, cl_loss := map snd (cl_futures c),
      cl_cell := fail_cells (map snd (cl_rpc c)) (cl_cell c), cl_rpc := []\<rparr>"
    using l by (simp add: connection_lost_def)
  have "items d = items c" "open_futures d = open_futures c" "settling d = settling c" "item_ok d = item_ok c"
    by (auto simp: d items_def open_futures_def settling_def item_ok_def fun_eq_iff)
  moreover have "f < cl_nfut c" if "(k, f) \<in> set (cl_futures c)" for k f
    using inv that by (auto simp: client_inv_def ids_ok_def)
  ultimately show ?thesis
    using inv unfolding client_inv_def refs_ok_def due_ok_def
    by (auto simp: d ids_ok_def open_futures_def)
qed (use assms in \<open>simp add: connection_lost_def\<close>)

lemma phase_inv:
  assumes "client_inv cfg c"
  shows "client_inv cfg (c\<lparr>cl_sender := s\<rparr>)" "client_inv cfg (c\<lparr>cl_lane_phase := l\<rparr>)" "client_inv cfg (c\<lparr>cl_shutdown := sd\<rparr>)"
    and "client_inv cfg (c\<lparr>cl_slots := n\<rparr>)" "client_inv cfg (c\<lparr>cl_handed := h\<rparr>)" "client_inv cfg (c\<lparr>cl_socket := b\<rparr>)"
    and "client_inv cfg (c\<lparr>cl_outbound := q\<rparr>)" "client_inv cfg (c\<lparr>cl_heard := h\<rparr>)" "client_inv cfg (c\<lparr>cl_putting := h\<rparr>)"
    and "client_inv cfg (c\<lparr>cl_closed := b\<rparr>)"
  by (rule quiet_step [OF assms]; use assms in \<open>simp add: client_inv_def ids_ok_def items_def\<close>)+

lemma idle_receiver_inv:
  assumes "client_inv cfg c" and "\<And>i. cl_receiver c \<noteq> R_item i" and "r \<in> {R_top, R_read, R_lost, R_exit}"
  shows "client_inv cfg (c\<lparr>cl_receiver := r\<rparr>)"
  by (rule quiet_step [OF assms(1)])
    (use assms in \<open>auto simp: client_inv_def ids_ok_def items_def split: receiver_phase.splits\<close>)

lemma loss_step_inv:
  assumes inv: "client_inv cfg c" and l: "loss_step c = (d, e)"
  shows "client_inv cfg d"
proof (cases "cl_loss_item c")
  case (Some i)
  have keep: "items (c\<lparr>cl_slots := n, cl_lane := cl_lane c @ [i], cl_loss_item := None\<rparr>) = items c" for n
    using Some by (auto simp: items_def)
  have "client_inv cfg (c\<lparr>cl_slots := n, cl_lane := cl_lane c @ [i], cl_loss_item := None\<rparr>)" for n
    by (rule quiet_step [OF inv]) (use inv keep in \<open>auto simp: client_inv_def ids_ok_def\<close>)
  then show ?thesis
    using inv l Some by (auto simp: loss_step_def schedule_completion_def split: if_splits)
next
  case None
  show ?thesis
  proof (cases "cl_loss c")
    case (Cons f fs)
    let ?skip = "c\<lparr>cl_loss := fs\<rparr>" and ?fail = "c\<lparr>cl_loss := fs, cl_loss_item := Some (L_fail f (loss_error (cl_fut c f)))\<rparr>"
    have f: "f < cl_nfut c" using inv Cons by (simp add: client_inv_def refs_ok_def)
    have "client_inv cfg ?fail"
      by (rule inv_step [OF inv])
        (use inv f None Cons in \<open>auto simp: client_inv_def ids_ok_def items_def settling_def item_ok_def\<close>)
    moreover have "client_inv cfg ?skip" if "rf_done (cl_fut c f) \<or> rf_request_id (cl_fut c f) \<in> set (cl_terminal_received c)"
    proof (rule inv_step [OF inv])
      have "f \<in> settling c" if "f \<in> open_futures c" "\<not> rf_done (cl_fut c f)"
        using inv that \<open>rf_done (cl_fut c f) \<or> rf_request_id (cl_fut c f) \<in> set (cl_terminal_received c)\<close>
        by (auto simp: client_inv_def due_ok_def)
      then show "open_futures ?skip \<inter> set (cl_loss c) \<subseteq> set (cl_loss ?skip) \<union> settling ?skip"
        using Cons by (auto simp: open_futures_def settling_def items_def)
    qed (use inv Cons in \<open>auto simp: client_inv_def ids_ok_def items_def settling_def\<close>)
    ultimately show ?thesis using l None Cons by (auto simp: loss_step_def split: if_splits)
  qed (use inv l None in \<open>simp add: loss_step_def\<close>)
qed

lemma sender_inv:
  assumes inv: "client_inv cfg c"
  shows "client_inv cfg (sender_step sent c)"
proof -
  have failed: "client_inv cfg (sender_failed c)"
    using lost_inv [OF inv] by (auto simp: sender_failed_def phase_inv split: prod.split)
  have upd: "client_inv cfg (upd_future f (\<lambda>_. x) c)" if "set_sent (cl_fut c f) = (x, ok)" for f x ok
    using that future_evolves_ops(1) [of "cl_fut c f"] by (intro view_inv [OF inv] steady_upd cview_upd) simp_all
  have gone: "client_inv cfg (forget f c)" for f
    by (rule quiet_step [OF inv]) (use inv forget_dict in \<open>auto simp: forget_def items_def client_inv_def ids_ok_def\<close>)
  show ?thesis
  proof (cases "cl_sender c")
    case (S_have m fo)
    then show ?thesis
      using inv upd gone by (auto simp: sender_step_def phase_inv split: option.split prod.split)
  next
    case S_lost
    then show ?thesis
      using loss_step_inv [OF inv] by (auto simp: sender_step_def phase_inv split: prod.split)
  qed (use inv failed in \<open>auto simp: sender_step_def phase_inv split: list.split option.split\<close>)
qed

lemma known_future:
  assumes "client_inv cfg c" and "map_of (cl_futures c) rid = Some f"
  shows "f < cl_nfut c" "rf_request_id (cl_fut c f) = rid"
  using assms map_of_SomeD [OF assms(2)] by (auto simp: client_inv_def ids_ok_def)

lemma receive_inv:
  assumes inv: "client_inv cfg c" and r: "cl_receiver c = R_read"
  shows "client_inv cfg (receive_message m c)"
proof -
  define known where "known = (case json_str (jget (msg_control m) ''request_id'') of
      None \<Rightarrow> None | Some rid \<Rightarrow> map_of (cl_futures c) rid)"
  have known: "the known < cl_nfut c" if "known \<noteq> None"
    using that known_future(1) [OF inv] by (auto simp: known_def split: option.splits)
  have item: "client_inv cfg (c\<lparr>cl_receiver := R_item i\<rparr>)" if "item_ok c i" for i
    by (rule inv_step [OF inv]) (use that inv r in \<open>auto simp: client_inv_def ids_ok_def items_def settling_def\<close>)
  have trm: "client_inv cfg (c\<lparr>cl_receiver := R_term f m\<rparr>)" if "f < cl_nfut c" "msg_kind m \<in> set terminal_kinds" for f
    by (rule inv_step [OF inv]) (use that inv r in \<open>auto simp: client_inv_def ids_ok_def items_def settling_def\<close>)
  have top: "client_inv cfg (c\<lparr>cl_receiver := R_top\<rparr>)" using inv r by (intro idle_receiver_inv) auto
  have rpc: "client_inv cfg (rpc_response m (c\<lparr>cl_receiver := R_top\<rparr>))"
  proof (rule view_inv [OF top])
    show "steady (c\<lparr>cl_receiver := R_top\<rparr>) (rpc_response m (c\<lparr>cl_receiver := R_top\<rparr>))"
      by (auto simp: rpc_response_def split: option.splits)
  qed (simp add: cview_rpc)
  have lost: "client_inv cfg (receiver_failed R_top c)"
  proof -
    obtain d e where d: "connection_lost c = (d, e)" by fastforce
    then have "cl_receiver d = R_read" using r by (auto simp: connection_lost_def split: if_splits)
    then have "client_inv cfg (d\<lparr>cl_receiver := x\<rparr>)" if "x \<in> {R_top, R_lost}" for x
      using lost_inv [OF inv d] that by (intro idle_receiver_inv) auto
    then show ?thesis using d by (simp add: receiver_failed_def)
  qed
  show ?thesis
    unfolding receive_message_def Let_def known_def [symmetric]
    using known item trm rpc lost top by (auto simp: item_ok_def phase_inv)
qed

lemma receiver_lost_inv:
  assumes inv: "client_inv cfg c" and r: "cl_receiver c = R_read" and x: "x \<in> {R_top, R_exit}"
  shows "client_inv cfg (receiver_failed x c)"
proof -
  obtain d e where d: "connection_lost c = (d, e)" by fastforce
  then have "cl_receiver d = R_read" using r by (auto simp: connection_lost_def split: if_splits)
  then have "client_inv cfg (d\<lparr>cl_receiver := y\<rparr>)" if "y \<in> {R_top, R_lost, R_exit}" for y
    using lost_inv [OF inv d] that by (intro idle_receiver_inv) auto
  then show ?thesis using d x by (auto simp: receiver_failed_def)
qed

lemma term_inv:
  assumes inv: "client_inv cfg c" and r: "cl_receiver c = R_term f m"
  shows "client_inv cfg (c\<lparr>cl_terminal_received := rf_request_id (cl_fut c f) # cl_terminal_received c,
      cl_receiver := R_item (L_complete f m)\<rparr>)" (is "client_inv cfg ?d")
proof -
  have f: "f < cl_nfut c" "msg_kind m \<in> set terminal_kinds"
    using inv r by (auto simp: client_inv_def refs_ok_def)
  have items: "items ?d = insert (L_complete f m) (items c)" using r by (auto simp: items_def)
  then have settle: "settling ?d = insert f (settling c)" by (auto simp: settling_def)
  have opn: "open_futures ?d = open_futures c" by (simp add: open_futures_def)
  have "g = f" if "g \<in> open_futures c" "rf_request_id (cl_fut c g) = rf_request_id (cl_fut c f)" for g
    using inv that f(1) by (auto simp: client_inv_def ids_ok_def open_futures_def)
  moreover have "ids_ok cfg ?d" using inv by (simp add: client_inv_def ids_ok_def)
  moreover have "refs_ok ?d"
    using inv f unfolding client_inv_def refs_ok_def items by (auto simp: item_ok_def)
  ultimately show ?thesis
    using inv unfolding client_inv_def due_ok_def settle opn by auto
qed

lemma receiver_inv:
  assumes inv: "client_inv cfg c"
  shows "client_inv cfg (receiver_step arrival c)"
proof (cases "cl_receiver c")
  case R_top
  then show ?thesis using inv by (auto simp: receiver_step_def intro!: idle_receiver_inv)
next
  case R_read
  then show ?thesis
    using receive_inv [OF inv R_read] receiver_lost_inv [OF inv R_read] by (simp add: receiver_step_def split: option.split)
next
  case (R_term f m)
  then show ?thesis using term_inv [OF inv R_term] by (simp add: receiver_step_def)
next
  case (R_item i)
  have keep: "items (c\<lparr>cl_slots := n, cl_lane := cl_lane c @ [i], cl_receiver := R_top\<rparr>) = items c" for n
    using R_item by (auto simp: items_def)
  have "client_inv cfg (c\<lparr>cl_slots := n, cl_lane := cl_lane c @ [i], cl_receiver := R_top\<rparr>)" for n
    by (rule quiet_step [OF inv]) (use inv keep in \<open>auto simp: client_inv_def ids_ok_def\<close>)
  then show ?thesis using inv R_item by (simp add: receiver_step_def schedule_completion_def)
next
  case R_lost
  obtain d e where d: "loss_step c = (d, e)" by fastforce
  have "cl_receiver d = R_lost"
    using d R_lost by (auto simp: loss_step_def schedule_completion_def split: option.splits list.splits if_splits)
  then have "client_inv cfg (d\<lparr>cl_receiver := R_top\<rparr>)"
    using loss_step_inv [OF inv d] by (intro idle_receiver_inv) auto
  then show ?thesis using loss_step_inv [OF inv d] d R_lost by (simp add: receiver_step_def)
qed (use inv in \<open>simp add: receiver_step_def\<close>)

lemma fut_frame [simp]:
  "cl_fut (forget f c) = cl_fut c" "cl_fut (put_outbound m fo c) = cl_fut c" "cl_fut (release_slot c) = cl_fut c"
  by (simp_all add: forget_def put_outbound_def release_slot_def)

text \<open>A completion that was taken from the lane has been carried out.\<close>

lemma finish_done: "(\<And>x. rf_done (g x)) \<Longrightarrow> rf_done (cl_fut (finish f g c) f)"
  by (auto simp: finish_def dispatch_callbacks_def take_callbacks_def upd_future_def rf_done_def split: list.split)

lemma outcome_done: "outcome cfg rid m = Some g \<Longrightarrow> rf_done (g x)"
  by (auto simp: outcome_def Let_def split: if_splits loaded.splits)

lemma outcome_terminal: "msg_kind m \<in> set terminal_kinds \<Longrightarrow> outcome cfg rid m \<noteq> None"
  by (auto simp: outcome_def terminal_kinds_def Let_def split: loaded.splits)

lemma complete_done: "msg_kind m \<in> set terminal_kinds \<Longrightarrow> rf_done (cl_fut (complete cfg f m c) f)"
  using outcome_terminal [of m cfg "rf_request_id (cl_fut c f)"] outcome_done
  by (auto simp: complete_def intro!: finish_done)

lemma run_completion_done:
  assumes "settles i = Some f" and "item_ok c i"
  shows "rf_done (cl_fut (run_completion cfg i c) f)"
  using assms by (cases i) (auto simp: run_completion_def item_ok_def complete_done finish_done)

definition itemview ::
    "client \<Rightarrow> completion list \<times> completion option \<times> receiver_phase \<times> nat list \<times> bool \<times> pystr list" where
  "itemview c = (cl_lane c, cl_loss_item c, cl_receiver c, cl_loss c, cl_transport_failed c, cl_terminal_received c)"

lemma itemview_run: "itemview (run_completion cfg i c) = itemview c"
proof -
  have v: "itemview d = itemview c" if "cview d = cview c" for d using that by (simp add: itemview_def cview_def)
  have "itemview (finish f g c) = itemview c" "itemview (upd_future f g c) = itemview c"
      "itemview (complete cfg f m c) = itemview c" for f g m
    by (rule v, simp only: cview_finish cview_upd cview_complete)+
  moreover have "itemview (release_slot d) = itemview d" "itemview (forget f d) = itemview d" for f d
    by (simp_all add: itemview_def release_slot_def forget_def)
  moreover have "itemview (d\<lparr>cl_lane_phase := l\<rparr>) = itemview d" for d l by (simp add: itemview_def)
  ultimately show ?thesis by (auto simp: run_completion_def split: completion.split)
qed

lemma run_completion_futures:
  "set (cl_futures (run_completion cfg i c)) \<subseteq> set (cl_futures c)"
  "wf_dict (cl_futures c) \<Longrightarrow> wf_dict (cl_futures (run_completion cfg i c))"
proof -
  have v: "cl_futures d = cl_futures c" if "cview d = cview c" for d :: client using that by (simp add: cview_def)
  have same: "cl_futures (finish f g c) = cl_futures c" "cl_futures (upd_future f g c) = cl_futures c"
      "cl_futures (complete cfg f m c) = cl_futures c" for f g m
    by (rule v, simp only: cview_finish cview_upd cview_complete)+
  have "cl_futures (release_slot d) = cl_futures d" for d by (simp add: release_slot_def)
  then show "set (cl_futures (run_completion cfg i c)) \<subseteq> set (cl_futures c)"
      "wf_dict (cl_futures c) \<Longrightarrow> wf_dict (cl_futures (run_completion cfg i c))"
    using same by (auto simp: run_completion_def forget_def set_dict_delete split: completion.split completion.split_asm)
qed

lemma lane_item_inv:
  assumes inv: "client_inv cfg c" and l: "cl_lane c = i # rest"
  shows "client_inv cfg (run_completion cfg i (c\<lparr>cl_lane := rest\<rparr>))" (is "client_inv cfg ?d")
proof (rule inv_step [OF inv])
  have v: "itemview ?d = itemview (c\<lparr>cl_lane := rest\<rparr>)" by (rule itemview_run)
  have items: "items c = insert i (items ?d)" using v l by (auto simp: itemview_def items_def)
  have "item_ok c i" using inv items by (simp add: client_inv_def refs_ok_def)
  then have "item_ok (c\<lparr>cl_lane := rest\<rparr>) i" by (simp add: item_ok_def)
  then have "rf_done (cl_fut ?d f)" if "settles i = Some f" for f using run_completion_done that by blast
  then show "open_futures ?d \<inter> settling c \<subseteq> settling ?d" using items by (auto simp: settling_def open_futures_def)
  show "steady c ?d" by (rule steady_run_completion) simp
  show "\<And>j. j \<in> items ?d \<Longrightarrow> j \<in> items c \<or> item_ok c j" using items by auto
qed (use inv run_completion_futures [where cfg = cfg and i = i and c = "c\<lparr>cl_lane := rest\<rparr>"] itemview_run [of cfg i "c\<lparr>cl_lane := rest\<rparr>"] in
    \<open>auto simp: itemview_def client_inv_def ids_ok_def\<close>)

lemma forget_inv:
  assumes "client_inv cfg c" and "set ts \<subseteq> set (cl_terminal_received c)"
  shows "client_inv cfg ((forget f c)\<lparr>cl_terminal_received := ts\<rparr>)"
  by (rule quiet_step [OF assms(1)])
    (use assms forget_dict in \<open>auto simp: forget_def items_def client_inv_def ids_ok_def\<close>)

lemma put_outbound_inv: "client_inv cfg c \<Longrightarrow> client_inv cfg (put_outbound m fo c)"
  by (simp add: put_outbound_def phase_inv)

lemma release_inv: "client_inv cfg c \<Longrightarrow> client_inv cfg (release_slot c)"
  by (simp add: release_slot_def phase_inv)

lemma lane_inv:
  assumes inv: "client_inv cfg c"
  shows "client_inv cfg (lane_step cfg expired c)"
proof (cases "cl_lane_phase c")
  case Ln_idle
  then show ?thesis using inv lane_item_inv [OF inv] by (simp add: lane_step_def split: list.split)
next
  case (Ln_ack f)
  then show ?thesis
    using inv lost_inv [OF inv] by (auto simp: lane_step_def put_outbound_inv phase_inv split: prod.split)
next
  case (Ln_lost f)
  then show ?thesis using loss_step_inv [OF inv] by (auto simp: lane_step_def phase_inv split: prod.split)
next
  case (Ln_forget f)
  then show ?thesis using forget_inv [OF inv] by (simp add: lane_step_def release_inv)
qed

text \<open>A submission fails without effect, or registers a fresh future.\<close>

definition register :: "client_config \<Rightarrow> message \<Rightarrow> client \<Rightarrow> client" where
  "register cfg m c =
     (let n = Suc (cl_sequence c); f = cl_nfut c; rid = request_id_of cfg n
      in c\<lparr>cl_sequence := n, cl_fut := (cl_fut c)(f := new_future rid), cl_nfut := Suc f,
           cl_futures := AList.update rid f (cl_futures c), cl_message := (cl_message c)(f := m), cl_putting := f # cl_putting c\<rparr>)"

lemma submit_register_cases:
  obtains (failed) "fst (submit_register cfg operation opts ser c) = c"
    | (registered) m where "\<not> cl_transport_failed c" "cl_socket c" "\<not> cl_closed c"
        "fst (submit_register cfg operation opts ser c) = register cfg m c"
proof -
  note cases = that
  show thesis
  proof (cases "fst (submit_register cfg operation opts ser c) = c")
    case True
    then show ?thesis by (rule cases(1))
  next
    case False
    then obtain payload where ser: "ser = Ser_bytes payload" "\<not> cl_transport_failed c" "cl_socket c" "\<not> cl_closed c"
        "operation \<noteq> Some []" "check_options opts = Inr ()"
      by (cases ser; cases "check_options opts") (auto simp: submit_register_def split: if_splits)
    then show ?thesis by (intro cases(2)) (simp_all add: submit_register_def register_def Let_def)
  qed
qed

lemma client_submit_inv:
  assumes inv: "client_inv cfg c"
  shows "client_inv cfg (fst (submit_register cfg operation opts ser c))" (is "client_inv cfg ?d")
proof (cases rule: submit_register_cases [of cfg operation opts ser c])
  case (registered m)
  let ?f = "cl_nfut c" and ?rid = "request_id_of cfg (Suc (cl_sequence c))"
  note ok = registered(1)
  have d: "cl_sequence ?d = Suc (cl_sequence c)" "cl_nfut ?d = Suc ?f" "cl_futures ?d = AList.update ?rid ?f (cl_futures c)"
      "cl_transport_failed ?d = cl_transport_failed c" "cl_loss ?d = cl_loss c" "cl_receiver ?d = cl_receiver c" "items ?d = items c"
      "cl_terminal_received ?d = cl_terminal_received c"
      "\<And>g. rf_request_id (cl_fut ?d g) = (if g = ?f then ?rid else rf_request_id (cl_fut c g))"
      "\<And>g. g \<noteq> ?f \<Longrightarrow> cl_fut ?d g = cl_fut c g"
    unfolding registered(4) by (simp_all add: register_def Let_def items_def new_future_def)
  have seq: "cl_sequence c = ?f" using inv by (simp add: client_inv_def ids_ok_def)
  have new: "map_of (cl_futures c) ?rid = None"
  proof (rule ccontr)
    assume "map_of (cl_futures c) ?rid \<noteq> None"
    then obtain g where g: "map_of (cl_futures c) ?rid = Some g" by blast
    then have "g < ?f" "rf_request_id (cl_fut c g) = ?rid" using known_future [OF inv] by blast+
    then show False using inv seq by (auto simp: client_inv_def ids_ok_def)
  qed
  then have futs: "set (cl_futures ?d) = insert (?rid, ?f) (set (cl_futures c))" by (simp add: d dict_update_new)
  have "ids_ok cfg ?d"
    using inv futs seq unfolding client_inv_def ids_ok_def d by (auto simp: less_Suc_eq d)
  moreover have "refs_ok ?d"
  proof -
    have "\<exists>f < Suc ?f. r = rf_request_id (cl_fut ?d f)" if r: "r \<in> set (cl_terminal_received c)" for r
    proof -
      obtain f where "f < ?f" "r = rf_request_id (cl_fut c f)" using inv r by (auto simp: client_inv_def refs_ok_def)
      then show ?thesis using d(10) [of f] by (intro exI [of _ f]) auto
    qed
    then show ?thesis
      using inv unfolding client_inv_def refs_ok_def d(2,5-8) by (auto simp: item_ok_def d(2) less_Suc_eq)
  qed
  moreover have "due_ok ?d"
  proof -
    have "?rid \<noteq> rf_request_id (cl_fut c f)" if "f < ?f" for f
      using inv that seq by (simp add: client_inv_def ids_ok_def)
    then have fresh: "?rid \<notin> set (cl_terminal_received c)"
      using inv by (force simp: client_inv_def refs_ok_def)
    have "f \<in> open_futures c" if "f \<in> open_futures ?d" "rf_request_id (cl_fut ?d f) \<in> set (cl_terminal_received c)" for f
      using that fresh futs d(9,10) [of f] by (cases "f = ?f") (auto simp: open_futures_def)
    moreover have "settling ?d = settling c" using d(7) by (rule settling_eq)
    ultimately show ?thesis
      using inv ok fresh unfolding client_inv_def due_ok_def d by (auto split: if_splits)
  qed
  ultimately show ?thesis by (simp add: client_inv_def)
qed (use inv in simp)

lemma users_inv:
  assumes inv: "client_inv cfg c"
  shows "client_inv cfg (client_submit_put cfg f late expired c)" "client_inv cfg (client_cancel f c)"
    and "client_inv cfg (client_add_callback f cb c)" "client_inv cfg (cancel_decided k c)"
    and "client_inv cfg (client_shutdown c)" "client_inv cfg (finish_shutdown cfg answered expired c)"
    and "client_inv cfg (rpc_put cfg kind control c)"
proof -
  have put: "client_inv cfg (c\<lparr>cl_putting := ps\<rparr>)" for ps using inv by (rule phase_inv)
  have gone: "client_inv cfg (forget f (c\<lparr>cl_putting := ps\<rparr>))" for f ps
    using forget_inv [OF put, of "cl_terminal_received c"] by (simp add: forget_def)
  show "client_inv cfg (client_submit_put cfg f late expired c)"
    using inv gone put put_outbound_inv by (simp add: client_submit_put_def Let_def split: sum.split)
  show "client_inv cfg (client_cancel f c)"
    by (rule view_inv [OF inv steady_users(2)])
      (simp add: client_cancel_def cview_dispatch cview_upd split: prod.split option.split bool.split)
  show "client_inv cfg (client_add_callback f cb c)"
    by (rule view_inv [OF inv steady_users(3)])
      (auto simp: client_add_callback_def cview_upd split: prod.split, simp add: cview_def)
  show "client_inv cfg (cancel_decided k c)"
    by (rule view_inv [OF inv steady_users(5)]) (simp add: cancel_decided_def Let_def cview_finish split: option.split)
  show "client_inv cfg (finish_shutdown cfg answered expired c)"
    using inv by (auto simp: finish_shutdown_def phase_inv put_outbound_inv split: client_shutdown.split list.split)
qed (use inv in \<open>simp_all add: client_shutdown_def rpc_put_def phase_inv put_outbound_inv\<close>)

lemma client_step_inv:
  assumes inv: "client_inv cfg c"
  shows "client_inv cfg (client_step cfg ev c)"
proof (cases ev)
  case (Cv_rpc_begin token fo)
  have "client_inv cfg d" if "rpc_begin token fo c = Some d" for d
    by (rule view_inv [OF inv _ cview_rpc(2) [OF that]]) (use that in \<open>auto simp: rpc_begin_def split: if_splits\<close>)
  then show ?thesis using Cv_rpc_begin inv by (simp split: option.split)
next
  case (Cv_rpc_end token)
  have "client_inv cfg (rpc_end token c)"
    by (rule view_inv [OF inv _ cview_rpc(3)]) (simp add: rpc_end_def)
  then show ?thesis using Cv_rpc_end by simp
qed (use inv in \<open>simp_all add: client_submit_inv users_inv sender_inv receiver_inv lane_inv\<close>)

lemma client_reachable_inv: "client_reachable cfg c \<Longrightarrow> client_inv cfg c"
proof (induction rule: client_reachable.induct)
  case init
  show ?case
    by (simp add: client_inv_def ids_ok_def refs_ok_def due_ok_def items_def open_futures_def client_init_def)
qed (rule client_step_inv)

end
