(* ===== verification/ClientProps.thy ===== *)
theory ClientProps
  imports ClientInv
begin

text \<open>
  What the remote client guarantees: futures are consistent and final, no future is lost with the
  connection, and an error never claims more about acceptance than is known.
\<close>

subsection \<open>What a lost connection tells about a request\<close>

fun hears :: "completion \<Rightarrow> nat option" where
  "hears (L_accepted f) = Some f"
| "hears (L_running f _ _) = Some f"
| "hears _ = None"

definition sending :: "client \<Rightarrow> nat set" where
  "sending c = {f. \<exists>m. cl_sender c = S_sock m (Some f) \<or> cl_sender c = S_write m (Some f)}"

text \<open>The errors a future has got or is about to get.\<close>

definition verdicts :: "client \<Rightarrow> nat \<Rightarrow> remote_error set" where
  "verdicts c f = {e. L_fail f e \<in> items c \<or> rf_base (cl_fut c f) = Bf_exception (Remote_failure e)}"

definition announced :: "remote_future \<Rightarrow> bool" where
  "announced x \<longleftrightarrow> rf_state x \<in> {ACCEPTED_QUEUED, RUNNING}"

definition verdict_ok :: "client \<Rightarrow> bool" where
  "verdict_ok c \<longleftrightarrow>
     (\<forall>f. future_ok (cl_fut c f)) \<and>
     (cl_transport_failed c \<longrightarrow> \<not> cl_socket c) \<and>
     (\<forall>f. f \<in> set (cl_handed c) \<union> sending c \<longrightarrow> rf_state (cl_fut c f) \<noteq> LOCAL_PENDING) \<and>
     (\<forall>f e. e \<in> verdicts c f \<longrightarrow> er_class e = Err_RemoteExecutorUnavailable \<longrightarrow> f \<notin> set (cl_handed c) \<and> \<not> cl_socket c) \<and>
     (\<forall>f. announced (cl_fut c f) \<longrightarrow> f \<in> set (cl_heard c)) \<and>
     (\<forall>i \<in> items c. \<forall>f. hears i = Some f \<longrightarrow> f \<in> set (cl_heard c)) \<and>
     (\<forall>f e. e \<in> verdicts c f \<longrightarrow> er_class e = Err_RemoteConnectionLost \<longrightarrow> f \<in> set (cl_heard c))"

lemma loss_error_class:
  assumes "future_ok x" and "\<not> rf_done x"
  shows "er_class (loss_error x) = Err_RemoteExecutorUnavailable \<Longrightarrow> rf_state x = LOCAL_PENDING"
    and "er_class (loss_error x) = Err_RemoteConnectionLost \<Longrightarrow> announced x"
  using assms
  by (auto simp: loss_error_def make_error_def Let_def announced_def future_ok_def rf_done_def
      split: submission_state.splits base_future.splits)

lemma verdict_step:
  assumes ok: "verdict_ok c" and s: "steady c d"
    and sock: "cl_socket d \<longrightarrow> cl_socket c" "cl_transport_failed d \<longrightarrow> \<not> cl_socket d"
    and hand: "\<And>f. f \<in> set (cl_handed d) \<Longrightarrow> f \<in> set (cl_handed c) \<or> (cl_socket c \<and> f \<in> sending c)"
    and send: "\<And>f. f \<in> sending d \<Longrightarrow> f \<in> sending c \<or> rf_state (cl_fut d f) \<noteq> LOCAL_PENDING"
    and heard: "set (cl_heard c) \<subseteq> set (cl_heard d)"
    and fail: "\<And>f e. L_fail f e \<in> items d \<Longrightarrow> L_fail f e \<in> items c \<or>
        (e = loss_error (cl_fut c f) \<and> \<not> rf_done (cl_fut c f) \<and> \<not> cl_socket c)"
    and base: "\<And>f e. rf_base (cl_fut d f) = Bf_exception (Remote_failure e) \<Longrightarrow> e \<in> verdicts c f \<or>
        er_class e \<notin> {Err_RemoteExecutorUnavailable, Err_RemoteConnectionLost}"
    and ann: "\<And>f. announced (cl_fut d f) \<Longrightarrow> announced (cl_fut c f) \<or> f \<in> set (cl_heard c)"
    and items: "\<And>i f. i \<in> items d \<Longrightarrow> hears i = Some f \<Longrightarrow> i \<in> items c \<or> f \<in> set (cl_heard d)"
  shows "verdict_ok d"
proof -
  have fok: "future_ok (cl_fut c f)" for f using ok by (simp add: verdict_ok_def)
  have ev: "future_evolves (cl_fut c f) (cl_fut d f)" for f using s by (simp add: steady_def)
  have local: "rf_state (cl_fut d f) \<noteq> LOCAL_PENDING" if "f \<in> set (cl_handed c) \<union> sending c" for f
    using ok ev [of f] that by (auto simp: verdict_ok_def future_evolves_def)
  have known: "e \<in> verdicts c f \<or> (e = loss_error (cl_fut c f) \<and> \<not> rf_done (cl_fut c f) \<and> \<not> cl_socket c) \<or>
      er_class e \<notin> {Err_RemoteExecutorUnavailable, Err_RemoteConnectionLost}" if "e \<in> verdicts d f" for e f
    using that fail [of f e] base [of f e] by (auto simp: verdicts_def)
  have un: "f \<notin> set (cl_handed d) \<and> \<not> cl_socket d"
    if "e \<in> verdicts d f" "er_class e = Err_RemoteExecutorUnavailable" for f e
  proof -
    have "f \<notin> set (cl_handed c) \<and> \<not> cl_socket c"
      using known [OF that(1)] that(2) ok loss_error_class(1) [OF fok] by (auto simp: verdict_ok_def)
    then show ?thesis using hand [of f] sock(1) by blast
  qed
  have cl: "f \<in> set (cl_heard d)" if "e \<in> verdicts d f" "er_class e = Err_RemoteConnectionLost" for f e
    using known [OF that(1)] that(2) ok loss_error_class(2) [OF fok] heard by (auto simp: verdict_ok_def)
  have "future_ok (cl_fut d f)" for f using fok [of f] ev [of f] by (simp add: future_evolves_def)
  moreover have "rf_state (cl_fut d f) \<noteq> LOCAL_PENDING" if "f \<in> set (cl_handed d) \<union> sending d" for f
    using that hand [of f] send [of f] local [of f] by blast
  moreover have "f \<in> set (cl_heard d)" if "announced (cl_fut d f)" for f
    using ann [OF that] ok heard by (auto simp: verdict_ok_def)
  moreover have "f \<in> set (cl_heard d)" if "i \<in> items d" "hears i = Some f" for i f
    using items [OF that] that(2) ok heard by (auto simp: verdict_ok_def)
  ultimately show ?thesis using un cl sock(2) unfolding verdict_ok_def by blast
qed

lemma finish_fut:
  "rf_base (cl_fut (finish f g c) h) = rf_base (if h = f \<and> \<not> rf_done (cl_fut c f) then g (cl_fut c f) else cl_fut c h)"
  "rf_state (cl_fut (finish f g c) h) = rf_state (if h = f \<and> \<not> rf_done (cl_fut c f) then g (cl_fut c f) else cl_fut c h)"
  by (simp_all add: finish_def dispatch_callbacks_def take_callbacks_def upd_future_def split: list.split)

lemma verdict_frame:
  assumes ok: "verdict_ok c" and s: "cl_fut d = cl_fut c"
    and same: "cl_nfut d = cl_nfut c" "cl_sequence d = cl_sequence c" "cl_handed d = cl_handed c" "cl_heard d = cl_heard c"
    and sock: "cl_socket d \<longrightarrow> cl_socket c" "cl_transport_failed d \<longrightarrow> \<not> cl_socket d"
    and send: "sending d \<subseteq> sending c" and items: "items d \<subseteq> items c"
  shows "verdict_ok d"
  by (rule verdict_step [OF ok]) (use assms in \<open>auto simp: steady_def verdicts_def\<close>)

lemma verdict_phases:
  assumes "verdict_ok c"
  shows "verdict_ok (c\<lparr>cl_lane_phase := l\<rparr>)" "verdict_ok (c\<lparr>cl_shutdown := sd\<rparr>)" "verdict_ok (c\<lparr>cl_slots := n\<rparr>)"
    and "verdict_ok (c\<lparr>cl_outbound := q\<rparr>)" "verdict_ok (c\<lparr>cl_putting := h\<rparr>)" "verdict_ok (c\<lparr>cl_closed := b\<rparr>)"
    and "verdict_ok (c\<lparr>cl_futures := fs\<rparr>)" "verdict_ok (c\<lparr>cl_terminal_received := ts\<rparr>)" "verdict_ok (c\<lparr>cl_socket := False\<rparr>)"
    and "verdict_ok (c\<lparr>cl_loss := gs\<rparr>)" "verdict_ok (c\<lparr>cl_rpc := rs\<rparr>)" "verdict_ok (c\<lparr>cl_cell := cs\<rparr>)"
    and "verdict_ok (c\<lparr>cl_ncell := n\<rparr>)" "verdict_ok (c\<lparr>cl_called := cbs\<rparr>)"
  by (rule verdict_frame [OF assms]; use assms in \<open>simp add: items_def sending_def verdict_ok_def\<close>)+

lemma verdict_sender_phase:
  assumes "verdict_ok c" and "s \<in> {S_get, S_lost, S_exit} \<or> (\<exists>m fo. s = S_have m fo \<or> s = S_sock m None)"
  shows "verdict_ok (c\<lparr>cl_sender := s\<rparr>)"
  by (rule verdict_frame [OF assms(1)]) (use assms in \<open>auto simp: items_def sending_def verdict_ok_def\<close>)

lemma verdict_receiver_phase:
  assumes "verdict_ok c" and "\<And>i. r \<noteq> R_item i"
  shows "verdict_ok (c\<lparr>cl_receiver := r\<rparr>)"
  by (rule verdict_frame [OF assms(1)])
    (use assms in \<open>auto simp: items_def sending_def verdict_ok_def split: receiver_phase.splits\<close>)

lemma verdict_lost:
  assumes ok: "verdict_ok c" and l: "connection_lost c = (d, e)"
  shows "verdict_ok d"
  by (rule verdict_frame [OF ok]) (use assms in \<open>auto simp: connection_lost_def items_def sending_def verdict_ok_def split: if_splits\<close>)

lemma verdict_schedule:
  assumes ok: "verdict_ok c" and l: "schedule_completion i c = Some d" and i: "i \<in> items c"
  shows "verdict_ok d"
  by (rule verdict_frame [OF ok]) (use assms in \<open>auto simp: schedule_completion_def items_def sending_def verdict_ok_def split: if_splits\<close>)

lemma verdict_loss_step:
  assumes ok: "verdict_ok c" and l: "loss_step c = (d, e)" and failed: "\<not> cl_socket c"
  shows "verdict_ok d"
proof (cases "cl_loss_item c")
  case (Some i)
  have "i \<in> items c" using Some by (simp add: items_def)
  then have "verdict_ok x" if "schedule_completion i c = Some x" for x using verdict_schedule [OF ok that] by blast
  moreover have "verdict_ok (x\<lparr>cl_loss_item := None\<rparr>)" if "verdict_ok x" for x
    by (rule verdict_frame [OF that]) (use that in \<open>auto simp: items_def sending_def verdict_ok_def\<close>)
  ultimately show ?thesis using ok l Some by (auto simp: loss_step_def split: option.splits)
next
  case None
  show ?thesis
  proof (cases "cl_loss c")
    case (Cons f fs)
    have "verdict_ok (c\<lparr>cl_loss := fs, cl_loss_item := Some (L_fail f (loss_error (cl_fut c f)))\<rparr>)" if "\<not> rf_done (cl_fut c f)"
      by (rule verdict_step [OF ok])
        (use that ok failed None in \<open>auto simp: steady_def items_def sending_def verdict_ok_def verdicts_def\<close>)
    then show ?thesis using ok l None Cons by (auto simp: loss_step_def verdict_phases split: if_splits)
  qed (use ok l None in \<open>simp add: loss_step_def\<close>)
qed

subsection \<open>Every step keeps the verdicts true\<close>

definition connection_class :: "remote_error \<Rightarrow> bool" where
  "connection_class e \<longleftrightarrow> er_class e \<in> {Err_RemoteExecutorUnavailable, Err_RemoteConnectionLost}"

lemma make_error_class [simp]: "er_class (make_error cls rid d) = cls"
  by (simp add: make_error_def Let_def)

lemma outcome_base:
  assumes "outcome cfg rid m = Some g" and "rf_base (g x) = Bf_exception (Remote_failure e)"
  shows "rf_base x = Bf_exception (Remote_failure e) \<or> \<not> connection_class e"
  using assms
  by (auto simp: outcome_def Let_def task_error_def connection_class_def set_result_def set_exception_def
      set_cancelled_def split: if_splits loaded.splits)

lemma outcome_announced: "outcome cfg rid m = Some g \<Longrightarrow> announced (g x) \<Longrightarrow> announced x"
  by (auto simp: outcome_def Let_def announced_def set_result_def set_exception_def set_cancelled_def
      split: if_splits loaded.splits)

text \<open>What a completion does to its future.\<close>

definition effect :: "client_config \<Rightarrow> completion \<Rightarrow> remote_future \<Rightarrow> remote_future" where
  "effect cfg i x =
     (case i of
        L_accepted f \<Rightarrow> set_accepted x
      | L_running f pid worker \<Rightarrow> set_running pid worker x
      | L_complete f m \<Rightarrow> (case outcome cfg (rf_request_id x) m of None \<Rightarrow> x | Some g \<Rightarrow> if rf_done x then x else g x)
      | L_reject f control \<Rightarrow> set_exception (Remote_failure (reject_error (rf_request_id x) control)) False x
      | L_fail f e \<Rightarrow> set_exception (Remote_failure e) False x)"

lemma run_completion_fut:
  "rf_base (cl_fut (run_completion cfg i c) h) = rf_base (if h = about i then effect cfg i (cl_fut c h) else cl_fut c h)"
  "rf_state (cl_fut (run_completion cfg i c) h) = rf_state (if h = about i then effect cfg i (cl_fut c h) else cl_fut c h)"
  by (cases i; simp add: run_completion_def effect_def complete_def finish_fut upd_future_def set_exception_def split: option.split)+

lemma effect_announced: "announced (effect cfg i x) \<Longrightarrow> announced x \<or> hears i = Some (about i)"
  by (cases i) (auto simp: effect_def announced_def set_exception_def split: option.splits if_splits
      dest: outcome_announced [unfolded announced_def])

lemma run_completion_announced:
  "announced (cl_fut (run_completion cfg i c) h) \<Longrightarrow> announced (cl_fut c h) \<or> hears i = Some h"
  using effect_announced [of cfg i "cl_fut c h"]
  by (cases "h = about i") (auto simp: announced_def run_completion_fut)

lemma effect_base:
  assumes "rf_base (effect cfg i x) = Bf_exception (Remote_failure e)"
  shows "rf_base x = Bf_exception (Remote_failure e) \<or> i = L_fail (about i) e \<or> \<not> connection_class e"
proof (cases i)
  case (L_complete f m)
  then show ?thesis
    using assms outcome_base [of cfg "rf_request_id x" m _ x e]
    by (cases "outcome cfg (rf_request_id x) m") (auto simp: effect_def split: if_splits)
next
  case (L_reject f control)
  then show ?thesis
    using assms by (auto simp: effect_def reject_error_def connection_class_def set_exception_def split: if_splits)
qed (use assms in \<open>auto simp: effect_def set_accepted_def set_running_def set_exception_def split: if_splits\<close>)

lemma run_completion_base:
  assumes "rf_base (cl_fut (run_completion cfg i c) h) = Bf_exception (Remote_failure e)"
  shows "rf_base (cl_fut c h) = Bf_exception (Remote_failure e) \<or> i = L_fail h e \<or> \<not> connection_class e"
  using assms effect_base [of cfg i "cl_fut c h" e] by (auto simp: run_completion_fut split: if_splits)

text \<open>What carrying out a completion leaves alone.\<close>

definition linkview :: "client \<Rightarrow> bool \<times> bool \<times> sender_phase \<times> nat list \<times> nat list" where
  "linkview c = (cl_transport_failed c, cl_socket c, cl_sender c, cl_handed c, cl_heard c)"

lemma linkview_run: "linkview (run_completion cfg i c) = linkview c"
proof -
  have v: "linkview d = linkview c" if "cview d = cview c" for d using that by (simp add: linkview_def cview_def)
  have "linkview (finish f g c) = linkview c" "linkview (upd_future f g c) = linkview c"
      "linkview (complete cfg f m c) = linkview c" for f g m
    by (rule v, simp only: cview_finish cview_upd cview_complete)+
  moreover have "linkview (release_slot d) = linkview d" "linkview (forget f d) = linkview d"
      "linkview (d\<lparr>cl_lane_phase := l\<rparr>) = linkview d" for f d l
    by (simp_all add: linkview_def release_slot_def forget_def)
  ultimately show ?thesis by (auto simp: run_completion_def split: completion.split)
qed

lemma verdict_run:
  assumes ok: "verdict_ok c" and l: "cl_lane c = i # rest"
  shows "verdict_ok (run_completion cfg i (c\<lparr>cl_lane := rest\<rparr>))" (is "verdict_ok ?d")
proof (rule verdict_step [OF ok])
  have items: "items c = insert i (items ?d)" using itemview_run [of cfg i "c\<lparr>cl_lane := rest\<rparr>"] l by (auto simp: itemview_def items_def)
  show "steady c ?d" by (rule steady_run_completion) simp
  show "e \<in> verdicts c f \<or> er_class e \<notin> {Err_RemoteExecutorUnavailable, Err_RemoteConnectionLost}"
    if "rf_base (cl_fut ?d f) = Bf_exception (Remote_failure e)" for f e
    using run_completion_base [OF that] items by (auto simp: verdicts_def connection_class_def)
  show "announced (cl_fut c f) \<or> f \<in> set (cl_heard c)" if "announced (cl_fut ?d f)" for f
    using run_completion_announced [OF that] ok items by (auto simp: verdict_ok_def)
  show "L_fail f e \<in> items c \<or> (e = loss_error (cl_fut c f) \<and> \<not> rf_done (cl_fut c f) \<and> \<not> cl_socket c)"
    if "L_fail f e \<in> items ?d" for f e using that items by simp
  show "j \<in> items c \<or> f \<in> set (cl_heard ?d)" if "j \<in> items ?d" for j f using that items by simp
qed (use ok linkview_run [of cfg i "c\<lparr>cl_lane := rest\<rparr>"] in \<open>auto simp: linkview_def sending_def verdict_ok_def\<close>)

text \<open>The loop over the futures runs only after the connection has failed.\<close>

definition loop_ok :: "client \<Rightarrow> bool" where
  "loop_ok c \<longleftrightarrow> (cl_sender c = S_lost \<or> cl_receiver c = R_lost \<or> (\<exists>f. cl_lane_phase c = Ln_lost f) \<longrightarrow> cl_transport_failed c)"

lemma verdict_put: "verdict_ok c \<Longrightarrow> verdict_ok (put_outbound m fo c)" "verdict_ok c \<Longrightarrow> verdict_ok (forget f c)"
    "verdict_ok c \<Longrightarrow> verdict_ok (release_slot c)"
  by (simp_all add: put_outbound_def forget_def release_slot_def verdict_phases)

lemma verdict_lane:
  assumes ok: "verdict_ok c" "loop_ok c"
  shows "verdict_ok (lane_step cfg expired c)"
proof (cases "cl_lane_phase c")
  case Ln_idle
  then show ?thesis using ok verdict_run [OF ok(1)] by (simp add: lane_step_def split: list.split)
next
  case (Ln_ack f)
  then show ?thesis
    using ok verdict_lost [OF ok(1)] by (auto simp: lane_step_def verdict_put verdict_phases split: prod.split)
next
  case (Ln_lost f)
  then have "\<not> cl_socket c" using ok by (simp add: loop_ok_def verdict_ok_def)
  then show ?thesis using Ln_lost verdict_loss_step [OF ok(1)] by (auto simp: lane_step_def verdict_phases split: prod.split)
next
  case (Ln_forget f)
  then show ?thesis using ok by (simp add: lane_step_def verdict_put verdict_phases)
qed

lemma verdict_sender:
  assumes ok: "verdict_ok c" "loop_ok c"
  shows "verdict_ok (sender_step sent c)"
proof -
  have failed: "verdict_ok (sender_failed c)"
    using verdict_lost [OF ok(1)] by (auto simp: sender_failed_def verdict_sender_phase split: prod.split)
  show ?thesis
  proof (cases "cl_sender c")
    case S_get
    then show ?thesis
      using ok by (auto simp: sender_step_def verdict_sender_phase verdict_phases split: list.split option.split)
  next
    case (S_have m fo)
    show ?thesis
    proof (cases fo)
      case (Some f)
      have "verdict_ok ((upd_future f (\<lambda>_. x) c)\<lparr>cl_sender := S_sock m (Some f)\<rparr>)"
        if x: "set_sent (cl_fut c f) = (x, True)" for x
      proof (rule verdict_step [OF ok(1)])
        show "steady c ((upd_future f (\<lambda>_. x) c)\<lparr>cl_sender := S_sock m (Some f)\<rparr>)"
          using x future_evolves_ops(1) [of "cl_fut c f"] by (simp add: steady_upd)
      qed (use ok(1) x in \<open>auto simp: upd_future_def items_def sending_def set_sent_def verdict_ok_def verdicts_def announced_def
          rf_done_def split: if_splits\<close>)
      then show ?thesis
        using ok S_have Some by (auto simp: sender_step_def verdict_sender_phase verdict_put split: prod.split)
    qed (use ok S_have in \<open>simp add: sender_step_def verdict_sender_phase\<close>)
  next
    case (S_sock m fo)
    have "verdict_ok (c\<lparr>cl_sender := S_write m fo, cl_handed := (case fo of None \<Rightarrow> cl_handed c | Some f \<Rightarrow> f # cl_handed c)\<rparr>)"
      if "cl_socket c"
      by (rule verdict_step [OF ok(1)])
        (use ok(1) S_sock that in \<open>auto simp: steady_def items_def sending_def verdict_ok_def verdicts_def split: option.splits\<close>)
    then show ?thesis using S_sock failed by (simp add: sender_step_def)
  next
    case S_lost
    then have "\<not> cl_socket c" using ok by (simp add: loop_ok_def verdict_ok_def)
    then show ?thesis
      using S_lost verdict_loss_step [OF ok(1)] by (auto simp: sender_step_def verdict_sender_phase split: prod.split)
  qed (use ok failed in \<open>auto simp: sender_step_def verdict_sender_phase\<close>)
qed

lemma verdict_item:
  assumes ok: "verdict_ok c" and i: "\<And>f e. i \<noteq> L_fail f e" and h: "\<And>f. hears i = Some f \<Longrightarrow> f \<in> set hs"
    and hs: "set (cl_heard c) \<subseteq> set hs"
  shows "verdict_ok (c\<lparr>cl_receiver := R_item i, cl_heard := hs\<rparr>)"
proof (rule verdict_step [OF ok])
  let ?d = "c\<lparr>cl_receiver := R_item i, cl_heard := hs\<rparr>"
  have items: "items ?d \<subseteq> insert i (items c)" by (auto simp: items_def)
  show "L_fail f e \<in> items c \<or> (e = loss_error (cl_fut c f) \<and> \<not> rf_done (cl_fut c f) \<and> \<not> cl_socket c)"
    if "L_fail f e \<in> items ?d" for f e using that items i by blast
  show "j \<in> items c \<or> f \<in> set (cl_heard ?d)" if "j \<in> items ?d" "hears j = Some f" for j f
    using that items h by auto
qed (use ok hs in \<open>auto simp: sending_def verdict_ok_def verdicts_def steady_def\<close>)

lemma verdict_rpc: "verdict_ok c \<Longrightarrow> verdict_ok (rpc_response m c)"
  by (auto simp: rpc_response_def verdict_phases split: option.split)

lemma verdict_receive:
  assumes ok: "verdict_ok c"
  shows "verdict_ok (receive_message m c)"
proof -
  have top: "verdict_ok (c\<lparr>cl_receiver := R_top\<rparr>)" "verdict_ok (c\<lparr>cl_receiver := R_term f m\<rparr>)" for f m
    using ok by (auto intro: verdict_receiver_phase)
  have lost: "verdict_ok (receiver_failed R_top c)"
    using verdict_lost [OF ok] by (auto simp: receiver_failed_def intro!: verdict_receiver_phase split: prod.split)
  have acc: "verdict_ok (c\<lparr>cl_receiver := R_item (L_accepted f), cl_heard := f # cl_heard c\<rparr>)"
      "verdict_ok (c\<lparr>cl_receiver := R_item (L_running f p w), cl_heard := f # cl_heard c\<rparr>)" for f p w
    by (rule verdict_item [OF ok]; auto)+
  have rej: "verdict_ok (c\<lparr>cl_receiver := R_item (L_reject f ctrl)\<rparr>)" for f ctrl
    using verdict_item [OF ok, of "L_reject f ctrl" "cl_heard c"] by simp
  show ?thesis unfolding receive_message_def Let_def using top lost acc rej verdict_rpc by auto
qed

lemma verdict_receiver:
  assumes ok: "verdict_ok c" "loop_ok c"
  shows "verdict_ok (receiver_step arrival c)"
proof (cases "cl_receiver c")
  case R_top
  then show ?thesis using ok by (auto simp: receiver_step_def intro!: verdict_receiver_phase)
next
  case R_read
  then show ?thesis
    using verdict_receive [OF ok(1)] verdict_lost [OF ok(1)]
    by (auto simp: receiver_step_def receiver_failed_def intro!: verdict_receiver_phase split: option.split prod.split)
next
  case (R_term f m)
  have "verdict_ok (c\<lparr>cl_terminal_received := ts\<rparr>)" for ts using ok by (simp add: verdict_phases)
  from verdict_item [OF this, of "L_complete f m" "cl_heard c"] show ?thesis using R_term by (simp add: receiver_step_def)
next
  case (R_item i)
  then have "i \<in> items c" by (simp add: items_def)
  then show ?thesis
    using ok R_item verdict_schedule [OF ok(1)]
    by (auto simp: receiver_step_def intro!: verdict_receiver_phase split: option.split)
next
  case R_lost
  then have "\<not> cl_socket c" using ok by (simp add: loop_ok_def verdict_ok_def)
  then show ?thesis
    using R_lost verdict_loss_step [OF ok(1)] by (auto simp: receiver_step_def intro!: verdict_receiver_phase split: prod.split)
qed (use ok in \<open>simp add: receiver_step_def\<close>)

lemma verdict_finish_cancelled: "verdict_ok c \<Longrightarrow> verdict_ok (finish f set_cancelled c)"
proof (rule verdict_step)
  let ?d = "finish f set_cancelled c"
  have v: "cview ?d = cview c" by (rule cview_finish)
  show "steady c ?d" by (rule steady_finish) simp_all
  show "e \<in> verdicts c g \<or> er_class e \<notin> {Err_RemoteExecutorUnavailable, Err_RemoteConnectionLost}"
    if "rf_base (cl_fut ?d g) = Bf_exception (Remote_failure e)" for g e
    using that by (auto simp: finish_fut verdicts_def set_cancelled_def split: if_splits)
  show "announced (cl_fut c g) \<or> g \<in> set (cl_heard c)" if "announced (cl_fut ?d g)" for g
    using that by (auto simp: finish_fut announced_def set_cancelled_def split: if_splits)
qed (use cview_finish [of f set_cancelled c] in \<open>auto simp: cview_def sending_def items_def verdict_ok_def\<close>)

lemma client_cancel_finish: "client_cancel f c = (if rf_state (cl_fut c f) = LOCAL_PENDING then finish f set_cancelled c else c)"
  by (auto simp: client_cancel_def cancel_local_def finish_def upd_future_def)

lemma verdict_users:
  assumes ok: "verdict_ok c"
  shows "verdict_ok (client_submit_put cfg f late expired c)" "verdict_ok (client_cancel f c)"
    and "verdict_ok (client_add_callback f cb c)" "verdict_ok (cancel_decided k c)"
    and "verdict_ok (client_shutdown c)" "verdict_ok (finish_shutdown cfg answered expired c)"
    and "verdict_ok (rpc_put cfg kind control c)" "verdict_ok (rpc_end token c)"
    and "rpc_begin token fo c = Some d \<Longrightarrow> verdict_ok d"
proof -
  show "verdict_ok (client_submit_put cfg f late expired c)"
    using ok by (simp add: client_submit_put_def Let_def verdict_put verdict_phases split: sum.split)
  show "verdict_ok (client_cancel f c)" using ok by (simp add: client_cancel_finish verdict_finish_cancelled)
  have "verdict_ok (upd_future f (\<lambda>_. (cl_fut c f)\<lparr>rf_callbacks := cbs\<rparr>) c)" for cbs
    by (rule verdict_step [OF ok])
      (use ok in \<open>auto simp: steady_def upd_future_def items_def sending_def verdict_ok_def verdicts_def announced_def split: if_splits\<close>)
  then show "verdict_ok (client_add_callback f cb c)"
    using ok by (simp add: client_add_callback_def add_done_callback_def verdict_phases)
  show "verdict_ok (cancel_decided k c)"
    using ok by (simp add: cancel_decided_def Let_def verdict_finish_cancelled split: option.split)
  show "verdict_ok (finish_shutdown cfg answered expired c)"
    using ok by (auto simp: finish_shutdown_def verdict_phases verdict_put split: client_shutdown.split list.split)
  show "rpc_begin token fo c = Some d \<Longrightarrow> verdict_ok d"
    using ok by (auto simp: rpc_begin_def verdict_phases split: if_splits)
qed (use ok in \<open>simp_all add: client_shutdown_def rpc_put_def rpc_end_def verdict_phases verdict_put\<close>)

text \<open>The futures whose message is on its way to the socket or has reached it.\<close>

definition conveyed :: "client \<Rightarrow> nat set" where
  "conveyed c = set (cl_putting c) \<union> {f. \<exists>m. (m, Some f) \<in> set (cl_outbound c)} \<union> set (cl_handed c) \<union>
     {f. \<exists>m. cl_sender c \<in> {S_have m (Some f), S_sock m (Some f), S_write m (Some f)}}"

definition conveyed_ok :: "client \<Rightarrow> bool" where
  "conveyed_ok c \<longleftrightarrow> (\<forall>f \<in> conveyed c. f < cl_nfut c)"

lemma verdict_submit:
  assumes ok: "verdict_ok c" "conveyed_ok c" and inv: "client_inv cfg c"
  shows "verdict_ok (fst (submit_register cfg operation opts ser c))"
proof (cases rule: submit_register_cases [of cfg operation opts ser c])
  case (registered m)
  let ?d = "register cfg m c" and ?n = "cl_nfut c"
  have d: "cl_fut ?d f = (if f = ?n then new_future (request_id_of cfg (Suc (cl_sequence c))) else cl_fut c f)"
      "items ?d = items c" "sending ?d = sending c" "cl_handed ?d = cl_handed c" "cl_heard ?d = cl_heard c"
      "cl_socket ?d = cl_socket c" "cl_transport_failed ?d = cl_transport_failed c" for f
    by (simp_all add: register_def Let_def items_def sending_def)
  have new: "?n \<notin> set (cl_handed c) \<union> sending c" "L_fail ?n e \<notin> items c" for e
    using ok(2) inv by (auto simp: conveyed_ok_def conveyed_def sending_def client_inv_def refs_ok_def item_ok_def)
  have fresh: "future_ok (new_future r)" "\<not> announced (new_future r)" "rf_base (new_future r) = Bf_pending" for r
    by (simp_all add: new_future_def future_ok_def announced_def)
  have "verdicts ?d f \<subseteq> verdicts c f" for f using new fresh by (auto simp: verdicts_def d split: if_splits)
  then have "verdict_ok ?d"
    using ok(1) new(1) fresh unfolding verdict_ok_def d by (auto simp: d split: if_splits) blast+
  then show ?thesis using registered(4) by simp
qed (use ok in simp)

subsection \<open>Where messages and the loop are\<close>

lemma cview_conveyed: "cview d = cview c \<Longrightarrow> conveyed d = conveyed c"
  by (simp add: cview_def conveyed_def)

lemmas conveyed_view = cview_conveyed [OF cview_finish] cview_conveyed [OF cview_upd] cview_conveyed [OF cview_complete]
  cview_conveyed [OF cview_rpc(1)] cview_conveyed [OF cview_rpc(3)]

lemma conveyed_frame:
  "conveyed (release_slot c) = conveyed c" "conveyed (forget f c) = conveyed c" "conveyed (c\<lparr>cl_lane_phase := l\<rparr>) = conveyed c"
  "conveyed (c\<lparr>cl_lane := is\<rparr>) = conveyed c" "conveyed (c\<lparr>cl_receiver := r\<rparr>) = conveyed c"
  "conveyed (c\<lparr>cl_terminal_received := ts\<rparr>) = conveyed c" "conveyed (put_outbound m None c) = conveyed c"
  "conveyed (c\<lparr>cl_receiver := r, cl_heard := hs\<rparr>) = conveyed c" "conveyed (c\<lparr>cl_shutdown := sd\<rparr>) = conveyed c"
  by (auto simp: conveyed_def release_slot_def forget_def put_outbound_def)

lemma conveyed_lost: "connection_lost c = (d, e) \<Longrightarrow> conveyed d \<subseteq> conveyed c"
  by (auto simp: connection_lost_def conveyed_def split: if_splits)

lemma conveyed_schedule: "schedule_completion i c = Some d \<Longrightarrow> conveyed d \<subseteq> conveyed c"
  by (auto simp: schedule_completion_def conveyed_def split: if_splits)

lemma conveyed_loss_step: "loss_step c = (d, e) \<Longrightarrow> conveyed d \<subseteq> conveyed c"
  by (auto simp: loss_step_def schedule_completion_def conveyed_def split: option.splits list.splits if_splits)

lemma conveyed_run: "conveyed (run_completion cfg i c) = conveyed c"
  by (cases i) (simp_all add: run_completion_def conveyed_frame conveyed_view)

lemma conveyed_lane: "conveyed (lane_step cfg expired c) \<subseteq> conveyed c"
  using conveyed_lost [of c] conveyed_loss_step [of c]
  by (simp add: lane_step_def conveyed_run conveyed_frame split: lane_phase.split list.split prod.split)

lemma conveyed_receiver: "conveyed (receiver_step arrival c) \<subseteq> conveyed c"
proof -
  have failed: "conveyed (receiver_failed r c) \<subseteq> conveyed c" for r
    using conveyed_lost [of c] by (simp add: receiver_failed_def conveyed_frame split: prod.split)
  moreover have "conveyed (rpc_response m d) = conveyed d" for m d by (rule conveyed_view)
  ultimately have "conveyed (receive_message m c) \<subseteq> conveyed c" for m
    by (simp add: receive_message_def Let_def conveyed_frame)
  then show ?thesis
    using failed conveyed_schedule [of _ c] conveyed_loss_step [of c]
    by (simp add: receiver_step_def conveyed_frame split: receiver_phase.split option.split prod.split)
qed

lemma conveyed_exit: "s \<in> {S_get, S_lost, S_exit} \<Longrightarrow> conveyed (c\<lparr>cl_sender := s\<rparr>) \<subseteq> conveyed c"
  by (auto simp: conveyed_def)

lemma conveyed_sender: "conveyed (sender_step sent c) \<subseteq> conveyed c"
proof -
  have failed: "conveyed (sender_failed c) \<subseteq> conveyed c"
  proof -
    obtain d e where d: "connection_lost c = (d, e)" by fastforce
    have "conveyed (d\<lparr>cl_sender := s\<rparr>) \<subseteq> conveyed c" if "s \<in> {S_get, S_lost, S_exit}" for s
      using conveyed_exit [OF that] conveyed_lost [OF d] by (rule subset_trans)
    then show ?thesis using d by (simp add: sender_failed_def)
  qed
  have lost: "conveyed (d\<lparr>cl_sender := S_exit\<rparr>) \<subseteq> conveyed c" if "loss_step c = (d, e)" for d e
    using conveyed_exit conveyed_loss_step [OF that] by (rule subset_trans) simp
  have upd: "conveyed (upd_future f g c) = conveyed c" for f g by (rule conveyed_view)
  show ?thesis
  proof (cases "cl_sender c")
    case (S_have m fo)
    have "conveyed ((upd_future f g c)\<lparr>cl_sender := S_sock m (Some f)\<rparr>) \<subseteq> conveyed c" if "fo = Some f" for f g
      using S_have that by (auto simp: conveyed_def upd_future_def)
    moreover have "conveyed (c\<lparr>cl_sender := S_sock m fo\<rparr>) \<subseteq> conveyed c" using S_have by (auto simp: conveyed_def)
    moreover have "conveyed ((forget f c)\<lparr>cl_sender := S_get\<rparr>) \<subseteq> conveyed c" for f by (auto simp: conveyed_def forget_def)
    ultimately show ?thesis using S_have by (cases fo) (simp_all add: sender_step_def split: prod.split)
  next
    case S_lost
    then show ?thesis using lost conveyed_loss_step [of c] by (simp add: sender_step_def split: prod.splits)
  next
    case S_get
    then show ?thesis by (auto simp: sender_step_def conveyed_def split: list.splits option.splits prod.splits)
  next
    case (S_sock m fo)
    have "conveyed (c\<lparr>cl_sender := S_write m fo, cl_handed := (case fo of None \<Rightarrow> cl_handed c | Some f \<Rightarrow> f # cl_handed c)\<rparr>) \<subseteq> conveyed c"
      using S_sock by (auto simp: conveyed_def split: option.split)
    then show ?thesis using S_sock failed by (simp add: sender_step_def)
  qed (use failed conveyed_exit in \<open>simp_all add: sender_step_def\<close>)
qed

lemma conveyed_users:
  "conveyed (client_submit_put cfg f late expired c) \<subseteq> conveyed c" "conveyed (finish_shutdown cfg answered expired c) = conveyed c"
  "conveyed (client_cancel f c) = conveyed c" "conveyed (cancel_decided k c) = conveyed c"
  "conveyed (client_add_callback f cb c) = conveyed c" "conveyed (client_shutdown c) = conveyed c"
  "conveyed (rpc_put cfg kind control c) = conveyed c" "conveyed (rpc_end token c) = conveyed c"
proof -
  show "conveyed (client_submit_put cfg f late expired c) \<subseteq> conveyed c"
    using set_remove1_subset [of f "cl_putting c"]
    by (auto simp: client_submit_put_def Let_def conveyed_def forget_def put_outbound_def split: sum.splits if_splits)
  show "conveyed (finish_shutdown cfg answered expired c) = conveyed c"
    by (auto simp: finish_shutdown_def conveyed_def put_outbound_def split: client_shutdown.split list.split)
  show "conveyed (client_add_callback f cb c) = conveyed c"
    by (auto simp: client_add_callback_def upd_future_def conveyed_def split: prod.split)
qed (simp_all add: client_cancel_finish cancel_decided_def Let_def conveyed_view client_shutdown_def rpc_put_def
    conveyed_frame split: option.split, simp_all add: conveyed_def)

lemma conveyed_step:
  assumes "conveyed_ok c"
  shows "conveyed_ok (client_step cfg ev c)"
proof (cases "\<exists>operation opts ser. ev = Cv_submit operation opts ser")
  case True
  then obtain operation opts ser where ev: "ev = Cv_submit operation opts ser" by blast
  show ?thesis
  proof (cases rule: submit_register_cases [of cfg operation opts ser c])
    case (registered m)
    have "conveyed (register cfg m c) = insert (cl_nfut c) (conveyed c)" "cl_nfut (register cfg m c) = Suc (cl_nfut c)"
      by (auto simp: register_def Let_def conveyed_def)
    then show ?thesis using registered ev assms by (auto simp: conveyed_ok_def)
  qed (use ev assms in simp)
next
  case False
  then have "cl_nfut (client_step cfg ev c) = cl_nfut c" using steady_step [of ev c cfg] by (auto simp: steady_def)
  moreover have "conveyed d = conveyed c" if "rpc_begin token fo c = Some d" for token fo d
    using that by (intro cview_conveyed cview_rpc)
  then have "conveyed (client_step cfg ev c) \<subseteq> conveyed c"
    using False by (cases ev) (simp_all add: conveyed_sender conveyed_receiver conveyed_lane conveyed_users split: option.split)
  ultimately show ?thesis using assms by (auto simp: conveyed_ok_def)
qed

definition phases :: "client \<Rightarrow> sender_phase \<times> receiver_phase \<times> lane_phase \<times> bool" where
  "phases c = (cl_sender c, cl_receiver c, cl_lane_phase c, cl_transport_failed c)"

lemma phases_loop: "phases d = phases c \<Longrightarrow> loop_ok c \<Longrightarrow> loop_ok d"
  by (simp add: phases_def loop_ok_def)

lemma phases_lost: "connection_lost c = (d, e) \<Longrightarrow> cl_transport_failed d"
  by (auto simp: connection_lost_def split: if_splits)

lemma phases_loss_step: "loss_step c = (d, e) \<Longrightarrow> phases d = phases c"
  by (auto simp: loss_step_def schedule_completion_def phases_def split: option.splits list.splits if_splits)

lemma phases_futures: "phases (upd_future f g c) = phases c" "phases (finish f g c) = phases c" "phases (complete cfg f m c) = phases c"
proof -
  have upd: "phases (upd_future f g c) = phases c" for f g c by (simp add: phases_def upd_future_def)
  have "phases (dispatch_callbacks f c) = phases c" for f c
    by (simp add: phases_def dispatch_callbacks_def upd_future_def take_callbacks_def split: list.split)
  then have fin: "phases (finish f g c) = phases c" for f g by (simp add: finish_def upd)
  then show "phases (complete cfg f m c) = phases c" by (simp add: complete_def split: option.split)
  show "phases (upd_future f g c) = phases c" "phases (finish f g c) = phases c" using upd fin by simp_all
qed

lemma loop_sender: "loop_ok c \<Longrightarrow> loop_ok (sender_step sent c)"
proof -
  assume ok: "loop_ok c"
  have failed: "loop_ok (sender_failed c)"
    by (cases "connection_lost c") (use phases_lost in \<open>auto simp: sender_failed_def loop_ok_def\<close>)
  have lost: "loop_ok (d\<lparr>cl_sender := S_exit\<rparr>)" "loop_ok d" if "loss_step c = (d, e)" for d e
    using phases_loss_step [OF that] ok by (simp_all add: phases_def loop_ok_def)
  have "loop_ok ((upd_future f g c)\<lparr>cl_sender := S_sock m fo\<rparr>)" "loop_ok ((forget f c)\<lparr>cl_sender := S_get\<rparr>)" for f g m fo
    using ok by (simp_all add: loop_ok_def upd_future_def forget_def)
  then show ?thesis
    using ok failed lost by (simp add: sender_step_def split: sender_phase.split list.split option.split prod.split)
      (simp add: loop_ok_def)
qed

lemma loop_receiver: "loop_ok c \<Longrightarrow> loop_ok (receiver_step arrival c)"
proof -
  assume ok: "loop_ok c"
  have failed: "loop_ok (receiver_failed r c)" if "r \<in> {R_top, R_exit}" for r
    by (cases "connection_lost c") (use that phases_lost in \<open>auto simp: receiver_failed_def loop_ok_def\<close>)
  have lost: "loop_ok (d\<lparr>cl_receiver := R_top\<rparr>)" "loop_ok d" if "loss_step c = (d, e)" for d e
    using phases_loss_step [OF that] ok by (simp_all add: phases_def loop_ok_def)
  have rpc: "loop_ok (rpc_response m (c\<lparr>cl_receiver := R_top\<rparr>))" for m
    using ok by (simp add: rpc_response_def loop_ok_def split: option.split)
  have sched: "loop_ok (d\<lparr>cl_receiver := R_top\<rparr>)" if "schedule_completion i c = Some d" for i d
    using that ok by (auto simp: schedule_completion_def loop_ok_def split: if_splits)
  have idle: "loop_ok (c\<lparr>cl_receiver := r\<rparr>)" "loop_ok (c\<lparr>cl_receiver := r, cl_heard := hs\<rparr>)"
      "loop_ok (c\<lparr>cl_terminal_received := ts, cl_receiver := r\<rparr>)" if "r \<noteq> R_lost" for r hs ts
    using that ok by (simp_all add: loop_ok_def)
  have "loop_ok (receive_message m c)" for m
    unfolding receive_message_def Let_def using failed rpc idle by simp
  then show ?thesis
    using ok failed lost sched idle by (simp add: receiver_step_def split: receiver_phase.split option.split prod.split)
qed

lemma loop_lane: "loop_ok c \<Longrightarrow> loop_ok (lane_step cfg expired c)"
proof -
  assume ok: "loop_ok c"
  have lost: "loop_ok (d\<lparr>cl_lane_phase := Ln_forget f\<rparr>)" "loop_ok d" if "loss_step c = (d, e)" for d e f
    using phases_loss_step [OF that] ok by (simp_all add: phases_def loop_ok_def)
  have rel: "loop_ok (release_slot d)" "loop_ok (forget f d)" "loop_ok (put_outbound x y d)" if "loop_ok d" for d f x y
    using that by (simp_all add: loop_ok_def release_slot_def forget_def put_outbound_def)
  have ack: "loop_ok (d\<lparr>cl_lane_phase := l\<rparr>)" if "loop_ok d" "l \<in> {Ln_ack f, Ln_forget f}" for d l f
    using that by (auto simp: loop_ok_def)
  have view: "loop_ok (upd_future f g d)" "loop_ok (finish f g d)" "loop_ok (complete cfg f m d)" if "loop_ok d" for f g m d
    using that phases_futures phases_loop by blast+
  have "loop_ok (c\<lparr>cl_lane := rest\<rparr>)" for rest using ok by (simp add: loop_ok_def)
  then have run: "loop_ok (run_completion cfg i (c\<lparr>cl_lane := rest\<rparr>))" for i rest
    by (auto simp: run_completion_def rel view intro: ack split: completion.split)
  have fail: "loop_ok (d\<lparr>cl_lane_phase := l\<rparr>)" if "connection_lost c = (d, e)" for d e l
    using phases_lost [OF that] by (simp add: loop_ok_def)
  show ?thesis
    using ok lost rel run fail
    by (simp add: lane_step_def loop_ok_def [of "_\<lparr>cl_terminal_received := _\<rparr>"] split: lane_phase.split list.split prod.split)
      (auto simp: loop_ok_def put_outbound_def forget_def release_slot_def)
qed

lemma loop_users:
  assumes ok: "loop_ok c"
  shows "loop_ok (client_submit_put cfg f late expired c)" "loop_ok (client_cancel f c)"
    and "loop_ok (client_add_callback f cb c)" "loop_ok (cancel_decided k c)"
    and "loop_ok (client_shutdown c)" "loop_ok (finish_shutdown cfg answered expired c)"
    and "loop_ok (rpc_put cfg kind control c)" "loop_ok (rpc_end token c)"
    and "rpc_begin token fo c = Some d \<Longrightarrow> loop_ok d"
    and "loop_ok (fst (submit_register cfg operation opts ser c))"
proof -
  have view: "loop_ok (upd_future f g c)" "loop_ok (finish f g c)" for f g
    using ok phases_futures phases_loop by blast+
  show "loop_ok (client_submit_put cfg f late expired c)"
    using ok by (simp add: client_submit_put_def Let_def loop_ok_def forget_def put_outbound_def split: sum.split)
  show "loop_ok (client_cancel f c)" "loop_ok (cancel_decided k c)"
    using ok view by (simp_all add: client_cancel_finish cancel_decided_def Let_def split: option.split)
  show "loop_ok (client_add_callback f cb c)"
    using ok by (simp add: client_add_callback_def loop_ok_def upd_future_def split: prod.split)
  show "loop_ok (finish_shutdown cfg answered expired c)"
    using ok by (auto simp: finish_shutdown_def loop_ok_def put_outbound_def split: client_shutdown.split list.split)
  show "rpc_begin token fo c = Some d \<Longrightarrow> loop_ok d"
    using ok by (auto simp: rpc_begin_def loop_ok_def split: if_splits)
  show "loop_ok (fst (submit_register cfg operation opts ser c))"
    using ok by (cases rule: submit_register_cases [of cfg operation opts ser c]) (simp_all add: register_def Let_def loop_ok_def)
qed (use ok in \<open>simp_all add: client_shutdown_def rpc_put_def rpc_end_def put_outbound_def loop_ok_def\<close>)

text \<open>The three invariants together.\<close>

definition client_sound :: "client_config \<Rightarrow> client \<Rightarrow> bool" where
  "client_sound cfg c \<longleftrightarrow> client_inv cfg c \<and> verdict_ok c \<and> conveyed_ok c \<and> loop_ok c"

lemma client_sound_step:
  assumes "client_sound cfg c"
  shows "client_sound cfg (client_step cfg ev c)"
proof -
  have ok: "client_inv cfg c" "verdict_ok c" "conveyed_ok c" "loop_ok c" using assms by (simp_all add: client_sound_def)
  have "verdict_ok (client_step cfg ev c)"
    using verdict_submit [OF ok(2,3,1)] verdict_sender [OF ok(2,4)] verdict_receiver [OF ok(2,4)] verdict_lane [OF ok(2,4)]
      verdict_users [OF ok(2)] ok(2)
    by (cases ev) (simp_all split: option.split)
  moreover have "loop_ok (client_step cfg ev c)"
    using loop_users [OF ok(4)] ok(4) by (cases ev) (simp_all add: loop_sender loop_receiver loop_lane split: option.split)
  ultimately show ?thesis using ok client_step_inv conveyed_step by (simp add: client_sound_def)
qed

lemma client_reachable_sound:
  assumes "client_reachable cfg c"
  shows "client_sound cfg c"
  using assms
proof (induction rule: client_reachable.induct)
  case init
  have "client_inv cfg (client_init cfg)" by (intro client_reachable_inv client_reachable.init)
  then show ?case
    by (simp add: client_sound_def verdict_ok_def conveyed_ok_def conveyed_def loop_ok_def client_init_def sending_def verdicts_def
        items_def announced_def new_future_def future_ok_def)
qed (simp add: client_sound_step)

end
