(* ===== verification/ClientCallbacks.thy ===== *)
theory ClientCallbacks
  imports ClientInv
begin

text \<open>
  The callbacks of remote futures: whatever happens in the client, the callbacks handed to the dispatcher or invoked at once,
  followed by those still registered, are the callbacks that were added, each once and in their order.
\<close>

definition handed_over :: "nat \<Rightarrow> client \<Rightarrow> nat list" where
  "handed_over f c = concat (map fst (filter (\<lambda>x. snd x = f) (cl_called c)))"

definition owed :: "nat \<Rightarrow> client \<Rightarrow> nat list" where
  "owed f c = handed_over f c @ rf_callbacks (cl_fut c f)"

lemma owed_fields [simp]:
  "owed f (c\<lparr>cl_futures := x1\<rparr>) = owed f c" "owed f (c\<lparr>cl_putting := x2\<rparr>) = owed f c"
  "owed f (c\<lparr>cl_outbound := x3\<rparr>) = owed f c" "owed f (c\<lparr>cl_terminal_received := x4\<rparr>) = owed f c"
  "owed f (c\<lparr>cl_sender := x5\<rparr>) = owed f c" "owed f (c\<lparr>cl_receiver := x6\<rparr>) = owed f c"
  "owed f (c\<lparr>cl_lane := x7\<rparr>) = owed f c" "owed f (c\<lparr>cl_lane_phase := x8\<rparr>) = owed f c"
  "owed f (c\<lparr>cl_slots := x9\<rparr>) = owed f c" "owed f (c\<lparr>cl_loss := y1\<rparr>) = owed f c"
  "owed f (c\<lparr>cl_loss_item := y2\<rparr>) = owed f c" "owed f (c\<lparr>cl_rpc := y3\<rparr>) = owed f c"
  "owed f (c\<lparr>cl_cell := y4\<rparr>) = owed f c" "owed f (c\<lparr>cl_ncell := y5\<rparr>) = owed f c"
  "owed f (c\<lparr>cl_shutdown := y6\<rparr>) = owed f c" "owed f (c\<lparr>cl_handed := y7\<rparr>) = owed f c"
  "owed f (c\<lparr>cl_heard := y8\<rparr>) = owed f c" "owed f (c\<lparr>cl_closed := z1\<rparr>) = owed f c"
  "owed f (c\<lparr>cl_transport_failed := z2\<rparr>) = owed f c" "owed f (c\<lparr>cl_socket := z3\<rparr>) = owed f c"
  by (simp_all add: owed_def handed_over_def)

lemma owed_ops [simp]:
  "owed f (forget g c) = owed f c" "owed f (put_outbound m fo c) = owed f c" "owed f (release_slot c) = owed f c"
  by (simp_all add: forget_def put_outbound_def release_slot_def)

lemma owed_loss:
  "connection_lost c = (d, e) \<Longrightarrow> owed f d = owed f c" "schedule_completion item c = Some d \<Longrightarrow> owed f d = owed f c"
  "loss_step c = (d, e) \<Longrightarrow> owed f d = owed f c"
  by (auto simp: connection_lost_def schedule_completion_def loss_step_def split: if_splits option.splits list.splits)

lemma owed_upd: "rf_callbacks (g (cl_fut c h)) = rf_callbacks (cl_fut c h) \<Longrightarrow> owed f (upd_future h g c) = owed f c"
  by (simp add: owed_def handed_over_def upd_future_def)

lemma owed_dispatch [simp]: "owed f (dispatch_callbacks h c) = owed f c"
  by (simp add: owed_def handed_over_def dispatch_callbacks_def take_callbacks_def upd_future_def split: list.split)

lemma setters_keep_callbacks [simp]:
  "rf_callbacks (set_accepted x) = rf_callbacks x" "rf_callbacks (set_running p w x) = rf_callbacks x"
  "rf_callbacks (set_result v x) = rf_callbacks x" "rf_callbacks (set_exception e b x) = rf_callbacks x"
  "rf_callbacks (set_cancelled x) = rf_callbacks x" "rf_callbacks (fst (set_sent x)) = rf_callbacks x"
  by (simp_all add: set_accepted_def set_running_def set_result_def set_exception_def set_cancelled_def set_sent_def)

lemma owed_finish: "(\<And>x. rf_callbacks (g x) = rf_callbacks x) \<Longrightarrow> owed f (finish h g c) = owed f c"
  by (simp add: finish_def owed_upd)

lemma outcome_keeps_callbacks: "outcome cfg rid m = Some g \<Longrightarrow> rf_callbacks (g x) = rf_callbacks x"
  by (auto simp: outcome_def Let_def split: if_splits loaded.splits)

lemma owed_completion [simp]: "owed f (run_completion cfg item c) = owed f c"
  by (auto simp: run_completion_def complete_def owed_upd owed_finish outcome_keeps_callbacks split: completion.split option.split)

lemma owed_sender [simp]: "owed f (sender_step sent c) = owed f c"
proof -
  have "owed f (upd_future h (\<lambda>_. x) c) = owed f c" if "set_sent (cl_fut c h) = (x, ok)" for h x ok
    using setters_keep_callbacks(6) [of "cl_fut c h"] that by (simp add: owed_upd)
  then show ?thesis
    by (auto simp: sender_step_def sender_failed_def dest: owed_loss split: sender_phase.splits list.splits option.splits prod.splits)
qed

lemma owed_receiver [simp]: "owed f (receiver_step arrival c) = owed f c"
proof -
  have failed: "owed f (receiver_failed r c) = owed f c" for r
    by (auto simp: receiver_failed_def dest: owed_loss split: prod.splits)
  moreover have "owed f (rpc_response m (c\<lparr>cl_receiver := R_top\<rparr>)) = owed f c" for m
    by (auto simp: rpc_response_def split: option.splits)
  ultimately have "owed f (receive_message m c) = owed f c" for m by (simp add: receive_message_def Let_def)
  then show ?thesis
    using failed by (auto simp: receiver_step_def dest: owed_loss split: receiver_phase.splits option.splits prod.splits)
qed

lemma owed_lane [simp]: "owed f (lane_step cfg expired c) = owed f c"
  by (auto simp: lane_step_def dest: owed_loss split: lane_phase.splits list.splits prod.splits)

lemma owed_users [simp]:
  "owed f (client_submit_put cfg h late expired c) = owed f c" "owed f (client_cancel h c) = owed f c"
  "owed f (finish_shutdown cfg answered expired c) = owed f c" "owed f (cancel_decided k c) = owed f c"
  "owed f (client_shutdown c) = owed f c"
proof -
  show "owed f (client_submit_put cfg h late expired c) = owed f c"
    by (simp add: client_submit_put_def Let_def split: sum.split)
  show "owed f (client_cancel h c) = owed f c"
    by (auto simp: client_cancel_def cancel_local_def owed_upd split: prod.splits option.splits bool.splits if_splits)
  show "owed f (finish_shutdown cfg answered expired c) = owed f c"
    by (simp add: finish_shutdown_def split: client_shutdown.split list.split)
  show "owed f (cancel_decided k c) = owed f c"
    by (simp add: cancel_decided_def Let_def owed_finish split: option.split)
qed (simp add: client_shutdown_def)

text \<open>The callbacks that the users add to future \<open>f\<close> in a sequence of events.\<close>

fun added_callbacks :: "nat \<Rightarrow> client_event list \<Rightarrow> nat list" where
  "added_callbacks f [] = []"
| "added_callbacks f (ev # evs) =
     (case ev of Cv_add_callback g cb \<Rightarrow> if g = f then [cb] else [] | _ \<Rightarrow> []) @ added_callbacks f evs"

lemma owed_add:
  assumes "rf_done (cl_fut c g) \<Longrightarrow> rf_callbacks (cl_fut c g) = []"
  shows "owed f (client_add_callback g cb c) = owed f c @ (if g = f then [cb] else [])"
  using assms by (auto simp: client_add_callback_def add_done_callback_def owed_def handed_over_def upd_future_def)

end
