(* ===== verification/ClientGuarantees.thy ===== *)
theory ClientGuarantees
  imports ClientProps ClientCallbacks "HOL-Library.Code_Target_Nat"
begin

text \<open>
  What the client guarantees its users, and two runs in which it hangs.
\<close>

subsection \<open>Futures over a run\<close>

text \<open>Registered futures evolve in every step.\<close>

lemma client_step_evolves:
  assumes "f < cl_nfut c"
  shows "future_evolves (cl_fut c f) (cl_fut (client_step cfg ev c) f)" "cl_nfut c \<le> cl_nfut (client_step cfg ev c)"
proof -
  have "future_evolves (cl_fut c f) (cl_fut (client_step cfg ev c) f) \<and> cl_nfut c \<le> cl_nfut (client_step cfg ev c)"
  proof (cases "\<exists>operation opts ser. ev = Cv_submit operation opts ser")
    case True
    then obtain operation opts ser where ev: "ev = Cv_submit operation opts ser" by blast
    show ?thesis
      by (cases rule: submit_register_cases [of cfg operation opts ser c]) (use ev assms in \<open>simp_all add: register_def Let_def\<close>)
  next
    case False
    then show ?thesis using steady_step [of ev c cfg] by (auto simp: steady_def)
  qed
  then show "future_evolves (cl_fut c f) (cl_fut (client_step cfg ev c) f)" "cl_nfut c \<le> cl_nfut (client_step cfg ev c)" by simp_all
qed

lemma client_run_evolves: "f < cl_nfut c \<Longrightarrow> future_evolves (cl_fut c f) (cl_fut (client_run cfg evs c) f)"
proof (induction evs arbitrary: c)
  case (Cons ev evs)
  have "f < cl_nfut (client_step cfg ev c)" using Cons.prems client_step_evolves(2) [OF Cons.prems, of cfg ev] by simp
  from Cons.IH [OF this] show ?case
    using client_step_evolves(1) [OF Cons.prems] by (auto simp: client_run_def intro: future_evolves_trans)
qed (simp add: client_run_def)

subsection \<open>Callbacks of finished futures\<close>

text \<open>A future that is finished has handed over its callbacks.\<close>

definition flushed :: "client \<Rightarrow> bool" where
  "flushed c \<longleftrightarrow> (\<forall>f. rf_done (cl_fut c f) \<longrightarrow> rf_callbacks (cl_fut c f) = [])"

lemma flushed_upd: "flushed c \<Longrightarrow> (rf_done (g (cl_fut c f)) \<Longrightarrow> rf_callbacks (g (cl_fut c f)) = []) \<Longrightarrow> flushed (upd_future f g c)"
  by (simp add: flushed_def upd_future_def)

lemma flushed_finish: "flushed c \<Longrightarrow> flushed (finish f g c)"
  by (auto simp: flushed_def finish_def dispatch_callbacks_def take_callbacks_def upd_future_def split: list.split)

lemma flushed_fut: "cl_fut d = cl_fut c \<Longrightarrow> flushed d = flushed c"
  by (simp add: flushed_def)

lemma fut_same:
  "connection_lost c = (d, e) \<Longrightarrow> cl_fut d = cl_fut c" "schedule_completion i c = Some d \<Longrightarrow> cl_fut d = cl_fut c"
  "loss_step c = (d, e) \<Longrightarrow> cl_fut d = cl_fut c" "rpc_begin token fo c = Some d \<Longrightarrow> cl_fut d = cl_fut c"
  by (auto simp: connection_lost_def schedule_completion_def loss_step_def rpc_begin_def split: if_splits option.splits list.splits)

lemma fut_same_ops [simp]:
  "cl_fut (receiver_step arrival c) = cl_fut c" "cl_fut (rpc_end token c) = cl_fut c" "cl_fut (rpc_put cfg kind control c) = cl_fut c"
  "cl_fut (client_shutdown c) = cl_fut c" "cl_fut (finish_shutdown cfg answered expired c) = cl_fut c"
  "cl_fut (client_submit_put cfg f late expired c) = cl_fut c"
proof -
  have failed: "cl_fut (receiver_failed r c) = cl_fut c" for r
    by (cases "connection_lost c") (simp add: receiver_failed_def fut_same(1))
  have "cl_fut (receive_message m c) = cl_fut c" for m
    using failed by (simp add: receive_message_def Let_def rpc_response_def split: option.split)
  moreover have "cl_fut (case loss_step c of (d, e) \<Rightarrow> if e then d\<lparr>cl_receiver := R_top\<rparr> else d) = cl_fut c"
    by (cases "loss_step c") (simp add: fut_same(3))
  moreover have "cl_fut (case schedule_completion i c of None \<Rightarrow> c | Some d \<Rightarrow> d\<lparr>cl_receiver := R_top\<rparr>) = cl_fut c" for i
    by (cases "schedule_completion i c") (simp_all add: fut_same(2))
  ultimately show "cl_fut (receiver_step arrival c) = cl_fut c"
    using failed by (simp add: receiver_step_def split: receiver_phase.split option.split)
  show "cl_fut (finish_shutdown cfg answered expired c) = cl_fut c"
    by (auto simp: finish_shutdown_def split: client_shutdown.split list.split)
qed (simp_all add: rpc_end_def rpc_put_def client_shutdown_def client_submit_put_def Let_def split: sum.split)

lemma flushed_lane: "flushed c \<Longrightarrow> flushed (lane_step cfg expired c)"
proof -
  assume ok: "flushed c"
  have run: "flushed (run_completion cfg i (c\<lparr>cl_lane := rest\<rparr>))" for i rest
  proof -
    have "flushed (c\<lparr>cl_lane := rest\<rparr>)" using ok by (simp add: flushed_def)
    then have "flushed (upd_future f set_accepted (c\<lparr>cl_lane := rest\<rparr>))"
        "flushed (upd_future f (set_running p w) (c\<lparr>cl_lane := rest\<rparr>))" "flushed (finish f g (c\<lparr>cl_lane := rest\<rparr>))" for f p w g
      by (simp_all add: flushed_finish) (auto simp: flushed_def upd_future_def set_accepted_def set_running_def rf_done_def)
    then show ?thesis
      using ok by (auto simp: run_completion_def complete_def flushed_def split: completion.split option.split)
  qed
  have lost: "flushed (d\<lparr>cl_lane_phase := l\<rparr>)" if "connection_lost c = (d, e)" for d e l
    using ok fut_same(1) [OF that] by (simp add: flushed_def)
  have loss: "flushed (d\<lparr>cl_lane_phase := l\<rparr>)" "flushed d" if "loss_step c = (d, e)" for d e l
    using ok fut_same(3) [OF that] by (simp_all add: flushed_def)
  have "flushed ((put_outbound m fo c)\<lparr>cl_lane_phase := l\<rparr>)"
      "flushed (release_slot ((forget f c)\<lparr>cl_terminal_received := ts\<rparr>))" for m fo l f ts
    using ok by (simp_all add: flushed_def)
  then show ?thesis
    using ok run lost loss by (simp add: lane_step_def split: lane_phase.split list.split prod.split)
qed

lemma flushed_sender: "flushed c \<Longrightarrow> flushed (sender_step sent c)"
proof -
  assume ok: "flushed c"
  have "flushed (sender_failed c)"
    by (cases "connection_lost c") (use ok fut_same(1) in \<open>auto simp: sender_failed_def flushed_def\<close>)
  moreover have "flushed (case loss_step c of (d, e) \<Rightarrow> if e then d\<lparr>cl_sender := S_exit\<rparr> else d)"
    by (cases "loss_step c") (use ok fut_same(3) in \<open>auto simp: flushed_def\<close>)
  moreover have "flushed ((upd_future f (\<lambda>_. x) c)\<lparr>cl_sender := s\<rparr>)" if "set_sent (cl_fut c f) = (x, ok')" for f x ok' s
    using that ok by (auto simp: flushed_def upd_future_def set_sent_def rf_done_def split: if_splits)
  moreover have "flushed ((forget f c)\<lparr>cl_sender := S_get\<rparr>)" for f using ok by (simp add: flushed_def)
  ultimately show ?thesis
    using ok by (simp add: sender_step_def flushed_def [of "_\<lparr>cl_sender := _\<rparr>"] split: sender_phase.split list.split option.split prod.split)
      (auto simp: flushed_def)
qed

lemma flushed_step: "flushed c \<Longrightarrow> flushed (client_step cfg ev c)"
proof -
  assume ok: "flushed c"
  have fin: "flushed (client_cancel f c)" "flushed (cancel_decided k c)" for f k
    using ok by (simp_all add: client_cancel_finish cancel_decided_def Let_def flushed_finish split: option.split)
  have cb: "flushed (client_add_callback f x c)" for f x
    using ok by (auto simp: client_add_callback_def add_done_callback_def flushed_def upd_future_def rf_done_def)
  have sub: "flushed (fst (submit_register cfg operation opts ser c))" for operation opts ser
    by (cases rule: submit_register_cases [of cfg operation opts ser c])
      (use ok in \<open>simp_all add: register_def Let_def flushed_def new_future_def\<close>)
  have rpc: "flushed d" if "rpc_begin token fo c = Some d" for token fo d
    using ok fut_same(4) [OF that] by (simp add: flushed_def)
  have eq: "cl_fut d = cl_fut c \<Longrightarrow> flushed d" for d using ok by (simp add: flushed_def)
  show ?thesis
    using ok fin cb sub rpc by (cases ev) (simp_all add: flushed_lane flushed_sender eq split: option.split)
qed

lemma client_reachable_futures: "client_reachable cfg c \<Longrightarrow> flushed c \<and> (\<forall>f. future_ok (cl_fut c f))"
proof (induction rule: client_reachable.induct)
  case init
  show ?case by (simp add: flushed_def client_init_def new_future_def future_ok_def)
next
  case (step c ev)
  have "future_ok (cl_fut (client_step cfg ev c) f)" for f
  proof (cases "f < cl_nfut c")
    case True
    then show ?thesis using step.IH client_step_evolves(1) [OF True, of cfg ev] by (simp add: future_evolves_def)
  next
    case False
    show ?thesis
    proof (cases "\<exists>operation opts ser. ev = Cv_submit operation opts ser")
      case True
      then obtain operation opts ser where ev: "ev = Cv_submit operation opts ser" by blast
      show ?thesis
        by (cases rule: submit_register_cases [of cfg operation opts ser c])
          (use ev step.IH in \<open>auto simp: register_def Let_def new_future_def future_ok_def\<close>)
    next
      case False
      then show ?thesis using step.IH steady_step [of ev c cfg] by (auto simp: steady_def future_evolves_def)
    qed
  qed
  then show ?case using step.IH flushed_step by blast
qed

text \<open>Nothing but the users' own additions changes what is owed to the callbacks of a future.\<close>

lemma owed_step:
  assumes "flushed c" and "f < cl_nfut c"
  shows "owed f (client_step cfg ev c) = owed f c @ added_callbacks f [ev]"
proof (cases ev)
  case (Cv_submit operation opts ser)
  then show ?thesis
    by (cases rule: submit_register_cases [of cfg operation opts ser c])
      (use assms(2) in \<open>simp_all add: register_def Let_def owed_def handed_over_def\<close>)
next
  case (Cv_add_callback g cb)
  then show ?thesis using assms owed_add [of c g f cb] by (auto simp: flushed_def)
qed (simp_all add: rpc_begin_def rpc_put_def rpc_end_def split: option.split)

lemma owed_run:
  "flushed c \<Longrightarrow> f < cl_nfut c \<Longrightarrow> owed f (client_run cfg evs c) = owed f c @ added_callbacks f evs"
proof (induction evs arbitrary: c)
  case (Cons ev evs)
  have "f < cl_nfut (client_step cfg ev c)" using Cons.prems(2) client_step_evolves(2) [OF Cons.prems(2), of cfg ev] by simp
  from Cons.IH [OF flushed_step [OF Cons.prems(1)] this] owed_step [OF Cons.prems] show ?case by (simp add: client_run_def)
qed (simp add: client_run_def)

subsection \<open>A completion lane that waits for itself\<close>

text \<open>
  The lane runs the loop of \<open>_connection_lost\<close> itself and waits for a slot that only the lane can release; the
  shutdown waits for a future the loop has not yet failed.
\<close>

definition wedged :: "nat \<Rightarrow> client \<Rightarrow> bool" where
  "wedged f c \<longleftrightarrow>
     cl_closed c \<and> \<not> cl_socket c \<and> cl_transport_failed c \<and> cl_slots c = 0 \<and> cl_loss_item c \<noteq> None \<and> (\<exists>g. cl_lane_phase c = Ln_lost g) \<and>
     f < cl_nfut c \<and> \<not> rf_done (cl_fut c f) \<and> rf_state (cl_fut c f) \<noteq> LOCAL_PENDING \<and>
     (\<forall>k < cl_ncell c. rc_future (cl_cell c k) \<noteq> Some f) \<and> (\<exists>fs. cl_shutdown c = Sh_wait fs \<and> f \<in> set fs)"

lemma wedged_loss: "wedged f c \<Longrightarrow> loss_step c = (c, False)" "wedged f c \<Longrightarrow> schedule_completion i c = None"
    "wedged f c \<Longrightarrow> connection_lost c = (c, False)"
  by (auto simp: wedged_def loss_step_def schedule_completion_def connection_lost_def)

lemma wedged_finish: "wedged f c \<Longrightarrow> g \<noteq> f \<Longrightarrow> wedged f (finish g h c)"
  by (auto simp: wedged_def finish_def dispatch_callbacks_def take_callbacks_def upd_future_def split: list.split)

lemma wedged_sender: "wedged f c \<Longrightarrow> wedged f (sender_step sent c)"
  by (auto simp: sender_step_def sender_failed_def wedged_loss set_sent_def rf_done_def
      split: sender_phase.split list.split option.split)
    (auto simp: wedged_def upd_future_def forget_def rf_done_def)

lemma wedged_receiver: "wedged f c \<Longrightarrow> wedged f (receiver_step arrival c)"
proof -
  assume w: "wedged f c"
  have "wedged f (c\<lparr>cl_receiver := r\<rparr>)" "wedged f (c\<lparr>cl_receiver := r, cl_heard := hs\<rparr>)"
      "wedged f (c\<lparr>cl_terminal_received := ts, cl_receiver := r\<rparr>)" for r hs ts
    using w by (simp_all add: wedged_def)
  moreover have "wedged f (rpc_response m d)" if "wedged f d" for m d
    using that by (auto simp: rpc_response_def wedged_def split: option.split)
  ultimately show ?thesis
    using w by (auto simp: receiver_step_def receive_message_def receiver_failed_def Let_def wedged_loss split: receiver_phase.split option.split)
qed

lemma wedged_step:
  assumes w: "wedged f c"
  shows "wedged f (client_step cfg ev c)"
proof (cases ev)
  case (Cv_submit operation opts ser)
  then show ?thesis
    using w by (cases rule: submit_register_cases [of cfg operation opts ser c]) (simp_all add: wedged_def)
next
  case (Cv_put g late expired)
  then show ?thesis
    using w by (auto simp: client_submit_put_def Let_def wedged_def forget_def put_outbound_def split: sum.split)
next
  case (Cv_lane expired)
  then show ?thesis using w wedged_loss(1) [OF w] by (auto simp: lane_step_def wedged_def)
next
  case (Cv_cancel g)
  then show ?thesis
    using w wedged_finish [OF w] by (cases "g = f") (auto simp: client_cancel_finish wedged_def)
next
  case (Cv_rpc_begin token fo)
  then show ?thesis using w by (auto simp: rpc_begin_def wedged_def)
next
  case (Cv_cancel_decided k)
  have "k < cl_ncell c \<Longrightarrow> rc_future (cl_cell c k) \<noteq> Some f" using w by (simp add: wedged_def)
  then show ?thesis using Cv_cancel_decided w wedged_finish [OF w] by (auto simp: cancel_decided_def Let_def split: option.split)
next
  case (Cv_add_callback g cb)
  then show ?thesis
    using w by (auto simp: client_add_callback_def add_done_callback_def upd_future_def wedged_def rf_done_def)
next
  case (Cv_finish_shutdown answered expired)
  obtain fs where fs: "cl_shutdown c = Sh_wait fs" "f \<in> set fs" using w by (auto simp: wedged_def)
  then obtain g gs where "fs = g # gs" by (cases fs) auto
  moreover have "wedged f (c\<lparr>cl_shutdown := Sh_wait gs\<rparr>)" if "f \<in> set gs" for gs using w that by (simp add: wedged_def)
  moreover have "\<not> rf_done (cl_fut c f)" using w by (simp add: wedged_def)
  ultimately show ?thesis using w fs Cv_finish_shutdown by (auto simp: finish_shutdown_def)
qed (use w wedged_sender wedged_receiver in \<open>auto simp: rpc_put_def rpc_end_def put_outbound_def client_shutdown_def wedged_def\<close>)

lemma wedged_run: "wedged f c \<Longrightarrow> wedged f (client_run cfg evs c)"
  by (induction evs arbitrary: c) (simp_all add: client_run_def wedged_step)


subsection \<open>A future nobody will finish\<close>

text \<open>
  The future of a submission that has failed after its registration: no thread knows it any more, only a
  shutdown that has taken it from the registry before.
\<close>

definition orphaned :: "nat \<Rightarrow> client \<Rightarrow> bool" where
  "orphaned f c \<longleftrightarrow>
     f < cl_nfut c \<and> \<not> rf_done (cl_fut c f) \<and> f \<notin> conveyed c \<and> f \<notin> snd ` set (cl_futures c) \<and> f \<notin> about ` items c \<and>
     f \<notin> set (cl_loss c) \<and> (\<forall>m. cl_receiver c \<noteq> R_term f m) \<and> (\<forall>k < cl_ncell c. rc_future (cl_cell c k) \<noteq> Some f)"

text \<open>A step of the client's own threads or of the users of other futures.\<close>

definition leaves_alone :: "nat \<Rightarrow> client_event \<Rightarrow> bool" where
  "leaves_alone f ev \<longleftrightarrow> ev \<noteq> Cv_cancel f \<and> (\<forall>token. ev \<noteq> Cv_rpc_begin token (Some f))"

lemma finish_other: "f \<noteq> g \<Longrightarrow> cl_fut (finish g h c) f = cl_fut c f"
  by (simp add: finish_def dispatch_callbacks_def take_callbacks_def upd_future_def split: list.split)

lemma finish_frame:
  "cl_cell (finish g h c) = cl_cell c" "cl_ncell (finish g h c) = cl_ncell c" "cl_nfut (finish g h c) = cl_nfut c"
  by (simp_all add: finish_def dispatch_callbacks_def take_callbacks_def upd_future_def split: list.split)

lemma orphaned_finish: "orphaned f c \<Longrightarrow> g \<noteq> f \<Longrightarrow> orphaned f (finish g h c)"
  using cview_finish [of g h c]
  by (simp add: orphaned_def finish_other finish_frame conveyed_view items_def cview_def)

lemma orphaned_upd: "orphaned f c \<Longrightarrow> g \<noteq> f \<Longrightarrow> orphaned f (upd_future g h c)"
  by (simp add: orphaned_def upd_future_def conveyed_def items_def)

lemma orphaned_forget: "orphaned f c \<Longrightarrow> orphaned f (forget g c)"
  using forget_dict(1) [of g c] by (auto simp: orphaned_def forget_def conveyed_def items_def)

lemma orphaned_frame:
  assumes "orphaned f c"
  shows "orphaned f (c\<lparr>cl_lane_phase := l\<rparr>)" "orphaned f (c\<lparr>cl_slots := n\<rparr>)" "orphaned f (c\<lparr>cl_shutdown := sd\<rparr>)"
    and "orphaned f (c\<lparr>cl_terminal_received := ts\<rparr>)" "orphaned f (c\<lparr>cl_socket := b\<rparr>)" "orphaned f (put_outbound m None c)"
    and "orphaned f (c\<lparr>cl_called := x\<rparr>)" "orphaned f (c\<lparr>cl_rpc := y\<rparr>)" "orphaned f (c\<lparr>cl_closed := b\<rparr>)"
    and "s \<in> {S_get, S_lost, S_exit} \<Longrightarrow> orphaned f (c\<lparr>cl_sender := s\<rparr>)"
    and "r \<in> {R_top, R_read, R_lost, R_exit} \<Longrightarrow> orphaned f (c\<lparr>cl_receiver := r\<rparr>)"
    and "about i \<noteq> f \<Longrightarrow> orphaned f (c\<lparr>cl_receiver := R_item i, cl_heard := hs\<rparr>)"
    and "orphaned f (release_slot c)"
  using assms by (auto simp: orphaned_def conveyed_def items_def put_outbound_def release_slot_def split: receiver_phase.splits)

lemma orphaned_lost: "orphaned f c \<Longrightarrow> connection_lost c = (d, e) \<Longrightarrow> orphaned f d"
  by (auto simp: connection_lost_def orphaned_def conveyed_def items_def fail_cells_def split: if_splits)

lemma orphaned_schedule: "orphaned f c \<Longrightarrow> schedule_completion i c = Some d \<Longrightarrow> i \<in> items c \<Longrightarrow> orphaned f d"
  by (auto simp: schedule_completion_def orphaned_def conveyed_def items_def split: if_splits)

lemma orphaned_loss_step:
  assumes o: "orphaned f c" and l: "loss_step c = (d, e)"
  shows "orphaned f d"
proof (cases "cl_loss_item c")
  case (Some i)
  then have "i \<in> items c" by (simp add: items_def)
  then have "orphaned f x" if "schedule_completion i c = Some x" for x using orphaned_schedule [OF o that] by blast
  moreover have "orphaned f (x\<lparr>cl_loss_item := None\<rparr>)" if "orphaned f x" for x
    using that by (auto simp: orphaned_def conveyed_def items_def)
  ultimately show ?thesis using o l Some by (auto simp: loss_step_def split: option.splits)
next
  case None
  then show ?thesis
    using o l by (auto simp: loss_step_def orphaned_def conveyed_def items_def split: list.splits if_splits)
qed

lemma orphaned_sender: "orphaned f c \<Longrightarrow> orphaned f (sender_step sent c)"
proof -
  assume o: "orphaned f c"
  have failed: "orphaned f (sender_failed c)"
    by (cases "connection_lost c") (use orphaned_lost [OF o] orphaned_frame(10) in \<open>auto simp: sender_failed_def\<close>)
  have lost: "orphaned f (case loss_step c of (d, e) \<Rightarrow> if e then d\<lparr>cl_sender := S_exit\<rparr> else d)"
    by (cases "loss_step c") (use orphaned_loss_step [OF o] orphaned_frame(10) in auto)
  show ?thesis
  proof (cases "cl_sender c")
    case S_get
    then show ?thesis using o by (auto simp: sender_step_def orphaned_def conveyed_def items_def split: list.split option.split)
  next
    case (S_have m fo)
    then have "fo \<noteq> Some f" using o by (auto simp: orphaned_def conveyed_def)
    moreover have "orphaned f (x\<lparr>cl_sender := S_sock m fo\<rparr>)" if "orphaned f x" for x
      using that \<open>fo \<noteq> Some f\<close> by (auto simp: orphaned_def conveyed_def items_def)
    ultimately show ?thesis
      using S_have o orphaned_upd [OF o] orphaned_frame(10) [OF orphaned_forget [OF o]]
      by (auto simp: sender_step_def split: option.split prod.split)
  next
    case (S_sock m fo)
    then have "fo \<noteq> Some f" using o by (auto simp: orphaned_def conveyed_def)
    then have "orphaned f (c\<lparr>cl_sender := S_write m fo, cl_handed := (case fo of None \<Rightarrow> cl_handed c | Some g \<Rightarrow> g # cl_handed c)\<rparr>)"
      using o by (auto simp: orphaned_def conveyed_def items_def split: option.split)
    then show ?thesis using S_sock failed by (simp add: sender_step_def)
  qed (use o failed lost orphaned_frame(10) in \<open>auto simp: sender_step_def\<close>)
qed


lemma orphaned_rpc: "orphaned f c \<Longrightarrow> orphaned f (rpc_response m c)"
  by (auto simp: rpc_response_def orphaned_def conveyed_def items_def split: option.split)

lemma orphaned_receive: "orphaned f c \<Longrightarrow> orphaned f (receive_message m c)"
proof -
  assume o: "orphaned f c"
  define known where "known = (case json_str (jget (msg_control m) ''request_id'') of
      None \<Rightarrow> None | Some rid \<Rightarrow> map_of (cl_futures c) rid)"
  have known: "the known \<noteq> f" if "known \<noteq> None"
    using that o by (force simp: known_def orphaned_def dest: map_of_SomeD split: option.splits)
  have failed: "orphaned f (receiver_failed R_top c)"
    by (cases "connection_lost c") (use orphaned_lost [OF o] orphaned_frame(11) in \<open>auto simp: receiver_failed_def\<close>)
  have trm: "orphaned f (c\<lparr>cl_receiver := R_term g m\<rparr>)" if "g \<noteq> f" for g
    using o that by (auto simp: orphaned_def conveyed_def items_def split: receiver_phase.splits)
  have item: "orphaned f (c\<lparr>cl_receiver := R_item i\<rparr>)" if "about i \<noteq> f" for i
    using orphaned_frame(12) [OF o that, of "cl_heard c"] by simp
  have rpc: "orphaned f (rpc_response m (c\<lparr>cl_receiver := R_top\<rparr>))"
    using orphaned_rpc [OF orphaned_frame(11) [OF o]] by simp
  show ?thesis
    unfolding receive_message_def Let_def known_def [symmetric]
    using known failed trm item rpc orphaned_frame(11,12) [OF o] by auto
qed

lemma orphaned_receiver: "orphaned f c \<Longrightarrow> orphaned f (receiver_step arrival c)"
proof -
  assume o: "orphaned f c"
  have failed: "orphaned f (receiver_failed R_exit c)"
    by (cases "connection_lost c") (use orphaned_lost [OF o] orphaned_frame(11) in \<open>auto simp: receiver_failed_def\<close>)
  have lost: "orphaned f (case loss_step c of (d, e) \<Rightarrow> if e then d\<lparr>cl_receiver := R_top\<rparr> else d)"
    by (cases "loss_step c") (use orphaned_loss_step [OF o] orphaned_frame(11) in auto)
  show ?thesis
  proof (cases "cl_receiver c")
    case (R_term g m)
    then have "g \<noteq> f" using o by (auto simp: orphaned_def)
    then show ?thesis
      using R_term orphaned_frame(12) [OF orphaned_frame(4) [OF o], of "L_complete g m" "cl_heard c"] by (simp add: receiver_step_def)
  next
    case (R_item i)
    then have "i \<in> items c" by (simp add: items_def)
    then show ?thesis
      using R_item o orphaned_frame(11) [OF orphaned_schedule [OF o]] by (simp add: receiver_step_def split: option.split)
  qed (use o failed lost orphaned_receive [OF o] orphaned_frame(11) in \<open>auto simp: receiver_step_def split: option.split\<close>)
qed

lemma orphaned_run_completion: "orphaned f c \<Longrightarrow> about i \<noteq> f \<Longrightarrow> orphaned f (run_completion cfg i c)"
  by (cases i) (simp_all add: run_completion_def complete_def orphaned_frame orphaned_upd orphaned_finish orphaned_forget split: option.split)

lemma orphaned_lane: "orphaned f c \<Longrightarrow> orphaned f (lane_step cfg expired c)"
proof -
  assume o: "orphaned f c"
  have run: "orphaned f (run_completion cfg i (c\<lparr>cl_lane := rest\<rparr>))" if "cl_lane c = i # rest" for i rest
    using that o by (intro orphaned_run_completion) (auto simp: orphaned_def conveyed_def items_def)
  have lost: "orphaned f (case connection_lost c of (d, e) \<Rightarrow> d\<lparr>cl_lane_phase := (if e then Ln_lost g else Ln_forget g)\<rparr>)" for g
    by (cases "connection_lost c") (use orphaned_lost [OF o] orphaned_frame(1) in auto)
  have loss: "orphaned f (case loss_step c of (d, e) \<Rightarrow> if e then d\<lparr>cl_lane_phase := Ln_forget g\<rparr> else d)" for g
    by (cases "loss_step c") (use orphaned_loss_step [OF o] orphaned_frame(1) in auto)
  show ?thesis
  proof (cases "cl_lane_phase c")
    case Ln_idle
    then show ?thesis using o run by (simp add: lane_step_def split: list.split)
  next
    case (Ln_ack g)
    then show ?thesis using o lost orphaned_frame(1) [OF orphaned_frame(6) [OF o]] by (simp add: lane_step_def)
  next
    case (Ln_forget g)
    then show ?thesis using o by (simp add: lane_step_def orphaned_frame orphaned_forget)
  qed (use loss in \<open>simp add: lane_step_def\<close>)
qed

lemma orphaned_step:
  assumes o: "orphaned f c" and a: "leaves_alone f ev" and inv: "client_inv cfg c"
  shows "orphaned f (client_step cfg ev c)"
proof (cases ev)
  case (Cv_submit operation opts ser)
  show ?thesis
  proof (cases rule: submit_register_cases [of cfg operation opts ser c])
    case (registered m)
    have "snd ` set (cl_futures (register cfg m c)) \<subseteq> insert (cl_nfut c) (snd ` set (cl_futures c))"
      using set_dict_update [of "cl_futures c"] inv by (auto simp: register_def Let_def client_inv_def ids_ok_def)
    then have "orphaned f (register cfg m c)"
      using o by (auto simp: orphaned_def conveyed_def items_def register_def Let_def)
    then show ?thesis using registered Cv_submit by simp
  qed (use o Cv_submit in simp)
next
  case (Cv_put g late expired)
  have "orphaned f (c\<lparr>cl_putting := remove1 g (cl_putting c)\<rparr>)" using o set_remove1_subset [of g "cl_putting c"]
    by (auto simp: orphaned_def conveyed_def items_def)
  moreover have "orphaned f (put_outbound m (Some g) x)" if "orphaned f x" "g \<noteq> f" for m x
    using that by (auto simp: orphaned_def conveyed_def items_def put_outbound_def)
  moreover have "g \<noteq> f" if "g \<in> set (cl_putting c)" using o that by (auto simp: orphaned_def conveyed_def)
  ultimately show ?thesis
    using o Cv_put by (simp add: client_submit_put_def Let_def orphaned_forget split: sum.split)
next
  case (Cv_cancel g)
  then show ?thesis using o a by (simp add: client_cancel_finish orphaned_finish leaves_alone_def)
next
  case (Cv_rpc_begin token fo)
  then show ?thesis
    using o a by (auto simp: rpc_begin_def leaves_alone_def orphaned_def conveyed_def items_def less_Suc_eq split: option.splits)
next
  case (Cv_cancel_decided k)
  then have "k < cl_ncell c \<Longrightarrow> rc_future (cl_cell c k) \<noteq> Some f" using o by (simp add: orphaned_def)
  then show ?thesis using Cv_cancel_decided o orphaned_finish [OF o] by (auto simp: cancel_decided_def Let_def split: option.split)
next
  case (Cv_add_callback g cb)
  have "orphaned f (upd_future g (\<lambda>_. (cl_fut c g)\<lparr>rf_callbacks := cbs\<rparr>) c)" for cbs
    using o by (cases "g = f") (simp_all add: orphaned_def upd_future_def conveyed_def items_def rf_done_def)
  then show ?thesis
    using Cv_add_callback o by (simp add: client_add_callback_def add_done_callback_def orphaned_frame)
next
  case (Cv_finish_shutdown answered expired)
  then show ?thesis using o by (simp add: finish_shutdown_def orphaned_frame split: client_shutdown.split list.split)
qed (use o orphaned_sender orphaned_receiver orphaned_lane in \<open>simp_all add: rpc_put_def rpc_end_def client_shutdown_def orphaned_frame\<close>)

text \<open>Only the shutdown itself moves the shutdown on.\<close>

definition closing :: "client \<Rightarrow> bool \<times> client_shutdown" where
  "closing c = (cl_closed c, cl_shutdown c)"

lemma closing_view: "cview d = cview c \<Longrightarrow> closing d = closing c"
  by (simp add: cview_def closing_def)

lemmas closing_views = closing_view [OF cview_finish] closing_view [OF cview_upd] closing_view [OF cview_complete]
  closing_view [OF cview_rpc(1)] closing_view [OF cview_rpc(3)]

lemma closing_fields:
  "closing (c\<lparr>cl_lane_phase := l\<rparr>) = closing c" "closing (c\<lparr>cl_sender := s\<rparr>) = closing c" "closing (c\<lparr>cl_receiver := r\<rparr>) = closing c"
  "closing (c\<lparr>cl_lane := q\<rparr>) = closing c" "closing (c\<lparr>cl_heard := h\<rparr>) = closing c" "closing (c\<lparr>cl_handed := h\<rparr>) = closing c"
  "closing (c\<lparr>cl_terminal_received := ts\<rparr>) = closing c" "closing (c\<lparr>cl_outbound := out\<rparr>) = closing c"
  "closing (c\<lparr>cl_putting := h\<rparr>) = closing c" "closing (c\<lparr>cl_called := x\<rparr>) = closing c"
  "closing (forget f c) = closing c" "closing (put_outbound m fo c) = closing c" "closing (release_slot c) = closing c"
  by (simp_all add: closing_def forget_def put_outbound_def release_slot_def)

lemma closing_lost: "closing (fst (connection_lost c)) = closing c" "closing (fst (loss_step c)) = closing c"
  by (auto simp: connection_lost_def loss_step_def schedule_completion_def closing_def split: option.split list.split)

lemma closing_threads:
  "closing (sender_step sent c) = closing c" "closing (receiver_step arrival c) = closing c" "closing (lane_step cfg expired c) = closing c"
proof -
  have lost: "closing (sender_failed c) = closing c" "closing (receiver_failed r c) = closing c" for r
    using closing_lost(1) [of c] by (simp_all add: sender_failed_def receiver_failed_def closing_fields split_beta)
  have sched: "closing (case schedule_completion i c of None \<Rightarrow> c | Some d \<Rightarrow> d\<lparr>cl_receiver := R_top\<rparr>) = closing c" for i
    by (simp add: schedule_completion_def closing_def)
  show "closing (sender_step sent c) = closing c"
    using lost closing_lost(2) [of c]
    by (simp add: sender_step_def closing_fields closing_views split_beta split: sender_phase.split list.split option.split)
  have "closing (receive_message m c) = closing c" for m
    using lost by (simp add: receive_message_def Let_def closing_fields closing_views)
  then show "closing (receiver_step arrival c) = closing c"
    using lost sched closing_lost(2) [of c]
    by (simp add: receiver_step_def closing_fields split_beta split: receiver_phase.split option.split)
  have "closing (run_completion cfg i d) = closing d" for i d
    by (cases i) (simp_all add: run_completion_def closing_fields closing_views)
  then show "closing (lane_step cfg expired c) = closing c"
    using closing_lost [of c] by (simp add: lane_step_def closing_fields split_beta split: lane_phase.split list.split)
qed

lemma closing_step:
  assumes "ev \<noteq> Cv_shutdown" and "\<And>answered expired. ev \<noteq> Cv_finish_shutdown answered expired"
  shows "closing (client_step cfg ev c) = closing c"
proof (cases ev)
  case (Cv_submit operation opts ser)
  then show ?thesis
    by (cases rule: submit_register_cases [of cfg operation opts ser c]) (simp_all add: closing_def register_def Let_def)
next
  case (Cv_rpc_begin token fo)
  then show ?thesis by (simp add: rpc_begin_def closing_def split: option.split)
qed (use assms in \<open>simp_all add: closing_threads client_submit_put_def client_cancel_finish rpc_put_def cancel_decided_def
    client_add_callback_def Let_def closing_fields closing_views split: sum.split option.split prod.split\<close>)

text \<open>A shutdown that waits for an orphaned future waits for ever.\<close>

lemma orphaned_wait:
  assumes "orphaned f c" and "cl_closed c" and "cl_shutdown c = Sh_wait (f # fs)"
  shows "closing (client_step cfg ev c) = closing c"
proof (cases "ev = Cv_shutdown \<or> (\<exists>answered expired. ev = Cv_finish_shutdown answered expired)")
  case True
  then show ?thesis using assms by (auto simp: client_shutdown_def finish_shutdown_def orphaned_def)
next
  case False
  then show ?thesis by (intro closing_step) auto
qed

lemma orphaned_run:
  assumes "client_reachable cfg c" and "orphaned f c" and "closing c = (True, Sh_wait (f # fs))" and "list_all (leaves_alone f) evs"
  shows "closing (client_run cfg evs c) = (True, Sh_wait (f # fs))"
  using assms
proof (induction evs arbitrary: c)
  case (Cons ev evs)
  have "orphaned f (client_step cfg ev c)"
    using Cons.prems orphaned_step client_reachable_inv by simp
  moreover have "closing (client_step cfg ev c) = closing c"
    using Cons.prems by (intro orphaned_wait) (auto simp: closing_def)
  ultimately show ?case using Cons.IH [of "client_step cfg ev c"] Cons.prems by (simp add: client_run_def client_reachable.step)
qed (simp add: client_run_def)

subsection \<open>A small client\<close>

text \<open>A client whose queues hold one entry each, as \<open>RemoteLimits\<close> allows.\<close>

definition small_limits :: remote_limits where
  "small_limits =
     \<lparr>max_control_bytes = 4096, max_frame_payload_bytes = 4096, max_message_bytes = 4096,
      max_invocation_bytes = 64, max_result_bytes = 64, max_metadata_bytes = 1024, max_chunks = 4,
      max_incomplete_messages = 4, max_unauthenticated_connections = 4, max_connections_global = 4,
      max_connections_per_principal = 4, max_pending_per_session = 8, max_pending_per_principal = 8,
      max_pending_global = 8, max_retained_outcomes_per_session = 8, max_retained_outcomes_global = 8,
      max_retained_outcome_bytes_per_session = 512, max_retained_outcome_bytes_global = 512,
      max_staged_tasks = 2, outbound_queue_size = 1, inbound_queue_size = 1, callback_queue_size = 1,
      completion_workers = 1, control_timeout = 1, handshake_timeout = 1, partial_frame_timeout = 1\<rparr>"

definition small_client :: client_config where
  "small_client =
     \<lparr>cc_limits = small_limits, cc_client_id = lit ''c'',
      cc_serializer_name = lit ''p'', cc_serializer_protocol = JInt 5, cc_python = (3, 12),
      cc_implementation = lit ''CPython'', cc_version = lit ''1'', cc_application_fingerprint = None,
      cc_registry_fingerprint = None, cc_authentication = JNull, cc_sha256 = (\<lambda>b. b), cc_dumps = (\<lambda>_. []),
      cc_loads = (\<lambda>_. Ld_value 7)\<rparr>"

definition plain_options :: submission_options where
  "plain_options = \<lparr>so_priority = VInt 0, so_execution_timeout = VNone, so_queue_timeout = VNone,
     so_submission_timeout = VInt 5, so_group_id = VNone, so_metadata = JDict []\<rparr>"

definition from_server :: "message_type \<Rightarrow> string \<Rightarrow> message option" where
  "from_server kind rid = Some \<lparr>msg_kind = kind, msg_control = ctl [(''request_id'', J rid)], msg_payload = []\<rparr>"

text \<open>A request is submitted, sent, accepted and its result received.\<close>

definition answered_run :: "client_event list" where
  "answered_run =
     [Cv_submit None plain_options (Ser_bytes [1]), Cv_put 0 False False, Cv_sender True, Cv_sender True, Cv_sender True, Cv_sender True,
      Cv_add_callback 0 3, Cv_receiver None, Cv_receiver (from_server M_ACCEPTED ''c:1''), Cv_receiver None, Cv_lane False,
      Cv_receiver None, Cv_receiver (from_server M_RESULT ''c:1''), Cv_receiver None, Cv_receiver None, Cv_lane False]"

text \<open>
  Two more requests are submitted while the server reads nothing, so that one fills the socket and one the
  outbound queue; the acknowledgement of the result waits in vain, and the client is shut down.
\<close>

definition wedging_run :: "client_event list" where
  "wedging_run = answered_run @
     [Cv_submit None plain_options (Ser_bytes [2]), Cv_put 1 False False, Cv_sender True, Cv_sender True, Cv_sender True,
      Cv_submit None plain_options (Ser_bytes [3]), Cv_put 2 False False, Cv_shutdown,
      Cv_lane True, Cv_lane False, Cv_lane False]"

lemma small_client_limits: "limits_ok (cc_limits small_client)"
  by code_simp

lemma answered_state:
  "(let c = client_run small_client answered_run (client_init small_client)
    in (rf_base (cl_fut c 0), cl_nfut c, cl_called c, cl_handed c, cl_heard c, cl_lane_phase c)) =
   (Bf_result 7, 1, [([3], 0)], [0], [0], Ln_ack 0)"
  by code_simp

lemma wedging_state:
  "(let c = client_run small_client wedging_run (client_init small_client)
    in (cl_closed c, cl_socket c, cl_transport_failed c, cl_slots c, cl_loss_item c = None, cl_lane_phase c, cl_nfut c, cl_ncell c, cl_shutdown c,
        rf_base (cl_fut c 1), rf_state (cl_fut c 1))) =
   (True, False, True, 0, False, Ln_lost 0, 3, 0, Sh_wait [0, 1, 2], Bf_pending, SENT_UNACKNOWLEDGED)"
  by code_simp

lemmas answered_facts = answered_state [unfolded Let_def prod.inject]

lemmas wedging_facts = wedging_state [unfolded Let_def prod.inject]

lemma client_run_reachable: "client_reachable cfg c \<Longrightarrow> client_reachable cfg (client_run cfg evs c)"
  by (induction evs arbitrary: c) (simp_all add: client_run_def client_reachable.step)

lemma client_run_append: "client_run cfg (xs @ ys) c = client_run cfg ys (client_run cfg xs c)"
  by (simp add: client_run_def)

subsection \<open>Futures\<close>


text \<open>The run above from the submission on, with one more callback added after the answer.\<close>

abbreviation submitted :: client where
  "submitted \<equiv> client_run small_client [hd answered_run] (client_init small_client)"

definition answered_again :: "client_event list" where
  "answered_again = tl answered_run @ [Cv_add_callback 0 6, Cv_cancel 0, Cv_receiver None]"

lemma answered_again_facts:
  "cl_nfut submitted = 1" "handed_over 0 submitted = []" "rf_callbacks (cl_fut submitted 0) = []"
  "rf_done (cl_fut (client_run small_client answered_again submitted) 0)" "added_callbacks 0 answered_again = [3, 6]"
  by code_simp+


text \<open>
  (C9) The errors a future gets for a lost connection are true.  A future that the client itself has failed with
  \<open>RemoteExecutorUnavailable\<close> was never handed to the socket, neither before nor later, so the request cannot have been accepted; and a
  future that it has failed with \<open>RemoteConnectionLost\<close>, which carries the certainty of acceptance, was announced as accepted or running by the
  server.  The statement is about outcomes of futures: what \<open>cancel\<close> or a control call raises to its own caller is not one, and an
  exception decoded from a payload or raised by the serializer may be of any class.
\<close>

theorem connection_errors_truthful:
  assumes "client_reachable cfg c"
    and "rf_base (cl_fut c f) = Bf_exception (Remote_failure e)" and "f < cl_nfut c"
  shows "(er_class e = Err_RemoteExecutorUnavailable \<longrightarrow> f \<notin> set (cl_handed (client_run cfg evs c))) \<and>
         (er_class e = Err_RemoteConnectionLost \<longrightarrow> f \<in> set (cl_heard c))"
proof -
  note sound = client_reachable_sound
  have later: "rf_base (cl_fut (client_run cfg evs c) f) = Bf_exception (Remote_failure e)"
    using client_run_evolves [OF assms(3), of cfg evs] assms(2) by (simp add: future_evolves_def rf_done_def)
  have "f \<notin> set (cl_handed (client_run cfg evs c))" if "er_class e = Err_RemoteExecutorUnavailable"
    using sound [OF client_run_reachable [OF assms(1), of evs]] later that by (auto simp: client_sound_def verdict_ok_def verdicts_def)
  moreover have "f \<in> set (cl_heard c)" if "er_class e = Err_RemoteConnectionLost"
    using sound [OF assms(1)] assms(2) that by (auto simp: client_sound_def verdict_ok_def verdicts_def)
  ultimately show ?thesis by blast
qed

text \<open>The connection is lost with one request accepted and one not yet taken by the sender.\<close>

definition losing_run :: "client_event list" where
  "losing_run =
     [Cv_submit None plain_options (Ser_bytes [1]), Cv_put 0 False False, Cv_sender True, Cv_sender True, Cv_sender True, Cv_sender True,
      Cv_receiver None, Cv_receiver (from_server M_ACCEPTED ''c:1''), Cv_receiver None, Cv_lane False,
      Cv_submit None plain_options (Ser_bytes [2]), Cv_put 1 False False, Cv_receiver None, Cv_receiver None,
      Cv_receiver None, Cv_receiver None, Cv_lane False, Cv_receiver None, Cv_receiver None, Cv_lane False]"

lemma losing_state:
  "(let c = client_run small_client losing_run (client_init small_client)
    in (map (\<lambda>f. case rf_base (cl_fut c f) of Bf_exception (Remote_failure e) \<Rightarrow> Some (er_class e, er_acceptance e) | _ \<Rightarrow> None) [0, 1],
        cl_transport_failed c, cl_nfut c, cl_loss c, cl_lane c, cl_loss_item c = None, cl_receiver c, cl_futures c)) =
   ([Some (Err_RemoteConnectionLost, ACCEPTED), Some (Err_RemoteExecutorUnavailable, NOT_ACCEPTED)], True, 2, [], [], True, R_lost, [])"
  by code_simp

lemmas losing_facts = losing_state [unfolded Let_def prod.inject, simplified]

theorem connection_errors_truthful_witness:
  "let c = client_run small_client losing_run (client_init small_client)
   in 0 \<in> set (cl_heard c) \<and> 1 \<notin> set (cl_handed (client_run small_client [Cv_sender True, Cv_sender True, Cv_sender True] c))"
proof -
  let ?c = "client_run small_client losing_run (client_init small_client)"
  have r: "client_reachable small_client ?c" by (rule client_run_reachable [OF client_reachable.init])
  obtain e0 e1 where e: "rf_base (cl_fut ?c 0) = Bf_exception (Remote_failure e0)" "er_class e0 = Err_RemoteConnectionLost"
      "rf_base (cl_fut ?c 1) = Bf_exception (Remote_failure e1)" "er_class e1 = Err_RemoteExecutorUnavailable" "cl_nfut ?c = 2"
    using losing_facts by (auto split: base_future.splits failure.splits)
  show ?thesis
    using connection_errors_truthful [OF r e(1), of "[]"]
      connection_errors_truthful [OF r e(3), of "[Cv_sender True, Cv_sender True, Cv_sender True]"] e(2,4,5)
    by (simp add: Let_def)
qed

text \<open>
  (C10) No future is lost with the connection: after the transport has failed, every registered future that is
  not finished is still to be treated by the loop of \<open>_connection_lost\<close> or has a completion under way that will
  finish it, so that when the loop, the lane and the receiver have nothing left to do every registered future
  is finished.
\<close>

theorem no_future_lost:
  assumes "client_reachable cfg c" and "cl_transport_failed c"
  shows "open_futures c \<subseteq> set (cl_loss c) \<union> settling c \<and>
         (cl_loss c = [] \<and> items c = {} \<longrightarrow> (\<forall>(rid, f) \<in> set (cl_futures c). rf_done (cl_fut c f)))"
proof -
  have "open_futures c \<subseteq> set (cl_loss c) \<union> settling c"
    using client_reachable_inv [OF assms(1)] assms(2) by (simp add: client_inv_def due_ok_def)
  then show ?thesis by (force simp: settling_def open_futures_def)
qed

theorem no_future_lost_witness:
  "let c = client_run small_client losing_run (client_init small_client)
   in open_futures c \<subseteq> settling c"
  using no_future_lost [OF client_run_reachable [OF client_reachable.init], of small_client losing_run] losing_facts
  by (simp add: Let_def)

subsection \<open>Two ways to hang\<close>

text \<open>
  (C38) The completion lane can wait for itself.  When the acknowledgement of a result cannot be queued in time, the
  lane itself runs \<open>_connection_lost\<close>, whose \<open>_schedule_completion\<close> waits for a slot; with as many open futures
  as slots, only the lane could release one.  From then on, whatever happens, the future stays unfinished
  and a shutdown that waits for it never returns.
\<close>

theorem lane_waits_for_itself:
  "let c = client_run small_client (wedging_run @ evs) (client_init small_client)
   in limits_ok (cc_limits small_client) \<and> cl_transport_failed c \<and> \<not> rf_done (cl_fut c 1) \<and> cl_slots c = 0 \<and> cl_shutdown c \<noteq> Sh_done"
proof -
  let ?c = "client_run small_client wedging_run (client_init small_client)"
  have "wedged 1 ?c" using wedging_facts by (simp add: wedged_def rf_done_def)
  then have "wedged 1 (client_run small_client (wedging_run @ evs) (client_init small_client))"
    unfolding client_run_append by (rule wedged_run)
  then show ?thesis using small_client_limits by (auto simp: wedged_def Let_def)
qed

text \<open>
  (C39) A failed submission can hang a concurrent shutdown.  \<open>_submit\<close> registers the future, \<open>shutdown\<close> takes it from
  the registry, and then the submission times out (or its control is refused, or the queue stays full): it
  removes the future and raises, but never finishes it.  \<open>_finish_shutdown\<close> waits for the result of that future for
  ever, unless somebody cancels it.
\<close>

theorem failed_submission_hangs_shutdown:
  assumes "check_options opts = Inr ()" and "list_all (leaves_alone 0) evs"
  shows "cl_shutdown (client_run cfg ([Cv_submit None opts (Ser_bytes payload), Cv_shutdown, Cv_put 0 True False] @ evs) (client_init cfg)) =
    Sh_wait [0]"
proof -
  let ?c = "client_run cfg [Cv_submit None opts (Ser_bytes payload), Cv_shutdown, Cv_put 0 True False] (client_init cfg)"
  have "client_reachable cfg ?c" by (rule client_run_reachable [OF client_reachable.init])
  moreover have "orphaned 0 ?c \<and> closing ?c = (True, Sh_wait [0])"
    using assms(1)
    by (auto simp: client_run_def submit_register_def client_init_def client_shutdown_def client_submit_put_def Let_def forget_def
        orphaned_def closing_def conveyed_def items_def rf_done_def new_future_def split: sum.split)
  ultimately have "closing (client_run cfg evs ?c) = (True, Sh_wait [0])" using orphaned_run assms(2) by blast
  then show ?thesis unfolding client_run_append by (simp add: closing_def)
qed

theorem failed_submission_hangs_shutdown_witness:
  "cl_shutdown (client_run small_client ([Cv_submit None plain_options (Ser_bytes [1]), Cv_shutdown, Cv_put 0 True False] @
     [Cv_finish_shutdown False False, Cv_sender True, Cv_finish_shutdown True True]) (client_init small_client)) = Sh_wait [0]"
proof (rule failed_submission_hangs_shutdown)
  show "check_options plain_options = Inr ()" by code_simp
qed (simp add: leaves_alone_def)

end
