(* ===== verification/Sockets.thy ===== *)
theory Sockets
  imports Config
begin

text \<open>
  The sockets of client and server outside the Unix listener (\<open>remote/_transport.py\<close>): \<open>connect_address\<close>, \<open>_bind_tcp\<close>,
  \<open>prepare_accepted_socket\<close> and \<open>peer_info\<close>, as the sequences of system calls they make.  Which call succeeds is a parameter.
\<close>

subsection \<open>Calls\<close>

datatype sock_call =
    C_socket
  | C_create_connection pystr pyval
  | C_settimeout pyval
  | C_connect pystr
  | C_wrap_client pystr
  | C_wrap_server
  | C_reuseaddr
  | C_keepalive
  | C_bind pystr pyval
  | C_listen pyval
  | C_getsockname
  | C_close

text \<open>The calls made up to the first that raises, and whether none did.\<close>

primrec run_calls :: "(sock_call \<Rightarrow> bool) \<Rightarrow> sock_call list \<Rightarrow> sock_call list \<times> bool" where
  "run_calls works [] = ([], True)"
| "run_calls works (c # cs) =
     (if works c then (case run_calls works cs of (made, ok) \<Rightarrow> (c # made, ok)) else ([c], False))"

text \<open>A \<open>try\<close> block whose handler closes the socket and raises the error again.\<close>

definition close_on_error :: "(sock_call \<Rightarrow> bool) \<Rightarrow> sock_call list \<Rightarrow> sock_call list \<times> bool" where
  "close_on_error works cs = (case run_calls works cs of (made, ok) \<Rightarrow> (if ok then made else made @ [C_close], ok))"

definition and_then :: "sock_call list \<times> bool \<Rightarrow> sock_call list \<times> bool \<Rightarrow> sock_call list \<times> bool" where
  "and_then first second = (if snd first then (fst first @ fst second, snd second) else first)"

datatype address = A_unix unix_address | A_tcp tcp_address

text \<open>\<open>server_hostname or host\<close>: an empty host name counts as missing.\<close>

definition tls_hostname :: "tcp_address \<Rightarrow> pystr" where
  "tls_hostname a = (case ta_server_hostname a of Some name \<Rightarrow> if name = [] then ta_host a else name | None \<Rightarrow> ta_host a)"

definition connect_address :: "(sock_call \<Rightarrow> bool) \<Rightarrow> address \<Rightarrow> sock_call list \<times> bool" where
  "connect_address works address =
     (case address of
        A_unix a \<Rightarrow>
          and_then (run_calls works [C_socket, C_settimeout (ua_connect_timeout a)]) (close_on_error works [C_connect (ua_path a)])
      | A_tcp a \<Rightarrow>
          and_then (run_calls works [C_create_connection (ta_host a) (ta_port a)])
            (if ta_ssl_context a \<noteq> None then close_on_error works [C_wrap_client (tls_hostname a)] else ([], True)))"

definition bind_tcp :: "(sock_call \<Rightarrow> bool) \<Rightarrow> tcp_listener \<Rightarrow> sock_call list \<times> bool" where
  "bind_tcp works l =
     and_then (run_calls works [C_socket])
       (close_on_error works
         ([C_reuseaddr] @ (if tl_keepalive l then [C_keepalive] else []) @
          [C_bind (tl_host l) (tl_port l), C_listen (tl_backlog l), C_getsockname]))"

text \<open>\<open>None\<close> stands for a Unix listener.\<close>

definition prepare_accepted_socket :: "(sock_call \<Rightarrow> bool) \<Rightarrow> tcp_listener option \<Rightarrow> pyval \<Rightarrow> sock_call list \<times> bool" where
  "prepare_accepted_socket works config timeout =
     and_then (run_calls works [C_settimeout timeout])
       (case config of
          None \<Rightarrow> ([], True)
        | Some l \<Rightarrow> if tl_ssl_context l \<noteq> None then close_on_error works [C_wrap_server] else ([], True))"

text \<open>
  \<open>cred\<close> is what \<open>SO_PEERCRED\<close> gives (\<open>pid\<close>, \<open>uid\<close>, \<open>gid\<close>) where the platform has it, and \<open>certificate\<close> the answer of \<open>getpeercert\<close>, with \<open>None\<close>
  for a plain socket, an error or an empty answer.  The address of the peer is only passed on.
\<close>

definition peer_info_of :: "pystr \<Rightarrow> (int \<times> int \<times> int) option \<Rightarrow> bytes option \<Rightarrow> peer_info" where
  "peer_info_of transport cred certificate =
     (let ids = (if transport = lit ''unix'' then cred else None)
      in \<lparr>pi_transport = transport, pi_uid = map_option (\<lambda>(pid, uid, gid). uid) ids, pi_gid = map_option (\<lambda>(pid, uid, gid). gid) ids,
          pi_pid = map_option (\<lambda>(pid, uid, gid). pid) ids,
          pi_certificate = (case certificate of Some [] \<Rightarrow> None | c \<Rightarrow> c)\<rparr>)"

subsection \<open>No socket is left open by a failure\<close>

fun opens :: "sock_call \<Rightarrow> bool" where
  "opens C_socket = True"
| "opens (C_create_connection _ _) = True"
| "opens _ = False"

definition left_open :: "(sock_call \<Rightarrow> bool) \<Rightarrow> sock_call list \<Rightarrow> bool" where
  "left_open works made \<longleftrightarrow> list_ex (\<lambda>c. opens c \<and> works c) made \<and> C_close \<notin> set made"

lemmas call_defs = and_then_def close_on_error_def left_open_def connect_address_def bind_tcp_def

lemma connect_leaves_nothing:
  assumes "\<And>t. works (C_settimeout t)"
  shows "left_open works (fst (connect_address works a)) \<longleftrightarrow> snd (connect_address works a)"
  using assms by (cases a) (simp_all add: call_defs)

lemma bind_tcp_leaves_nothing: "left_open works (fst (bind_tcp works l)) \<longleftrightarrow> snd (bind_tcp works l)"
  by (auto simp: call_defs)

text \<open>
  An address that passes its own checks is connected under TLS that verifies the server and its name, or goes to the
  loopback host that is marked insecure.
\<close>

lemma connection_secured:
  assumes "tcp_address_post_init a = Inr ()" and "connect_address works (A_tcp a) = (made, True)"
  shows "(\<exists>c. ta_ssl_context a = Some c \<and> cert_required c \<and> check_hostname c \<and> TLSv1_2 \<le> minimum_version c \<and>
            made = [C_create_connection (ta_host a) (ta_port a), C_wrap_client (tls_hostname a)]) \<or>
         (ta_insecure a \<and> ta_host a = lit ''127.0.0.1'' \<and> made = [C_create_connection (ta_host a) (ta_port a)])"
  using assms
  by (cases "ta_ssl_context a")
    (auto simp: call_defs tcp_address_post_init_def validate_client_tls_def insecure_loopback_hosts_def not_less
      split: if_splits option.splits)

lemma prepare_wraps:
  "snd (prepare_accepted_socket works (Some l) t) \<Longrightarrow> tl_ssl_context l \<noteq> None \<Longrightarrow>
   C_wrap_server \<in> set (fst (prepare_accepted_socket works (Some l) t))"
  by (auto simp: prepare_accepted_socket_def call_defs split: if_splits)

end
