(* ===== verification/ClientApi.thy ===== *)
theory ClientApi
  imports Client Sockets "HOL-Library.Code_Target_Nat" "HOL-Library.Multiset"
begin

text \<open>
  The edges of the client (\<open>remote/client.py\<close>): the dispatcher of callbacks with its slots and its executor, what the
  control calls make of the server's answers, the connection, and the rebuild after a fork.
\<close>

subsection \<open>The callback dispatcher\<close>

type_synonym batch = "nat list \<times> nat"

datatype dispatcher_phase = Cd_get | Cd_slot batch | Cd_exit

text \<open>
  \<open>cd_executor\<close> are the batches submitted to the callback executor and not yet begun, \<open>cd_running\<close> the callbacks left
  of the batches its threads are in.  \<open>cd_invoked\<close> and \<open>cd_scheduled\<close> record the callbacks invoked and handed
  over, each with its future; the code has no use for the two.
\<close>

record dispatcher =
  cd_queue :: "batch option list"
  cd_closed :: bool
  cd_phase :: dispatcher_phase
  cd_slots :: nat
  cd_executor :: "batch list"
  cd_executor_open :: bool
  cd_running :: "batch list"
  cd_invoked :: "(nat \<times> nat) multiset"
  cd_scheduled :: "(nat \<times> nat) multiset"

definition calls :: "batch \<Rightarrow> (nat \<times> nat) multiset" where
  "calls b = image_mset (\<lambda>cb. (cb, snd b)) (mset (fst b))"

definition invoke_all :: "batch \<Rightarrow> dispatcher \<Rightarrow> dispatcher" where
  "invoke_all b d = d\<lparr>cd_invoked := cd_invoked d + calls b\<rparr>"

definition schedule_callbacks :: "batch \<Rightarrow> dispatcher \<Rightarrow> dispatcher" where
  "schedule_callbacks b d =
     (let d' = d\<lparr>cd_scheduled := cd_scheduled d + calls b\<rparr>
      in if cd_closed d then invoke_all b d' else d'\<lparr>cd_queue := cd_queue d @ [Some b]\<rparr>)"

text \<open>One step of \<open>_callback_dispatcher_loop\<close>; an executor that is shut down raises and the batch runs here.\<close>

definition callback_dispatcher_step :: "dispatcher \<Rightarrow> dispatcher" where
  "callback_dispatcher_step d =
     (case cd_phase d of
        Cd_get \<Rightarrow>
          (case cd_queue d of
             [] \<Rightarrow> d
           | None # rest \<Rightarrow> d\<lparr>cd_queue := rest, cd_phase := Cd_exit\<rparr>
           | Some b # rest \<Rightarrow> d\<lparr>cd_queue := rest, cd_phase := Cd_slot b\<rparr>)
      | Cd_slot b \<Rightarrow>
          if cd_slots d = 0 then d
          else if cd_executor_open d then d\<lparr>cd_slots := cd_slots d - 1, cd_executor := cd_executor d @ [b], cd_phase := Cd_get\<rparr>
          else invoke_all b (d\<lparr>cd_phase := Cd_get\<rparr>)
      | Cd_exit \<Rightarrow> d)"

text \<open>A thread of the executor takes a batch: \<open>_run_callback_batch\<close> releases the slot before it invokes anything.\<close>

definition run_callback_batch :: "dispatcher \<Rightarrow> dispatcher" where
  "run_callback_batch d =
     (case cd_executor d of
        [] \<Rightarrow> d
      | b # rest \<Rightarrow> d\<lparr>cd_executor := rest, cd_slots := Suc (cd_slots d), cd_running := cd_running d @ [b]\<rparr>)"

text \<open>The next callback of the batch a thread is in; an exception of the callback is logged.\<close>

definition invoke_next :: "nat \<Rightarrow> dispatcher \<Rightarrow> dispatcher" where
  "invoke_next k d =
     (if k < length (cd_running d)
      then case cd_running d ! k of
             ([], f) \<Rightarrow> d\<lparr>cd_running := take k (cd_running d) @ drop (Suc k) (cd_running d)\<rparr>
           | (cb # cbs, f) \<Rightarrow> d\<lparr>cd_running := (cd_running d)[k := (cbs, f)], cd_invoked := add_mset (cb, f) (cd_invoked d)\<rparr>
      else d)"

definition close_dispatcher :: "dispatcher \<Rightarrow> dispatcher" where
  "close_dispatcher d = (if cd_closed d then d else d\<lparr>cd_closed := True, cd_queue := cd_queue d @ [None]\<rparr>)"

definition shutdown_executor :: "dispatcher \<Rightarrow> dispatcher" where
  "shutdown_executor d = d\<lparr>cd_executor_open := False\<rparr>"

datatype callback_event = Cb_schedule batch | Cb_dispatch | Cb_run | Cb_invoke nat | Cb_close | Cb_shutdown_executor

definition callback_step :: "callback_event \<Rightarrow> dispatcher \<Rightarrow> dispatcher" where
  "callback_step ev d =
     (case ev of
        Cb_schedule b \<Rightarrow> schedule_callbacks b d
      | Cb_dispatch \<Rightarrow> callback_dispatcher_step d
      | Cb_run \<Rightarrow> run_callback_batch d
      | Cb_invoke k \<Rightarrow> invoke_next k d
      | Cb_close \<Rightarrow> close_dispatcher d
      | Cb_shutdown_executor \<Rightarrow> shutdown_executor d)"

definition dispatcher_init :: "nat \<Rightarrow> dispatcher" where
  "dispatcher_init capacity =
     \<lparr>cd_queue = [], cd_closed = False, cd_phase = Cd_get, cd_slots = capacity, cd_executor = [], cd_executor_open = True, cd_running = [],
      cd_invoked = {#}, cd_scheduled = {#}\<rparr>"

definition callback_run :: "callback_event list \<Rightarrow> dispatcher \<Rightarrow> dispatcher" where
  "callback_run evs d = fold callback_step evs d"

text \<open>The callbacks handed over and not yet invoked.\<close>

definition outstanding :: "dispatcher \<Rightarrow> (nat \<times> nat) multiset" where
  "outstanding d =
     (\<Sum>b \<leftarrow> List.map_filter (\<lambda>x. x) (cd_queue d). calls b) + (case cd_phase d of Cd_slot b \<Rightarrow> calls b | _ \<Rightarrow> {#}) +
     (\<Sum>b \<leftarrow> cd_executor d. calls b) + (\<Sum>b \<leftarrow> cd_running d. calls b)"

definition dispatcher_inv :: "nat \<Rightarrow> dispatcher \<Rightarrow> bool" where
  "dispatcher_inv capacity d \<longleftrightarrow>
     cd_scheduled d = cd_invoked d + outstanding d \<and> cd_slots d + length (cd_executor d) = capacity \<and>
     (cd_phase d = Cd_exit \<longrightarrow> cd_queue d = [] \<and> cd_closed d) \<and>
     (if cd_closed d then cd_phase d = Cd_exit \<or> (\<exists>bs. cd_queue d = map Some bs @ [None]) else None \<notin> set (cd_queue d))"

lemma map_filter_simps:
  "List.map_filter (\<lambda>x. x) [] = []" "List.map_filter (\<lambda>x. x) (None # xs) = List.map_filter (\<lambda>x. x) xs"
  "List.map_filter (\<lambda>x. x) (Some b # xs) = b # List.map_filter (\<lambda>x. x) xs"
  "List.map_filter (\<lambda>x. x) (xs @ ys) = List.map_filter (\<lambda>x. x) xs @ List.map_filter (\<lambda>x. x) ys"
  by (simp_all add: List.map_filter_def)

lemma calls_simps: "calls ([], f) = {#}" "calls (cb # cbs, f) = add_mset (cb, f) (calls (cbs, f))"
  by (simp_all add: calls_def)

lemma invoke_next_running:
  assumes "k < length rs"
  shows "sum_list (map calls (take k rs @ drop (Suc k) rs)) + calls (rs ! k) = sum_list (map calls rs)"
  using assms by (subst (3) id_take_nth_drop [OF assms]) (simp add: add.commute add.left_commute)

lemma dispatcher_step_inv:
  assumes inv: "dispatcher_inv capacity d"
  shows "dispatcher_inv capacity (callback_step ev d)"
proof (cases ev)
  case (Cb_schedule b)
  then show ?thesis
    using inv by (auto simp: callback_step_def schedule_callbacks_def Let_def invoke_all_def dispatcher_inv_def outstanding_def map_filter_simps
        add_ac split: dispatcher_phase.splits)
next
  case Cb_dispatch
  then show ?thesis
    using inv by (auto simp: callback_step_def callback_dispatcher_step_def invoke_all_def dispatcher_inv_def outstanding_def map_filter_simps
        add_ac append_eq_Cons_conv Cons_eq_append_conv split: dispatcher_phase.splits list.splits option.splits if_splits)
next
  case Cb_run
  then show ?thesis
    using inv by (auto simp: callback_step_def run_callback_batch_def dispatcher_inv_def outstanding_def add_ac split: list.splits)
next
  case (Cb_invoke k)
  show ?thesis
  proof (cases "k < length (cd_running d)")
    case True
    obtain cbs f where b: "cd_running d ! k = (cbs, f)" by fastforce
    have upd: "(cd_running d)[k := x] = take k (cd_running d) @ x # drop (Suc k) (cd_running d)" for x
      using True by (rule upd_conv_take_nth_drop)
    have sum: "sum_list (map calls (cd_running d)) =
        sum_list (map calls (take k (cd_running d))) + sum_list (map calls (drop (Suc k) (cd_running d))) + calls (cbs, f)"
      using invoke_next_running [OF True] b by simp
    show ?thesis
      using inv Cb_invoke True b
      by (cases cbs) (auto simp: callback_step_def invoke_next_def dispatcher_inv_def outstanding_def upd sum calls_simps add_ac)
  qed (use inv Cb_invoke in \<open>simp add: callback_step_def invoke_next_def\<close>)
next
  case Cb_close
  have "\<exists>bs. cd_queue d = map Some bs" if "None \<notin> set (cd_queue d)"
    using that by (metis ex_map_conv not_None_eq)
  then show ?thesis
    using inv Cb_close by (auto simp: callback_step_def close_dispatcher_def dispatcher_inv_def outstanding_def map_filter_simps split: if_splits)
qed (use inv in \<open>simp add: callback_step_def shutdown_executor_def dispatcher_inv_def outstanding_def\<close>)


interpretation cb: stepwise callback_step "dispatcher_inv n" for n
  by unfold_locales (rule dispatcher_step_inv)

lemma dispatcher_run_inv: "dispatcher_inv n d \<Longrightarrow> dispatcher_inv n (callback_run evs d)"
  unfolding callback_run_def by (rule cb.run_kept)

lemma dispatcher_init_inv: "dispatcher_inv n (dispatcher_init n)"
  by (simp add: dispatcher_inv_def dispatcher_init_def outstanding_def map_filter_simps)

text \<open>The steps of the dispatcher thread and of the executor's threads.\<close>

definition dispatcher_moves :: "dispatcher \<Rightarrow> bool" where
  "dispatcher_moves d \<longleftrightarrow> (\<exists>ev \<in> insert Cb_dispatch (insert Cb_run (range Cb_invoke)). callback_step ev d \<noteq> d)"

lemma field_moves: "cd_running d' \<noteq> cd_running d \<or> cd_executor d' \<noteq> cd_executor d \<or> cd_phase d' \<noteq> cd_phase d \<Longrightarrow> d' \<noteq> d"
  by auto

lemma dispatcher_progress:
  assumes inv: "dispatcher_inv n d" and n: "0 < n" and out: "outstanding d \<noteq> {#}"
  shows "dispatcher_moves d"
proof (cases "cd_running d")
  case (Cons b bs)
  obtain cbs f where b: "b = (cbs, f)" by fastforce
  have "callback_step (Cb_invoke 0) d \<noteq> d"
    by (rule field_moves) (use Cons b in \<open>auto simp: callback_step_def invoke_next_def split: list.split\<close>)
  then show ?thesis by (auto simp: dispatcher_moves_def)
next
  case idle: Nil
  show ?thesis
  proof (cases "cd_executor d")
    case (Cons b bs)
    have "callback_step Cb_run d \<noteq> d"
      by (rule field_moves) (use Cons in \<open>simp add: callback_step_def run_callback_batch_def\<close>)
    then show ?thesis by (auto simp: dispatcher_moves_def)
  next
    case Nil
    then have slots: "0 < cd_slots d" using inv n by (simp add: dispatcher_inv_def)
    have "cd_phase d \<noteq> Cd_exit" using inv out Nil idle by (auto simp: dispatcher_inv_def outstanding_def map_filter_simps)
    moreover have "cd_queue d \<noteq> []" if "cd_phase d = Cd_get"
      using that out Nil idle by (auto simp: outstanding_def map_filter_simps)
    ultimately have "callback_step Cb_dispatch d \<noteq> d"
      using slots by (intro field_moves)
        (auto simp: callback_step_def callback_dispatcher_step_def invoke_all_def neq_Nil_conv split: dispatcher_phase.splits option.splits)
    then show ?thesis by (auto simp: dispatcher_moves_def)
  qed
qed

text \<open>
  (C16) Callbacks are invoked exactly once.  However scheduling, dispatching, running and the closing of the client
  interleave, the callbacks handed to the dispatcher are those already invoked together with those still in its queue, in
  its hands, in the executor or in a running batch; the executor never holds more than \<open>callback_queue_size\<close> waiting
  batches; and while a callback is outstanding some thread can take a step.
\<close>

theorem callbacks_exactly_once:
  "let d = callback_run evs (dispatcher_init (Suc n))
   in cd_scheduled d = cd_invoked d + outstanding d \<and> length (cd_executor d) \<le> Suc n \<and> (outstanding d = {#} \<or> dispatcher_moves d)"
proof -
  have inv: "dispatcher_inv (Suc n) (callback_run evs (dispatcher_init (Suc n)))"
    by (rule dispatcher_run_inv [OF dispatcher_init_inv])
  then show ?thesis using dispatcher_progress [OF inv] by (auto simp: Let_def dispatcher_inv_def)
qed

subsection \<open>Answers to control calls\<close>

text \<open>The end of \<open>_rpc_request\<close> when its wait is over: a timeout, a lost connection, or the answer.\<close>

datatype rpc_failure = Rpc_timeout | Rpc_connection_lost | Rpc_server_error json | Rpc_bad_answer | Rpc_value_error

definition rpc_answer :: "rpc_cell \<Rightarrow> rpc_failure + control" where
  "rpc_answer x =
     (if \<not> rc_event x then Inl Rpc_timeout
      else if rc_transport_error x then Inl Rpc_connection_lost
      else Inr (rc_response x))"

text \<open>The end of \<open>_cancel\<close>: the answer of \<open>cancel\<close>, or \<open>RemoteCancellationOutcomeUnknown\<close>.\<close>

definition cancel_answer :: "rpc_cell \<Rightarrow> error_class + bool" where
  "cancel_answer x =
     (if \<not> rc_event x then Inl Err_RemoteCancellationOutcomeUnknown
      else let decision = jget (rc_response x) ''response'' in
           if decision = J ''cancelled'' then Inr True
           else if decision \<in> {J ''running'', J ''terminal''} then Inr False
           else Inl Err_RemoteCancellationOutcomeUnknown)"

definition check_health :: "rpc_cell \<Rightarrow> rpc_failure + bool" where
  "check_health x = (case rpc_answer x of Inl e \<Rightarrow> Inl e | Inr response \<Rightarrow> Inr (jhas response ''nonce''))"

text \<open>
  \<open>dict(response.get("statistics") or {})\<close>; a server answers with an object, and what is neither an object nor false is
  taken as an error.
\<close>

definition statistics_of :: "json \<Rightarrow> rpc_failure + (json \<times> json) list" where
  "statistics_of j =
     (case j of
        JDict kvs \<Rightarrow> Inr kvs
      | _ \<Rightarrow> if j \<in> {JNull, JBool False, JInt 0, JFloat (Finite 0), JStr [], JList []} then Inr [] else Inl Rpc_bad_answer)"

definition get_statistics :: "rpc_cell \<Rightarrow> rpc_failure + (json \<times> json) list" where
  "get_statistics x =
     (case rpc_answer x of
        Inl e \<Rightarrow> Inl e
      | Inr response \<Rightarrow>
          if jhas response ''error'' then Inl (Rpc_server_error (jget response ''error''))
          else statistics_of (jget response ''statistics''))"

text \<open>\<open>str\<close> leaves the name of a state as it is; \<open>str_of\<close> is its value on anything else.\<close>

definition get_status :: "(json \<Rightarrow> pystr) \<Rightarrow> rpc_cell \<Rightarrow> rpc_failure + pystr" where
  "get_status str_of x =
     (case rpc_answer x of
        Inl e \<Rightarrow> Inl e
      | Inr response \<Rightarrow>
          if jhas response ''state''
          then (case jget response ''state'' of JStr s \<Rightarrow> Inr s | j \<Rightarrow> Inr (str_of j))
          else Inr (lit ''UNKNOWN''))"

text \<open>\<open>int(response.get(name, 0))\<close>; \<open>read_int\<close> reads a string, and \<open>None\<close> stands for the exception.\<close>

definition count_of :: "(pystr \<Rightarrow> int option) \<Rightarrow> control \<Rightarrow> string \<Rightarrow> int option" where
  "count_of read_int response name =
     (if jhas response name
      then (case jget response name of
              JInt i \<Rightarrow> Some i
            | JBool b \<Rightarrow> Some (if b then 1 else 0)
            | JFloat (Finite r) \<Rightarrow> Some (if r < 0 then - \<lfloor>- r\<rfloor> else \<lfloor>r\<rfloor>)
            | JStr s \<Rightarrow> read_int s
            | _ \<Rightarrow> None)
      else Some 0)"

definition group_counters :: "string list" where
  "group_counters = [''cancelled'', ''running'', ''terminal'', ''unknown'']"

definition client_cancel_group :: "(pystr \<Rightarrow> int option) \<Rightarrow> pyval \<Rightarrow> rpc_cell \<Rightarrow> rpc_failure + (string \<times> int) list" where
  "client_cancel_group read_int group_id x =
     (if (case group_id of VStr g \<Rightarrow> g = [] | _ \<Rightarrow> True) then Inl Rpc_value_error
      else case rpc_answer x of
             Inl e \<Rightarrow> Inl e
           | Inr response \<Rightarrow>
               let counts = map (count_of read_int response) group_counters in
               if None \<in> set counts then Inl Rpc_bad_answer else Inr (zip group_counters (map the counts)))"

text \<open>When \<open>cancel\<close> returns true its future is finished.\<close>

lemma cancel_true_finishes:
  assumes "cancel_answer (cl_cell c k) = Inr True" and "rc_future (cl_cell c k) = Some f"
  shows "rf_done (cl_fut (cancel_decided k c) f)"
  using assms
  by (auto simp: cancel_answer_def cancel_decided_def Let_def finish_def dispatch_callbacks_def take_callbacks_def upd_future_def
      rf_done_def set_cancelled_def split: if_splits list.split)

subsection \<open>Connecting\<close>

text \<open>
  How the exchange of \<open>HELLO\<close> and its answer ends: with an error of the package, with any other exception, or
  with a message.
\<close>

datatype exchange = X_remote_error error_class | X_other_error | X_message message

text \<open>
  \<open>_connect\<close> up to the threads it starts: the calls made on the socket, and the class of the error raised or the wire
  limits agreed on.
\<close>

definition hello_timeout :: "client_config \<Rightarrow> sock_call" where
  "hello_timeout cfg = C_settimeout (VFloat (Finite (handshake_timeout (cc_limits cfg))))"

definition client_connect :: "(sock_call \<Rightarrow> bool) \<Rightarrow> client_config \<Rightarrow> address \<Rightarrow> exchange \<Rightarrow> sock_call list \<times> (error_class + control)" where
  "client_connect works cfg addr x =
     (case connect_address works addr of (made, opened) \<Rightarrow>
        if \<not> opened then (made, Inl Err_RemoteExecutorUnavailable)
        else if \<not> works (hello_timeout cfg) then (made @ [hello_timeout cfg, C_close], Inl Err_RemoteExecutorUnavailable)
        else let made' = made @ [hello_timeout cfg] in
             case (case x of
                     X_remote_error e \<Rightarrow> Inl e
                   | X_other_error \<Rightarrow> Inl Err_RemoteExecutorUnavailable
                   | X_message m \<Rightarrow> check_welcome cfg m) of
               Inl e \<Rightarrow> (made' @ [C_close], Inl e)
             | Inr agreed \<Rightarrow>
                 if works (C_settimeout VNone) then (made' @ [C_settimeout VNone], Inr agreed)
                 else (made' @ [C_settimeout VNone, C_close], Inl Err_RemoteExecutorUnavailable))"

text \<open>
  A connection attempt leaves an open socket exactly if it succeeds, and it succeeds only on a \<open>WELCOME\<close> that passes
  the checks.
\<close>

lemma client_connect_all_or_nothing:
  assumes "\<And>t. works (C_settimeout t)"
  shows "left_open works (fst (client_connect works cfg addr x)) \<longleftrightarrow> (\<exists>l. snd (client_connect works cfg addr x) = Inr l)"
    and "snd (client_connect works cfg addr x) = Inr l \<Longrightarrow> \<exists>m. x = X_message m \<and> check_welcome cfg m = Inr l"
proof -
  obtain made opened where c: "connect_address works addr = (made, opened)" by fastforce
  have "left_open works made \<longleftrightarrow> opened" using connect_leaves_nothing [of works addr, OF assms] c by simp
  then show "left_open works (fst (client_connect works cfg addr x)) \<longleftrightarrow> (\<exists>l. snd (client_connect works cfg addr x) = Inr l)"
    by (cases x) (auto simp: client_connect_def c Let_def left_open_def hello_timeout_def assms split: sum.split)
  show "snd (client_connect works cfg addr x) = Inr l \<Longrightarrow> \<exists>m. x = X_message m \<and> check_welcome cfg m = Inr l"
    by (cases x) (auto simp: client_connect_def c Let_def hello_timeout_def assms split: sum.splits if_splits)
qed

subsection \<open>Forks\<close>

text \<open>
  \<open>_ensure_process\<close>: in a forked child the client takes the child as its owner, gets a new instance id, starts from
  nothing and connects; the last component says whether it raises because the connection fails.  A future of the parent
  is refused there.
\<close>

definition ensure_process :: "nat \<Rightarrow> pystr \<Rightarrow> bool \<Rightarrow> nat \<times> client_config \<times> client \<Rightarrow> (nat \<times> client_config \<times> client) \<times> bool" where
  "ensure_process pid fresh connects s =
     (case s of (owner, cfg, c) \<Rightarrow>
        if pid = owner then (s, False)
        else let cfg' = cfg\<lparr>cc_client_id := fresh\<rparr>
             in if connects then ((pid, cfg', client_init cfg'), False)
                else ((pid, cfg', (client_init cfg')\<lparr>cl_socket := False\<rparr>), True))"

definition check_process :: "nat \<Rightarrow> nat \<Rightarrow> error_class option" where
  "check_process owner pid = (if pid = owner then None else Some Err_RemoteForkedProcessError)"

text \<open>Requests of the child are never mistaken for requests of the parent.\<close>

lemma forked_ids_differ:
  assumes "pid \<noteq> owner" and "fresh \<noteq> cc_client_id cfg" and "58 \<notin> set fresh" and "58 \<notin> set (cc_client_id cfg)"
    and "ensure_process pid fresh connects (owner, cfg, c) = ((owner', cfg', c'), raised)"
  shows "request_id_of cfg' m \<noteq> request_id_of cfg n"
proof
  assume "request_id_of cfg' m = request_id_of cfg n"
  then have eq: "fresh @ 58 # nat_digits m = cc_client_id cfg @ 58 # nat_digits n"
    using assms(1,5) by (auto simp: ensure_process_def Let_def request_id_of_def lit_def simp del: nat_digits.simps split: if_splits)
  have "takeWhile (\<lambda>ch. ch \<noteq> 58) (xs @ 58 # ys) = xs" if "58 \<notin> set xs" for xs ys :: pystr
    using that by (subst takeWhile_append2) auto
  then show False using arg_cong [OF eq, of "takeWhile (\<lambda>ch. ch \<noteq> 58)"] assms(2-4) by (simp del: nat_digits.simps)
qed

text \<open>
  A child whose first connection fails never connects again: the second call finds its own process id and returns
  with the client still without a socket.
\<close>

lemma failed_reconnect_is_final:
  assumes "pid \<noteq> owner" and "ensure_process pid fresh False (owner, cfg, c) = (s, raised)"
  shows "raised \<and> ensure_process pid fresh' True s = (s, False) \<and> \<not> cl_socket (snd (snd s)) \<and>
    rpc_begin token f (snd (snd s)) = None"
  using assms by (auto simp: ensure_process_def Let_def rpc_begin_def)

end
