(* ===== verification/Session.thy ===== *)
theory Session
  imports Client Broker
begin

text \<open>
  The two ends of a connection together: the \<open>HELLO\<close> of a client against the server's checks, the server's
  \<open>WELCOME\<close> against the client's, and the client's submissions against the server's admission.
\<close>

subsection \<open>Control objects\<close>

lemma jget_ctl: "jget (ctl kvs) k = (case map_of kvs k of None \<Rightarrow> JNull | Some v \<Rightarrow> v)"
proof -
  have "map_of (ctl kvs) (J k) = map_of kvs k" by (induction kvs) (auto simp: ctl_def)
  then show ?thesis by (simp add: jget_def)
qed

lemma jhas_ctl: "jhas (ctl kvs) k \<longleftrightarrow> k \<in> fst ` set kvs"
proof -
  have "map_of (ctl kvs) (J k) = map_of kvs k" by (induction kvs) (auto simp: ctl_def)
  then show ?thesis by (simp add: jhas_def map_of_eq_None_iff)
qed

subsection \<open>The handshake\<close>

lemma wire_limits_valid:
  assumes "limits_ok l"
  shows "validate_wire_limits (JDict (wire_limits l)) = Inr (wire_limits l)"
  using assms by (simp add: validate_wire_limits_def wire_limits_def wire_limit_fields_def limits_ok_def)

definition wire_compatible :: "remote_limits \<Rightarrow> remote_limits \<Rightarrow> bool" where
  "wire_compatible l k \<longleftrightarrow>
     max_control_bytes l = max_control_bytes k \<and> max_frame_payload_bytes l = max_frame_payload_bytes k \<and>
     max_message_bytes l = max_message_bytes k \<and> max_metadata_bytes l = max_metadata_bytes k \<and> max_chunks l = max_chunks k"

lemma same_wire_limits: "same_dict (wire_limits l) (wire_limits k) \<longleftrightarrow> wire_compatible l k"
  by (auto simp: same_dict_def wire_limits_def wire_compatible_def)

definition hello_ok :: "client_config \<Rightarrow> bool" where
  "hello_ok cc \<longleftrightarrow>
     limits_ok (cc_limits cc) \<and> cc_client_id cc \<noteq> [] \<and> length (cc_client_id cc) \<le> 128 \<and> cc_serializer_name cc \<noteq> [] \<and>
     (json_int (cc_serializer_protocol cc) \<noteq> None \<or> json_str (cc_serializer_protocol cc) \<noteq> None)"

definition compatible :: "client_config \<Rightarrow> server_config \<Rightarrow> bool" where
  "compatible cc sv \<longleftrightarrow>
     wire_compatible (cc_limits cc) (sv_limits sv) \<and> cc_serializer_name cc = sv_serializer_name sv \<and>
     json_text (cc_serializer_protocol cc) = json_text (sv_serializer_protocol sv) \<and> cc_python cc = sv_python sv \<and>
     sv_registry_fingerprint sv \<in> {None, cc_registry_fingerprint cc} \<and>
     sv_application_fingerprint sv \<in> {None, cc_application_fingerprint cc}"

lemma hello_valid: "hello_ok cc \<Longrightarrow> validate_hello (msg_control (client_hello cc)) = Inr ()"
  by (simp add: validate_hello_def client_hello_def hello_ok_def jget_ctl jhas_ctl hello_required_def wire_limits_valid nonempty_str_def
      positive_json_def wire_name_def lit_def) (simp add: limits_ok_def)

lemma opt_json_inject [simp]: "opt_json a = opt_json b \<longleftrightarrow> a = b"
  by (auto simp: opt_json_def split: option.splits)

lemma hello_compatible: "incompatible sv (msg_control (client_hello cc)) = None \<longleftrightarrow> compatible cc sv"
  by (auto simp: incompatible_def client_hello_def jget_ctl compatible_def same_wire_limits prod_eq_iff)

lemma welcome_accepted:
  assumes "limits_ok (sv_limits sv)"
  shows "check_welcome cc \<lparr>msg_kind = M_WELCOME, msg_control = welcome_control sv s n, msg_payload = p\<rparr> =
     (if wire_compatible (sv_limits sv) (cc_limits cc) then Inr (wire_limits (sv_limits sv)) else Inl Err_RemoteCompatibilityError)"
  using assms by (simp add: check_welcome_def welcome_control_def jget_ctl wire_name_def wire_limits_valid same_wire_limits)

subsection \<open>Submissions\<close>

declare nat_digits.simps [simp del]

lemma nat_digits_range: "set (nat_digits n) \<subseteq> {48..57}"
  by (induction n rule: nat_digits.induct) (subst nat_digits.simps, auto)

lemma request_id_sequence: "request_sequence sv (request_id_of cc n) = sv_int sv (nat_digits n)"
proof -
  have "takeWhile (\<lambda>ch. ch \<noteq> 58) (rev (nat_digits n) @ [58] @ rest) = rev (nat_digits n)" for rest
    using nat_digits_range [of n] by (subst takeWhile_append2) auto
  then show ?thesis by (simp add: request_sequence_def request_id_of_def lit_def)
qed

lemma number_json:
  assumes "optional_timeout v name = Inr ()"
  shows "\<exists>x. optional_finite_nonnegative (json_of v) msg = Inr x"
proof (cases v)
  case (VFloat x)
  then show ?thesis
    using assms
    by (cases x) (auto simp: optional_timeout_def is_number_def optional_finite_nonnegative_def finite_nonnegative_def split: if_splits)
qed (use assms in \<open>auto simp: optional_timeout_def is_number_def optional_finite_nonnegative_def finite_nonnegative_def split: if_splits\<close>)


lemma submit_numbers_valid:
  assumes "check_options opts = Inr ()"
  shows "\<exists>nums. submit_numbers (submit_control cc rid operation opts payload) = Inr nums"
proof -
  have ok: "optional_timeout (so_execution_timeout opts) ''execution_timeout'' = Inr ()" "optional_timeout (so_queue_timeout opts) ''queue_timeout'' = Inr ()"
      and "is_int (so_priority opts)" "\<not> is_bool (so_priority opts)" "\<not> num_lt0 (so_priority opts)"
    using assms by (auto simp: check_options_def split: if_splits)
  then obtain i where i: "so_priority opts = VInt i" "\<not> i < 0" by (cases "so_priority opts") auto
  then obtain x where "finite_nonnegative (json_of (so_priority opts)) m = Inr x" for m by (simp add: finite_nonnegative_def)
  moreover obtain y where "optional_finite_nonnegative (json_of (so_execution_timeout opts)) ''execution_timeout must be finite and non-negative'' = Inr y"
    using number_json [OF ok(1)] by blast
  moreover obtain z where "optional_finite_nonnegative (json_of (so_queue_timeout opts)) ''queue_timeout must be finite and non-negative'' = Inr z"
    using number_json [OF ok(2)] by blast
  ultimately show ?thesis by (simp add: submit_numbers_def submit_control_def jget_ctl jhas_ctl)
qed

text \<open>What the server makes of the operation a client names.\<close>

lemma submit_mode_valid:
  "submit_mode sv (submit_control cc rid operation opts payload) =
     Inr (case operation of
            None \<Rightarrow> Inr (lit ''callable'', lit ''submit_callable'')
          | Some name \<Rightarrow> if name \<in> set (sv_task_registry sv) then Inr (lit ''registered'', lit ''submit_task:'' @ name)
                         else Inl ''unknown_operation'')"
  by (auto simp: submit_mode_def submit_control_def jget_ctl opt_json_def Let_def split: option.split)

text \<open>A session on the server that belongs to a client, with the same digest and Python's \<open>int\<close> of decimal digits.\<close>

definition paired :: "client_config \<Rightarrow> server_config \<Rightarrow> nat \<Rightarrow> pystr \<Rightarrow> broker \<Rightarrow> bool" where
  "paired cc sv c s b \<longleftrightarrow>
     cn_session (br_conn b c) = Some s \<and> ss_client_id (br_sess b s) = cc_client_id cc \<and>
     (\<forall>p. sv_sha256 sv p = cc_sha256 cc p) \<and> (\<forall>n. sv_int sv (nat_digits n) = Some (int n))"

definition submit_message :: "client_config \<Rightarrow> nat \<Rightarrow> pystr option \<Rightarrow> submission_options \<Rightarrow> bytes \<Rightarrow> message" where
  "submit_message cc n operation opts payload =
     \<lparr>msg_kind = M_SUBMIT, msg_control = submit_control cc (request_id_of cc n) operation opts payload, msg_payload = payload\<rparr>"

lemma queue_full_frame:
  "queue_full sv s (upd_sess s (\<lambda>ss. ss\<lparr>ss_watermark := w\<rparr>) b) = queue_full sv s b"
  "queue_full sv s (upd_stats g b) = queue_full sv s b"
  by (simp_all add: queue_full_def Let_def upd_sess_def upd_stats_def)

lemma authorized_frame:
  "authorized sv c a m (upd_sess s (\<lambda>ss. ss\<lparr>ss_watermark := w\<rparr>) b) = authorized sv c a m b"
  "authorized sv c a m (upd_stats g b) = authorized sv c a m b"
  by (simp_all add: authorized_def upd_sess_def upd_stats_def split: option.split)

text \<open>Up to the lock the server finds nothing wrong with a client's submission.\<close>

lemma submit_reaches_admission:
  assumes "paired cc sv c s b"
  shows "submit sv c (submit_message cc n operation opts payload) now b =
     submit_locked sv c s (request_id_of cc n) (int n) (cc_sha256 cc payload) (submit_message cc n operation opts payload) now
       (upd_stats (\<lambda>st. st\<lparr>st_received := st_received st + 1\<rparr>) b)"
proof -
  have "request_sequence sv (request_id_of cc n) = Some (int n)" using assms by (simp add: request_id_sequence paired_def)
  moreover have "take (length (cc_client_id cc @ [58])) (request_id_of cc n) = cc_client_id cc @ [58]"
    by (simp add: request_id_of_def lit_def)
  ultimately show ?thesis
    using assms by (simp add: submit_def submit_message_def submit_control_def jget_ctl paired_def Let_def)
qed

text \<open>A request is registered: it has its number, its session and the server know it by its id, and it is put into the scheduler.\<close>

definition registered :: "nat \<Rightarrow> pystr \<Rightarrow> request \<Rightarrow> broker \<Rightarrow> broker \<Rightarrow> bool" where
  "registered r s q b b' \<longleftrightarrow>
     r = br_nreq b \<and> br_nreq b' = Suc r \<and> br_req b' r = q \<and> rq_session_id q = s \<and>
     map_of (ss_requests (br_sess b' s)) (rq_request_id q) = Some r \<and> map_of (br_requests b') (rq_request_id q) = Some r \<and>
     br_scheduler b' = sched_put r (rq_priority q) (rq_principal q) (br_scheduler b)"

lemma accept_request_registers:
  "rq_session_id q = s \<Longrightarrow> registered (br_nreq b) s q b (accept_request sv s q b)"
  by (simp add: registered_def accept_request_def Let_def conn_send_def upd_conn_def upd_stats_def upd_sess_def update_conv')

text \<open>The action the server asks its authorizer about.\<close>

definition submit_action :: "pystr option \<Rightarrow> pystr" where
  "submit_action operation = (case operation of None \<Rightarrow> lit ''submit_callable'' | Some name \<Rightarrow> lit ''submit_task:'' @ name)"

text \<open>
  When the authorizer answers, the admission decision raises nothing, and takes the request when nothing stands against it.
\<close>

lemma submit_new_client:
  assumes opts: "check_options opts = Inr ()"
    and auth: "authorized sv c (submit_action operation) (submit_control cc (request_id_of cc n) operation opts payload) b = Inr permitted"
    and new: "(b', r) = submit_new sv c s (request_id_of cc n) digest (submit_message cc n operation opts payload) now b"
  shows "r = Inr ()"
    and "br_state b = SRV_RUNNING \<Longrightarrow> \<not> queue_full sv s b \<Longrightarrow> int (length payload) \<le> max_invocation_bytes (sv_limits sv) \<Longrightarrow>
      set_option operation \<subseteq> set (sv_task_registry sv) \<Longrightarrow> permitted \<Longrightarrow>
      \<exists>q. registered (br_nreq b) s q b b' \<and> rq_request_id q = request_id_of cc n \<and> rq_payload q = payload \<and> rq_state q = ACCEPTED_QUEUED"
proof -
  obtain nums where nums: "submit_numbers (submit_control cc (request_id_of cc n) operation opts payload) = Inr nums"
    using submit_numbers_valid [OF opts] by blast
  show "r = Inr ()"
    using auth nums arg_cong [OF new, of snd]
    by (cases operation) (auto simp: submit_new_def submit_message_def submit_mode_valid submit_action_def split: bool.split)
  assume *: "br_state b = SRV_RUNNING" "\<not> queue_full sv s b" "int (length payload) \<le> max_invocation_bytes (sv_limits sv)"
      "set_option operation \<subseteq> set (sv_task_registry sv)" "permitted"
  then obtain mode where b': "b' = accept_request sv s (new_request (request_id_of cc n) digest (br_sess b s) s c mode
        (submit_control cc (request_id_of cc n) operation opts payload) payload now nums) b"
    using nums auth arg_cong [OF new, of fst]
    by (cases operation) (auto simp: submit_new_def submit_message_def submit_mode_valid submit_action_def)
  show "\<exists>q. registered (br_nreq b) s q b b' \<and> rq_request_id q = request_id_of cc n \<and> rq_payload q = payload \<and> rq_state q = ACCEPTED_QUEUED"
    unfolding b'
    by (intro exI conjI, rule accept_request_registers) (simp_all add: new_request_def split: prod.split)
qed

end
