(* ===== verification/Worker.thy ===== *)
theory Worker
  imports Json "HOL-Library.Code_Target_Nat"
begin

text \<open>
  What runs in a worker process: the loop of \<open>raw_runner2\<close> with its timer and its watch over the parent
  (\<open>_pool.py\<close>), the limited pickle writer (\<open>remote/serializer.py\<close>) and the entry point of remote jobs
  (\<open>remote/_worker.py\<close>).  User functions and \<open>pickle\<close> are parameters; rendering an exception as text is taken not to raise.
\<close>

subsection \<open>The loop of a worker process\<close>

text \<open>What the pipe from the pool delivers; \<open>In_job t\<close> is a job with timeout \<open>t\<close>.\<close>

datatype incoming = In_job "rat option" | In_none | In_end | In_error

datatype call_end = Call_returns nat | Call_raises nat

datatype answer = A_result nat | A_exception nat | A_process_error | A_timeout

datatype raw_phase =
    W_init
  | W_wait
  | W_call
  | W_answer answer
  | W_finally
  | W_finitialize
  | W_killed

text \<open>
  \<open>rc_pickles\<close> says which exceptions \<open>pickle.dumps\<close> accepts, \<open>rc_sends\<close> which objects \<open>conn.send\<close> can pickle.
\<close>

record raw_config =
  rc_pickles :: "nat \<Rightarrow> bool"
  rc_sends :: "answer \<Rightarrow> bool"
  rc_mem_clear_threshold :: "int option"

text \<open>
  Jobs are numbered in the order of arrival; \<open>rw_answers\<close> is what went into the pipe and \<open>rw_unsent\<close> what \<open>conn.send\<close> has failed to put there,
  each answer with the job it was made for.  \<open>rw_pipe\<close> holds until the pipe breaks, \<open>rw_timer\<close> while the timer of the current job is
  running; \<open>rw_fired\<close> are the jobs whose timer has fired and has not sent its answer yet, \<open>rw_doomed\<close> holds once one has, after which its thread
  will kill the process, and \<open>rw_watch\<close> until the event \<open>evt\<close> is set.
\<close>

record raw_worker =
  rw_phase :: raw_phase
  rw_jobs :: nat
  rw_answers :: "(nat \<times> answer) list"
  rw_unsent :: "(nat \<times> answer) list"
  rw_pipe :: bool
  rw_timer :: bool
  rw_fired :: "nat list"
  rw_doomed :: bool
  rw_watch :: bool
  rw_trims :: nat

definition raw_start :: raw_worker where
  "raw_start =
     \<lparr>rw_phase = W_init, rw_jobs = 0, rw_answers = [], rw_unsent = [], rw_pipe = True, rw_timer = False, rw_fired = [], rw_doomed = False,
      rw_watch = True, rw_trims = 0\<rparr>"

definition conn_send_safe :: "raw_config \<Rightarrow> nat \<Rightarrow> answer \<Rightarrow> raw_worker \<Rightarrow> raw_worker" where
  "conn_send_safe cfg j a w =
     (if rc_sends cfg a \<and> rw_pipe w then w\<lparr>rw_answers := rw_answers w @ [(j, a)]\<rparr> else w\<lparr>rw_unsent := rw_unsent w @ [(j, a)]\<rparr>)"

text \<open>
  The timer of the current job fires: from now on cancelling it has no effect.  Its thread then runs \<open>timed_out\<close>, whose end is \<open>raw_kill\<close>;
  in between the main thread goes on, and may have come to a later job.
\<close>

definition timer_fires :: "raw_worker \<Rightarrow> raw_worker" where
  "timer_fires w = (if rw_timer w then w\<lparr>rw_timer := False, rw_fired := rw_fired w @ [rw_jobs w - 1]\<rparr> else w)"

definition timed_out :: "raw_config \<Rightarrow> nat \<Rightarrow> raw_worker \<Rightarrow> raw_worker" where
  "timed_out cfg j w =
     (if j \<in> set (rw_fired w)
      then conn_send_safe cfg j A_timeout (w\<lparr>rw_fired := removeAll j (rw_fired w), rw_doomed := True, rw_watch := False\<rparr>) else w)"

definition raw_kill :: "raw_worker \<Rightarrow> raw_worker" where
  "raw_kill w = (if rw_doomed w then w\<lparr>rw_phase := W_killed\<rparr> else w)"

text \<open>\<open>self_destruct_if_parent_disappers\<close> has seen that the parent is gone.\<close>

definition parent_gone :: "raw_worker \<Rightarrow> raw_worker" where
  "parent_gone w = (if rw_watch w then w\<lparr>rw_watch := False, rw_phase := W_killed\<rparr> else w)"

definition timer_wanted :: "rat option \<Rightarrow> bool" where
  "timer_wanted t = (case t of None \<Rightarrow> False | Some r \<Rightarrow> r \<noteq> 0)"

definition raw_recv :: "incoming \<Rightarrow> raw_worker \<Rightarrow> raw_worker" where
  "raw_recv inp w =
     (case inp of
        In_job t \<Rightarrow> w\<lparr>rw_phase := W_call, rw_jobs := Suc (rw_jobs w), rw_timer := timer_wanted t\<rparr>
      | _ \<Rightarrow> w\<lparr>rw_phase := W_finitialize\<rparr>)"

definition raw_call :: "raw_config \<Rightarrow> call_end \<Rightarrow> raw_worker \<Rightarrow> raw_worker" where
  "raw_call cfg ended w =
     w\<lparr>rw_phase := W_answer (case ended of
        Call_returns v \<Rightarrow> A_result v
      | Call_raises e \<Rightarrow> if rc_pickles cfg e then A_exception e else A_process_error)\<rparr>"

definition raw_finally :: "raw_config \<Rightarrow> int \<Rightarrow> raw_worker \<Rightarrow> raw_worker" where
  "raw_finally cfg rss w =
     w\<lparr>rw_phase := W_wait, rw_timer := False,
       rw_trims := rw_trims w + (case rc_mem_clear_threshold cfg of None \<Rightarrow> 0 | Some m \<Rightarrow> if rss > m then 1 else 0)\<rparr>"

datatype raw_event =
  Re_recv incoming | Re_call call_end | Re_main int | Re_timer | Re_timed_out nat | Re_kill | Re_parent_gone | Re_pipe_breaks

text \<open>
  The threads of the process, as long as it lives.  \<open>Re_main\<close> is a step of the main thread that waits for nothing; an
  exception of the initializer or the finitializer is logged.
\<close>

definition raw_step :: "raw_config \<Rightarrow> raw_event \<Rightarrow> raw_worker \<Rightarrow> raw_worker" where
  "raw_step cfg ev w =
     (if rw_phase w = W_killed then w
      else case ev of
        Re_recv inp \<Rightarrow> if rw_phase w = W_wait then raw_recv inp w else w
      | Re_call ended \<Rightarrow> if rw_phase w = W_call then raw_call cfg ended w else w
      | Re_main rss \<Rightarrow>
          (case rw_phase w of
             W_init \<Rightarrow> w\<lparr>rw_phase := W_wait\<rparr>
           | W_answer a \<Rightarrow> conn_send_safe cfg (rw_jobs w - 1) a (w\<lparr>rw_phase := W_finally\<rparr>)
           | W_finally \<Rightarrow> raw_finally cfg rss w
           | W_finitialize \<Rightarrow> w\<lparr>rw_watch := False, rw_phase := W_killed\<rparr>
           | _ \<Rightarrow> w)
      | Re_timer \<Rightarrow> timer_fires w
      | Re_timed_out j \<Rightarrow> timed_out cfg j w
      | Re_kill \<Rightarrow> raw_kill w
      | Re_parent_gone \<Rightarrow> parent_gone w
      | Re_pipe_breaks \<Rightarrow> w\<lparr>rw_pipe := False\<rparr>)"

definition raw_runner2 :: "raw_config \<Rightarrow> raw_event list \<Rightarrow> raw_worker \<Rightarrow> raw_worker" where
  "raw_runner2 cfg evs w = fold (raw_step cfg) evs w"

subsection \<open>Serialization\<close>

datatype ser_error = SerializationLimitError | Ser_value_error | Ser_other nat

record limited_writer =
  lw_limit :: int
  lw_buffer :: bytes

definition limited_writer_init :: "int \<Rightarrow> ser_error + limited_writer" where
  "limited_writer_init limit = (if limit < 0 then Inl Ser_value_error else Inr \<lparr>lw_limit = limit, lw_buffer = []\<rparr>)"

definition lw_write :: "bytes \<Rightarrow> limited_writer \<Rightarrow> ser_error + limited_writer" where
  "lw_write chunk w =
     (if int (length (lw_buffer w) + length chunk) > lw_limit w then Inl SerializationLimitError
      else Inr (w\<lparr>lw_buffer := lw_buffer w @ chunk\<rparr>))"

text \<open>\<open>Pickler.dump\<close> writes chunk after chunk and may then raise an error of its own.\<close>

fun pickler_dump :: "bytes list \<Rightarrow> nat option \<Rightarrow> limited_writer \<Rightarrow> ser_error + limited_writer" where
  "pickler_dump [] e w = (case e of None \<Rightarrow> Inr w | Some n \<Rightarrow> Inl (Ser_other n))"
| "pickler_dump (c # cs) e w = (case lw_write c w of Inl x \<Rightarrow> Inl x | Inr w' \<Rightarrow> pickler_dump cs e w')"

definition pickle_dumps :: "(nat \<Rightarrow> bytes list \<times> nat option) \<Rightarrow> nat \<Rightarrow> int \<Rightarrow> ser_error + bytes" where
  "pickle_dumps pickle v limit =
     (case limited_writer_init limit of
        Inl x \<Rightarrow> Inl x
      | Inr w \<Rightarrow> (case pickler_dump (fst (pickle v)) (snd (pickle v)) w of Inl x \<Rightarrow> Inl x | Inr w' \<Rightarrow> Inr (lw_buffer w')))"

subsection \<open>The entry point of remote jobs\<close>

text \<open>
  Objects are numbered.  \<open>ap_loads\<close> gives the components of the unpickled tuple, or the exception of the
  unpickling or of the unpacking; \<open>ap_call\<close> runs a function on arguments.
\<close>

record application =
  ap_loads3 :: "bytes \<Rightarrow> nat + nat \<times> nat \<times> nat"
  ap_loads2 :: "bytes \<Rightarrow> nat + nat \<times> nat"
  ap_call :: "nat \<Rightarrow> nat \<Rightarrow> nat \<Rightarrow> nat + nat"
  ap_unknown_operation :: "pystr option \<Rightarrow> nat"
  ap_unknown_mode :: "pystr \<Rightarrow> nat"
  ap_repr :: "nat \<Rightarrow> pystr option"
  ap_module :: "nat \<Rightarrow> pystr"
  ap_qualname :: "nat \<Rightarrow> pystr"
  ap_traceback :: "nat \<Rightarrow> pystr"
  ap_error_object :: "ser_error \<Rightarrow> nat"

record worker_outcome =
  wo_kind :: string
  wo_payload :: bytes
  wo_descriptor :: "(string, pystr) dict option"

definition safe_repr :: "application \<Rightarrow> nat \<Rightarrow> pystr" where
  "safe_repr ap v =
     (case ap_repr ap v of
        Some s \<Rightarrow> take 4096 s
      | None \<Rightarrow> lit ''<'' @ ap_module ap v @ lit ''.'' @ ap_qualname ap v @ lit ''>'')"

definition describe_exception :: "application \<Rightarrow> nat \<Rightarrow> (string, pystr) dict" where
  "describe_exception ap e =
     [(''module'', ap_module ap e), (''type'', ap_qualname ap e), (''message'', safe_repr ap e), (''traceback'', ap_traceback ap e)]"

definition materialize :: "application \<Rightarrow> pystr \<Rightarrow> bytes \<Rightarrow> pystr option \<Rightarrow> (pystr, nat) dict option \<Rightarrow> nat + nat" where
  "materialize ap mode invocation operation registry =
     (if mode = lit ''callable''
      then (case ap_loads3 ap invocation of Inl e \<Rightarrow> Inl e | Inr (fn, args, kwargs) \<Rightarrow> ap_call ap fn args kwargs)
      else if mode = lit ''registered''
      then (case (registry, operation) of
              (Some reg, Some name) \<Rightarrow>
                (case map_of reg name of
                   None \<Rightarrow> Inl (ap_unknown_operation ap operation)
                 | Some fn \<Rightarrow> (case ap_loads2 ap invocation of Inl e \<Rightarrow> Inl e | Inr (args, kwargs) \<Rightarrow> ap_call ap fn args kwargs))
            | _ \<Rightarrow> Inl (ap_unknown_operation ap operation))
      else Inl (ap_unknown_mode ap mode))"

definition execute_opaque ::
    "application \<Rightarrow> (nat \<Rightarrow> int \<Rightarrow> ser_error + bytes) \<Rightarrow> pystr \<Rightarrow> bytes \<Rightarrow> pystr option \<Rightarrow> (pystr, nat) dict option \<Rightarrow> int
       \<Rightarrow> worker_outcome" where
  "execute_opaque ap dumps mode invocation operation registry result_limit =
     (case materialize ap mode invocation operation registry of
        Inl error \<Rightarrow>
          (case dumps error result_limit of
             Inl x \<Rightarrow> \<lparr>wo_kind = ''task_error'', wo_payload = [],
                        wo_descriptor = Some (AList.update ''serialization_error'' (safe_repr ap (ap_error_object ap x))
                          (describe_exception ap error))\<rparr>
           | Inr payload \<Rightarrow> \<lparr>wo_kind = ''task_error'', wo_payload = payload, wo_descriptor = Some (describe_exception ap error)\<rparr>)
      | Inr v \<Rightarrow>
          (case dumps v result_limit of
             Inl x \<Rightarrow>
               if x = SerializationLimitError
               then \<lparr>wo_kind = ''result_too_large'', wo_payload = [],
                      wo_descriptor = Some [(''message'', safe_repr ap (ap_error_object ap x))]\<rparr>
               else \<lparr>wo_kind = ''result_encoding_failed'', wo_payload = [],
                      wo_descriptor = Some (describe_exception ap (ap_error_object ap x))\<rparr>
           | Inr payload \<Rightarrow> \<lparr>wo_kind = ''result'', wo_payload = payload, wo_descriptor = None\<rparr>))"

subsection \<open>Processes\<close>

text \<open>
  The processes that get the signal; \<open>tree\<close> is \<open>psutil\<close>'s view: the descendants of a process that exists.
\<close>

definition kill_proc_tree :: "nat \<Rightarrow> (nat \<Rightarrow> nat list option) \<Rightarrow> nat \<Rightarrow> bool \<Rightarrow> bool \<Rightarrow> nat list result" where
  "kill_proc_tree self tree pid include_parent allow_kill_self =
     (if \<not> allow_kill_self \<and> pid = self then Inl (ValueError ''Won't kill myself'')
      else case tree pid of
             None \<Rightarrow> Inr []
           | Some children \<Rightarrow> Inr (children @ (if include_parent then [pid] else [])))"

text \<open>\<open>exitcode\<close> is read once before and once after the bounded join; \<open>strsignal\<close> is \<open>None\<close> where it raises.\<close>

definition format_death_message :: "(int \<Rightarrow> pystr option) \<Rightarrow> int \<Rightarrow> int option \<Rightarrow> int option \<Rightarrow> pystr" where
  "format_death_message strsignal pid before joined =
     (case (case before of None \<Rightarrow> joined | Some _ \<Rightarrow> before) of
        None \<Rightarrow> lit ''Worker process died unexpectedly''
      | Some exitcode \<Rightarrow>
          lit ''Subprocess '' @ int_digits pid @ lit '' completed unexpectedly with exitcode '' @ int_digits exitcode @ lit '' ('' @
          (case strsignal (- exitcode) of None \<Rightarrow> lit ''Unknown'' | Some name \<Rightarrow> name) @ lit '')'')"

text \<open>The variables are set before the original initializer runs, which gets the new environment.\<close>

definition initializer_environ_propagator ::
    "(pystr, pystr) dict \<Rightarrow> ((pystr, pystr) dict \<Rightarrow> 'r) option \<Rightarrow> (pystr, pystr) dict \<Rightarrow> (pystr, pystr) dict \<times> 'r option" where
  "initializer_environ_propagator environ original_initializer os_environ =
     (let env = fold (\<lambda>(k, v). AList.update k v) environ os_environ
      in (env, map_option (\<lambda>f. f env) original_initializer))"

subsection \<open>What the writer lets through\<close>

lemma pickler_dump_spec:
  assumes "int (length (lw_buffer w)) \<le> lw_limit w"
  shows "pickler_dump cs e w =
     (if int (length (lw_buffer w) + length (concat cs)) > lw_limit w then Inl SerializationLimitError
      else case e of None \<Rightarrow> Inr (w\<lparr>lw_buffer := lw_buffer w @ concat cs\<rparr>) | Some n \<Rightarrow> Inl (Ser_other n))"
  using assms
proof (induction cs arbitrary: w)
  case Nil
  then show ?case by (simp split: option.split)
next
  case (Cons c cs)
  show ?case
  proof (cases "int (length (lw_buffer w) + length c) > lw_limit w")
    case True
    then show ?thesis by (simp add: lw_write_def)
  next
    case False
    then show ?thesis using Cons.IH [of "w\<lparr>lw_buffer := lw_buffer w @ c\<rparr>"] by (simp add: lw_write_def add.assoc split: option.split)
  qed
qed

lemma pickle_dumps_spec:
  "pickle_dumps pickle v limit =
     (if limit < 0 then Inl Ser_value_error
      else if int (length (concat (fst (pickle v)))) > limit then Inl SerializationLimitError
      else case snd (pickle v) of None \<Rightarrow> Inr (concat (fst (pickle v))) | Some n \<Rightarrow> Inl (Ser_other n))"
  by (simp add: pickle_dumps_def limited_writer_init_def pickler_dump_spec split: option.split)

lemma pickle_dumps_bounded: "pickle_dumps pickle v limit = Inr payload \<Longrightarrow> int (length payload) \<le> limit"
  by (auto simp: pickle_dumps_spec split: if_splits option.splits)

text \<open>What the worker relies on in a serializer: it keeps the limit it is given.\<close>

locale bounded_serializer =
  fixes dumps :: "nat \<Rightarrow> int \<Rightarrow> ser_error + bytes"
  assumes bounded: "dumps v limit = Inr payload \<Longrightarrow> int (length payload) \<le> limit"
begin

lemma outcome_bounded:
  assumes "0 \<le> limit"
  shows "int (length (wo_payload (execute_opaque ap dumps mode invocation operation registry limit))) \<le> limit"
  using assms bounded by (simp add: execute_opaque_def split: sum.split)

end

interpretation pk: bounded_serializer "pickle_dumps pickle" for pickle
  by unfold_locales (rule pickle_dumps_bounded)

text \<open>The propagated variables win, the others stay.\<close>

lemma environ_propagated:
  assumes "wf_dict environ"
  shows "map_of (fst (initializer_environ_propagator environ f os_environ)) k =
    (case map_of environ k of Some v \<Rightarrow> Some v | None \<Rightarrow> map_of os_environ k)"
proof -
  have "map_of (fold (\<lambda>(k, v). AList.update k v) environ os_environ) k =
      (case map_of environ k of Some v \<Rightarrow> Some v | None \<Rightarrow> map_of os_environ k)"
    using assms
  proof (induction environ arbitrary: os_environ)
    case (Cons kv environ)
    obtain a v where kv: "kv = (a, v)" by fastforce
    have "map_of environ a = None" using Cons.prems by (auto simp: kv map_of_eq_None_iff)
    then show ?case using Cons by (auto simp: kv update_conv' split: option.split)
  qed simp
  then show ?thesis by (simp add: initializer_environ_propagator_def Let_def)
qed

subsection \<open>The answers of a worker\<close>

definition task_answers :: "raw_worker \<Rightarrow> nat list" where
  "task_answers w = map fst (filter (\<lambda>(j, a). a \<noteq> A_timeout) (rw_answers w))"

definition timeouts :: "raw_worker \<Rightarrow> nat list" where
  "timeouts w = map fst (filter (\<lambda>(j, a). a = A_timeout) (rw_answers w))"

text \<open>The jobs whose answer by the main thread could not be sent.\<close>

definition unsent_jobs :: "raw_worker \<Rightarrow> nat list" where
  "unsent_jobs w = map fst (filter (\<lambda>(j, a). a \<noteq> A_timeout) (rw_unsent w))"

definition in_call :: "raw_worker \<Rightarrow> bool" where
  "in_call w \<longleftrightarrow> rw_phase w = W_call \<or> (\<exists>a. rw_phase w = W_answer a)"

text \<open>How many jobs the main thread is through with.\<close>

definition past_jobs :: "raw_worker \<Rightarrow> nat" where
  "past_jobs w = (if in_call w then rw_jobs w - 1 else rw_jobs w)"

definition worker_inv :: "raw_config \<Rightarrow> raw_worker \<Rightarrow> bool" where
  "worker_inv cfg w \<longleftrightarrow>
     (\<forall>j \<in> fst ` set (rw_answers w). j < rw_jobs w) \<and> sorted_wrt (<) (task_answers w) \<and> distinct (timeouts w) \<and>
     (in_call w \<longrightarrow> 0 < rw_jobs w) \<and>
     (rw_phase w \<noteq> W_killed \<longrightarrow> set (task_answers w) \<union> set (unsent_jobs w) = {..<past_jobs w}) \<and>
     set (task_answers w) \<inter> set (unsent_jobs w) = {} \<and>
     (\<forall>a. rw_phase w = W_answer a \<longrightarrow> a \<noteq> A_timeout) \<and>
     (\<forall>j \<in> set (rw_fired w). j < rw_jobs w \<and> j \<notin> set (timeouts w)) \<and>
     (rw_timer w \<longrightarrow> 0 < rw_jobs w \<and> rw_jobs w - 1 \<notin> set (timeouts w) \<union> set (rw_fired w)) \<and>
     (timeouts w \<noteq> [] \<longrightarrow> rw_doomed w) \<and>
     (\<forall>(j, a) \<in> set (rw_unsent w). \<not> rc_sends cfg a \<or> \<not> rw_pipe w)"

lemma answers_send:
  "task_answers (conn_send_safe cfg j a w) = task_answers w @ (if rc_sends cfg a \<and> rw_pipe w \<and> a \<noteq> A_timeout then [j] else [])"
  "timeouts (conn_send_safe cfg j a w) = timeouts w @ (if rc_sends cfg a \<and> rw_pipe w \<and> a = A_timeout then [j] else [])"
  "unsent_jobs (conn_send_safe cfg j a w) = unsent_jobs w @ (if \<not> (rc_sends cfg a \<and> rw_pipe w) \<and> a \<noteq> A_timeout then [j] else [])"
  by (auto simp: conn_send_safe_def task_answers_def timeouts_def unsent_jobs_def)

lemma send_frame [simp]:
  "rw_jobs (conn_send_safe cfg j a w) = rw_jobs w" "rw_phase (conn_send_safe cfg j a w) = rw_phase w"
  "rw_pipe (conn_send_safe cfg j a w) = rw_pipe w" "rw_timer (conn_send_safe cfg j a w) = rw_timer w"
  "rw_fired (conn_send_safe cfg j a w) = rw_fired w" "rw_doomed (conn_send_safe cfg j a w) = rw_doomed w"
  "in_call (conn_send_safe cfg j a w) = in_call w" "past_jobs (conn_send_safe cfg j a w) = past_jobs w"
  by (auto simp: conn_send_safe_def in_call_def past_jobs_def)

lemma answers_frame [simp]:
  "task_answers (w\<lparr>rw_phase := p\<rparr>) = task_answers w" "timeouts (w\<lparr>rw_phase := p\<rparr>) = timeouts w" "unsent_jobs (w\<lparr>rw_phase := p\<rparr>) = unsent_jobs w"
  "task_answers (w\<lparr>rw_timer := t\<rparr>) = task_answers w" "timeouts (w\<lparr>rw_timer := t\<rparr>) = timeouts w" "unsent_jobs (w\<lparr>rw_timer := t\<rparr>) = unsent_jobs w"
  "task_answers (w\<lparr>rw_jobs := n\<rparr>) = task_answers w" "timeouts (w\<lparr>rw_jobs := n\<rparr>) = timeouts w" "unsent_jobs (w\<lparr>rw_jobs := n\<rparr>) = unsent_jobs w"
  "task_answers (w\<lparr>rw_trims := n\<rparr>) = task_answers w" "timeouts (w\<lparr>rw_trims := n\<rparr>) = timeouts w" "unsent_jobs (w\<lparr>rw_trims := n\<rparr>) = unsent_jobs w"
  "task_answers (w\<lparr>rw_watch := t\<rparr>) = task_answers w" "timeouts (w\<lparr>rw_watch := t\<rparr>) = timeouts w" "unsent_jobs (w\<lparr>rw_watch := t\<rparr>) = unsent_jobs w"
  "task_answers (w\<lparr>rw_fired := l\<rparr>) = task_answers w" "timeouts (w\<lparr>rw_fired := l\<rparr>) = timeouts w" "unsent_jobs (w\<lparr>rw_fired := l\<rparr>) = unsent_jobs w"
  "task_answers (w\<lparr>rw_doomed := t\<rparr>) = task_answers w" "timeouts (w\<lparr>rw_doomed := t\<rparr>) = timeouts w" "unsent_jobs (w\<lparr>rw_doomed := t\<rparr>) = unsent_jobs w"
  "task_answers (w\<lparr>rw_pipe := t\<rparr>) = task_answers w" "timeouts (w\<lparr>rw_pipe := t\<rparr>) = timeouts w" "unsent_jobs (w\<lparr>rw_pipe := t\<rparr>) = unsent_jobs w"
  by (simp_all add: task_answers_def timeouts_def unsent_jobs_def)

lemma answered_jobs: "worker_inv cfg w \<Longrightarrow> set (task_answers w) \<union> set (timeouts w) \<subseteq> {..<rw_jobs w}"
  by (auto simp: worker_inv_def task_answers_def timeouts_def)

lemma worker_send_inv:
  assumes inv: "worker_inv cfg w" and p: "rw_phase w = W_answer a"
  shows "worker_inv cfg (conn_send_safe cfg (rw_jobs w - 1) a (w\<lparr>rw_phase := W_finally\<rparr>))" (is "worker_inv cfg ?d")
proof -
  have a: "a \<noteq> A_timeout" "0 < rw_jobs w" "in_call w" "set (task_answers w) \<union> set (unsent_jobs w) = {..<rw_jobs w - 1}"
    using inv p by (auto simp: worker_inv_def in_call_def past_jobs_def)
  have split: "{..<rw_jobs w} = insert (rw_jobs w - 1) {..<rw_jobs w - 1}" using a(2) by auto
  have "past_jobs ?d = rw_jobs w" by (simp add: past_jobs_def in_call_def)
  then have "set (task_answers ?d) \<union> set (unsent_jobs ?d) = {..<past_jobs ?d}" "set (task_answers ?d) \<inter> set (unsent_jobs ?d) = {}"
      "sorted_wrt (<) (task_answers ?d)"
    using inv a by (auto simp: answers_send split worker_inv_def sorted_wrt_append)
  moreover have "\<forall>j \<in> fst ` set (rw_answers ?d). j < rw_jobs w" "\<forall>(j, b) \<in> set (rw_unsent ?d). \<not> rc_sends cfg b \<or> \<not> rw_pipe ?d"
    using inv a(2) by (auto simp: worker_inv_def conn_send_safe_def)
  moreover have "\<not> in_call ?d" "timeouts ?d = timeouts w" using a(1) by (simp_all add: in_call_def answers_send)
  ultimately show ?thesis using inv by (simp add: worker_inv_def)
qed

lemma worker_timeout_inv:
  assumes inv: "worker_inv cfg w"
  shows "worker_inv cfg (timed_out cfg j w)"
proof (cases "j \<in> set (rw_fired w)")
  case True
  let ?w = "w\<lparr>rw_fired := removeAll j (rw_fired w), rw_doomed := True, rw_watch := False\<rparr>"
  have j: "j < rw_jobs w" "j \<notin> set (timeouts w)" using inv True by (auto simp: worker_inv_def)
  have d: "timed_out cfg j w = conn_send_safe cfg j A_timeout ?w" using True by (simp add: timed_out_def)
  have frame: "in_call ?w = in_call w" "past_jobs ?w = past_jobs w" by (simp_all add: in_call_def past_jobs_def)
  have "\<forall>i \<in> fst ` set (rw_answers (conn_send_safe cfg j A_timeout ?w)). i < rw_jobs w"
    "\<forall>(i, b) \<in> set (rw_unsent (conn_send_safe cfg j A_timeout ?w)). \<not> rc_sends cfg b \<or> \<not> rw_pipe w"
    using inv j(1) by (auto simp: worker_inv_def conn_send_safe_def)
  then show ?thesis
    using inv j True unfolding d by (auto simp: worker_inv_def answers_send frame)
qed (use inv in \<open>simp add: timed_out_def\<close>)

lemma worker_step_inv:
  assumes inv: "worker_inv cfg w"
  shows "worker_inv cfg (raw_step cfg ev w)"
proof -
  note jobs = answered_jobs [OF inv]
  have dead: "worker_inv cfg (w\<lparr>rw_phase := W_killed\<rparr>)" "worker_inv cfg (w\<lparr>rw_watch := b, rw_phase := W_killed\<rparr>)" for b
    using inv by (simp_all add: worker_inv_def in_call_def)
  have idle: "worker_inv cfg (w\<lparr>rw_phase := W_wait\<rparr>)" if "rw_phase w = W_init"
    using inv that by (simp add: worker_inv_def in_call_def past_jobs_def)
  have recv: "worker_inv cfg (raw_recv inp w)" if "rw_phase w = W_wait" for inp
    using inv that jobs by (cases inp) (auto simp: raw_recv_def worker_inv_def in_call_def past_jobs_def)
  have call: "worker_inv cfg (raw_call cfg ended w)" if "rw_phase w = W_call" for ended
    using inv that by (auto simp: raw_call_def worker_inv_def in_call_def past_jobs_def split: call_end.splits if_splits)
  have fin: "worker_inv cfg (raw_finally cfg rss w)" if "rw_phase w = W_finally" for rss
    using inv that by (simp add: raw_finally_def worker_inv_def in_call_def past_jobs_def)
  have others: "worker_inv cfg (timer_fires w)" "worker_inv cfg (w\<lparr>rw_pipe := False\<rparr>)"
    using inv by (auto simp: timer_fires_def worker_inv_def in_call_def past_jobs_def)
  show ?thesis
    using inv dead idle recv call fin others worker_send_inv [OF inv] worker_timeout_inv [OF inv]
    by (auto simp: raw_step_def raw_kill_def parent_gone_def split: raw_event.split raw_phase.split)
qed

interpretation rw: stepwise "raw_step cfg" "worker_inv cfg" for cfg
  by unfold_locales (rule worker_step_inv)

lemma worker_run_inv: "worker_inv cfg w \<Longrightarrow> worker_inv cfg (raw_runner2 cfg evs w)"
  unfolding raw_runner2_def by (rule rw.run_kept)

lemma worker_start_inv: "worker_inv cfg raw_start"
  by (simp add: worker_inv_def raw_start_def task_answers_def timeouts_def unsent_jobs_def in_call_def past_jobs_def)

text \<open>Once the main thread has left a job behind, the job gets no further answer.\<close>

definition left_behind :: "nat \<Rightarrow> raw_worker \<Rightarrow> bool" where
  "left_behind j w \<longleftrightarrow> j < rw_jobs w \<and> j \<notin> set (rw_fired w) \<and> (j = rw_jobs w - 1 \<longrightarrow> \<not> in_call w \<and> \<not> rw_timer w)"

lemma left_behind_step:
  assumes "worker_inv cfg w" and "left_behind j w"
  shows "left_behind j (raw_step cfg ev w) \<and>
    filter (\<lambda>x. fst x = j) (rw_answers (raw_step cfg ev w)) = filter (\<lambda>x. fst x = j) (rw_answers w)"
  using assms
  by (auto simp: raw_step_def raw_recv_def raw_call_def raw_finally_def raw_kill_def parent_gone_def timer_fires_def timed_out_def conn_send_safe_def
      left_behind_def in_call_def worker_inv_def split: raw_event.splits raw_phase.splits incoming.splits)

lemma left_behind_run:
  "worker_inv cfg w \<Longrightarrow> left_behind j w \<Longrightarrow>
     filter (\<lambda>x. fst x = j) (rw_answers (raw_runner2 cfg evs w)) = filter (\<lambda>x. fst x = j) (rw_answers w)"
proof (induction evs arbitrary: w)
  case (Cons ev evs)
  then show ?case using left_behind_step [of cfg w j ev] worker_step_inv [of cfg w ev] by (simp add: raw_runner2_def)
qed (simp add: raw_runner2_def)


subsection \<open>Properties\<close>


text \<open>Two jobs: the first returns, the second raises an exception that cannot be pickled.\<close>

definition two_jobs :: "raw_event list" where
  "two_jobs = [Re_main 0, Re_recv (In_job None), Re_call (Call_returns 7), Re_main 0, Re_main 9, Re_recv (In_job (Some 3)), Re_call (Call_raises 8),
     Re_main 0, Re_main 9]"

definition open_pipe :: raw_config where
  "open_pipe = \<lparr>rc_pickles = (\<lambda>_. False), rc_sends = (\<lambda>_. True), rc_mem_clear_threshold = Some 5\<rparr>"


text \<open>
  (C19) The outcome of a remote job.  With the pickle serializer no payload exceeds the result limit of the request,
  whatever the job returns or raises; the kind is \<open>result\<close> exactly if the function returns and its pickle is
  complete and within the limit, \<open>result_too_large\<close> exactly if it returns and the pickle exceeds the limit,
  \<open>task_error\<close> exactly if it raises (or the invocation cannot be loaded or is unknown); and the payload of a result
  is the whole pickle.
\<close>

theorem execute_opaque_classifies:
  assumes "0 \<le> limit"
  shows "let ended = materialize ap mode invocation operation registry;
             out = execute_opaque ap (pickle_dumps pickle) mode invocation operation registry limit
     in int (length (wo_payload out)) \<le> limit \<and>
        (wo_kind out = ''task_error'' \<longleftrightarrow> (\<exists>e. ended = Inl e)) \<and>
        (\<forall>v. ended = Inr v \<longrightarrow>
           wo_kind out =
             (if int (length (concat (fst (pickle v)))) > limit then ''result_too_large''
              else if snd (pickle v) \<noteq> None then ''result_encoding_failed'' else ''result'') \<and>
           wo_payload out = (if wo_kind out = ''result'' then concat (fst (pickle v)) else []))"
  using assms pk.outcome_bounded [OF assms, of ap pickle mode invocation operation registry]
  by (cases "materialize ap mode invocation operation registry")
    (auto simp: Let_def execute_opaque_def pickle_dumps_spec split: option.split)

definition small_application :: application where
  "small_application =
     \<lparr>ap_loads3 = (\<lambda>_. Inr (1, 2, 3)), ap_loads2 = (\<lambda>_. Inl 9), ap_call = (\<lambda>_ _ _. Inr 5), ap_unknown_operation = (\<lambda>_. 7),
      ap_unknown_mode = (\<lambda>_. 8), ap_repr = (\<lambda>_. Some []), ap_module = (\<lambda>_. []), ap_qualname = (\<lambda>_. []), ap_traceback = (\<lambda>_. []), ap_error_object = (\<lambda>_. 6)\<rparr>"

theorem execute_opaque_classifies_witness:
  "wo_kind (execute_opaque small_application (pickle_dumps (\<lambda>v. ([[1, 2], [3]], None))) (lit ''callable'') [] None None 2) = ''result_too_large'' \<and>
   wo_payload (execute_opaque small_application (pickle_dumps (\<lambda>v. ([[1, 2], [3]], None))) (lit ''callable'') [] None None 3) = [1, 2, 3]"
proof -
  have "materialize small_application (lit ''callable'') [] None None = Inr 5" by code_simp
  then show ?thesis
    using execute_opaque_classifies [where limit = 2 and ap = small_application and pickle = "\<lambda>v. ([[1, 2], [3]], None)"
        and mode = "lit ''callable''" and invocation = "[]" and operation = None and registry = None]
      execute_opaque_classifies [where limit = 3 and ap = small_application and pickle = "\<lambda>v. ([[1, 2], [3]], None)"
        and mode = "lit ''callable''" and invocation = "[]" and operation = None and registry = None]
    by (simp add: Let_def)
qed

text \<open>
  A late timer poisons the pipe.  The timer of a job is cancelled only after its result is sent; when it fires
  in between, the pipe holds a timeout for a job already answered, and until the process is dead it can
  receive the next job, whose future gets that timeout.
\<close>

theorem late_timer_answers_twice:
  "let w = raw_runner2 \<lparr>rc_pickles = (\<lambda>_. True), rc_sends = (\<lambda>_. True), rc_mem_clear_threshold = None\<rparr>
     [Re_main 0, Re_recv (In_job (Some 1)), Re_call (Call_returns v), Re_main 0, Re_timer, Re_main 0, Re_recv (In_job None), Re_timed_out 0] raw_start
   in rw_answers w = [(0, A_result v), (0, A_timeout)] \<and> rw_phase w = W_call \<and> rw_jobs w = 2"
  by (simp add: raw_runner2_def raw_step_def raw_start_def raw_recv_def raw_call_def raw_finally_def conn_send_safe_def timer_fires_def timed_out_def
      timer_wanted_def Let_def)

text \<open>The worker after a job without timeout whose result cannot be sent.\<close>

lemma unsent_result:
  assumes "\<not> rc_sends cfg (A_result v)" and "rw_phase w = W_wait" and "worker_inv cfg w"
    and "w' = raw_runner2 cfg [Re_recv (In_job None), Re_call (Call_returns v), Re_main rss, Re_main rss] w"
  shows "rw_phase w' = W_wait" "rw_answers w' = rw_answers w" "left_behind (rw_jobs w) w'" "worker_inv cfg w'"
    "filter (\<lambda>x. fst x = rw_jobs w) (rw_answers w') = []"
proof -
  have eq: "w' = raw_finally cfg rss (w\<lparr>rw_jobs := Suc (rw_jobs w), rw_timer := False, rw_phase := W_finally,
      rw_unsent := rw_unsent w @ [(rw_jobs w, A_result v)]\<rparr>)"
    using assms(1,2,4) by (simp add: raw_runner2_def raw_step_def raw_recv_def raw_call_def conn_send_safe_def timer_wanted_def)
  then show "rw_phase w' = W_wait" "rw_answers w' = rw_answers w" "left_behind (rw_jobs w) w'"
    using assms(3) by (auto simp: raw_finally_def left_behind_def in_call_def worker_inv_def)
  show "worker_inv cfg w'" unfolding assms(4) by (rule worker_run_inv) (rule assms(3))
  show "filter (\<lambda>x. fst x = rw_jobs w) (rw_answers w') = []"
    using assms(3) eq by (auto simp: raw_finally_def worker_inv_def filter_empty_conv)
qed

end
