(* ===== verification/Transport.thy ===== *)
theory Transport
  imports Config "HOL-Library.Code_Target_Nat"
begin

unbundle bit_operations_syntax

text \<open>
  The life of a Unix listener (\<open>remote/_transport.py\<close>): \<open>_bind_unix\<close>, \<open>_validate_unix_directory\<close>,
  \<open>_unix_socket_is_live\<close>, \<open>_unlink_if_identity\<close> and \<open>BoundListener.close\<close>, one step per system call, with other processes changing
  the file system in between.
\<close>

subsection \<open>The file system\<close>

text \<open>
  The listener looks at two pathnames, its own and that of the directory.  \<open>ho_uid\<close> and \<open>ho_gid\<close> are the ids of the
  process, which own what it creates.
\<close>

datatype node_kind = N_directory | N_socket | N_symlink | N_other

type_synonym identity = "int \<times> int"

record node =
  nd_identity :: identity
  nd_kind :: node_kind
  nd_mode :: int
  nd_uid :: int
  nd_gid :: int

record host =
  ho_path :: "node option"
  ho_directory :: "node option"
  ho_live :: "identity list"
  ho_uid :: int
  ho_gid :: int

datatype probe = Pr_connected | Pr_refused | Pr_missing | Pr_timeout | Pr_error

datatype bind_error =
    Not_a_directory | Writable_directory | Foreign_directory | Unexpected_path | Path_exists | Socket_is_live | Address_in_use
  | System_error

datatype bind_phase =
    B_mkdir
  | B_directory
  | B_exists
  | B_info
  | B_probe identity
  | B_probe_again identity
  | B_current identity
  | B_unlink identity
  | B_bind
  | B_bound
  | B_chown identity
  | B_chmod identity
  | B_listen identity
  | B_ready identity
  | B_cleanup identity bind_error
  | B_cleanup_unlink identity bind_error
  | B_failed bind_error
  | B_close identity
  | B_close_unlink identity
  | B_closed
  | B_close_raised

text \<open>
  What the code does not keep: \<open>bi_own\<close> is the identity of the socket the process has bound, \<open>bi_first\<close> that of the socket
  at the pathname when it was first looked at, \<open>bi_unanswered\<close> the number of probes of the pathname that nobody answered, \<open>bi_adopted\<close>
  the identity the \<open>lstat\<close> after the bind has found, and \<open>bi_removed\<close> the nodes the process has unlinked.
\<close>

record listener =
  bi_host :: host
  bi_phase :: bind_phase
  bi_own :: "identity option"
  bi_first :: "identity option"
  bi_unanswered :: nat
  bi_adopted :: "identity option"
  bi_removed :: "node list"

text \<open>What the kernel answers to a system call: success, an error other than a missing file, the inode of a new node, a probe.\<close>

datatype kernel = K_ok | K_fails | K_inode identity | K_probe probe

definition int_value :: "pyval \<Rightarrow> int" where
  "int_value v = (case v of VInt i \<Rightarrow> i | _ \<Rightarrow> - 1)"

definition at_phase :: "bind_phase \<Rightarrow> listener \<Rightarrow> listener" where
  "at_phase ph s = s\<lparr>bi_phase := ph\<rparr>"

definition set_path :: "node option \<Rightarrow> listener \<Rightarrow> listener" where
  "set_path n s = s\<lparr>bi_host := (bi_host s)\<lparr>ho_path := n\<rparr>\<rparr>"

definition validate_unix_directory :: "host \<Rightarrow> bind_error option" where
  "validate_unix_directory h =
     (case ho_directory h of
        None \<Rightarrow> Some System_error
      | Some info \<Rightarrow>
          if nd_kind info \<noteq> N_directory then Some Not_a_directory
          else if nd_mode info AND 18 \<noteq> 0 then Some Writable_directory
          else if nd_uid info \<noteq> 0 \<and> nd_uid info \<noteq> ho_uid h then Some Foreign_directory
          else None)"

text \<open>\<open>None\<close> when the probe raises.\<close>

definition unix_socket_is_live :: "probe \<Rightarrow> bool option" where
  "unix_socket_is_live p =
     (case p of Pr_connected \<Rightarrow> Some True | Pr_error \<Rightarrow> None | _ \<Rightarrow> Some False)"

text \<open>\<open>path.unlink()\<close>, which raises when there is nothing to remove.\<close>

definition unlink_path :: "bind_phase \<Rightarrow> bind_phase \<Rightarrow> listener \<Rightarrow> listener" where
  "unlink_path removed missing s =
     (case ho_path (bi_host s) of
        None \<Rightarrow> at_phase missing s
      | Some n \<Rightarrow> at_phase removed (set_path None (s\<lparr>bi_removed := n # bi_removed s\<rparr>)))"

definition probe_step :: "bind_error \<Rightarrow> bind_phase \<Rightarrow> kernel \<Rightarrow> listener \<Rightarrow> listener" where
  "probe_step live_error next answer s =
     (case answer of
        K_probe p \<Rightarrow>
          (case unix_socket_is_live p of
             None \<Rightarrow> at_phase (B_failed System_error) s
           | Some True \<Rightarrow> at_phase (B_failed live_error) s
           | Some False \<Rightarrow> at_phase next (s\<lparr>bi_unanswered := Suc (bi_unanswered s)\<rparr>))
      | _ \<Rightarrow> s)"

text \<open>\<open>os.chmod\<close> and \<open>os.chown\<close>: the kernel may refuse, and there may be nothing at the pathname.\<close>

definition change_node :: "(node \<Rightarrow> node) \<Rightarrow> identity \<Rightarrow> bind_phase \<Rightarrow> kernel \<Rightarrow> listener \<Rightarrow> listener" where
  "change_node g i next answer s =
     (case ho_path (bi_host s) of
        Some n \<Rightarrow>
          if answer = K_ok then at_phase next (set_path (Some (g n)) s) else at_phase (B_cleanup i System_error) s
      | None \<Rightarrow> at_phase (B_cleanup i System_error) s)"

definition chown_node :: "unix_listener \<Rightarrow> node \<Rightarrow> node" where
  "chown_node cfg n =
     n\<lparr>nd_uid := (if ul_owner_uid cfg = VNone then nd_uid n else int_value (ul_owner_uid cfg)),
       nd_gid := (if ul_owner_gid cfg = VNone then nd_gid n else int_value (ul_owner_gid cfg))\<rparr>"

text \<open>The socket is created under the mask \<open>0o077\<close>, so its mode is \<open>0o700\<close>.\<close>

definition bind_socket :: "kernel \<Rightarrow> listener \<Rightarrow> listener" where
  "bind_socket answer s =
     (case answer of
        K_inode i \<Rightarrow>
          (case ho_path (bi_host s) of
             Some _ \<Rightarrow> at_phase (B_failed Address_in_use) s
           | None \<Rightarrow>
               at_phase B_bound (set_path (Some \<lparr>nd_identity = i, nd_kind = N_socket, nd_mode = 511 AND NOT 63,
                 nd_uid = ho_uid (bi_host s), nd_gid = ho_gid (bi_host s)\<rparr>) (s\<lparr>bi_own := Some i\<rparr>)))
      | K_fails \<Rightarrow> at_phase (B_failed System_error) s
      | _ \<Rightarrow> s)"

definition make_directory :: "kernel \<Rightarrow> listener \<Rightarrow> listener" where
  "make_directory answer s =
     (case ho_directory (bi_host s) of
        Some n \<Rightarrow> if nd_kind n = N_other \<or> nd_kind n = N_socket then at_phase (B_failed System_error) s else at_phase B_directory s
      | None \<Rightarrow>
          (case answer of
             K_inode i \<Rightarrow> at_phase B_directory (s\<lparr>bi_host := (bi_host s)\<lparr>ho_directory :=
                Some \<lparr>nd_identity = i, nd_kind = N_directory, nd_mode = 448, nd_uid = ho_uid (bi_host s), nd_gid = ho_gid (bi_host s)\<rparr>\<rparr>\<rparr>)
           | K_fails \<Rightarrow> at_phase (B_failed System_error) s
           | _ \<Rightarrow> s))"

text \<open>The first look at an existing pathname.\<close>

definition inspect_path :: "unix_listener \<Rightarrow> listener \<Rightarrow> listener" where
  "inspect_path cfg s =
     (case ho_path (bi_host s) of
        None \<Rightarrow> at_phase (B_failed System_error) s
      | Some info \<Rightarrow>
          if nd_kind info \<noteq> N_socket then at_phase (B_failed Unexpected_path) s
          else if ul_stale_policy cfg \<noteq> lit ''force_unlink'' then at_phase (B_failed Path_exists) s
          else at_phase (B_probe (nd_identity info)) (s\<lparr>bi_first := Some (nd_identity info), bi_unanswered := 0\<rparr>))"

text \<open>\<open>_unlink_if_identity\<close> with the \<open>lstat\<close> before it; the removal is a step of its own.\<close>

definition look_again :: "identity \<Rightarrow> bind_phase \<Rightarrow> bind_phase \<Rightarrow> bind_phase \<Rightarrow> listener \<Rightarrow> listener" where
  "look_again i missing same other s =
     at_phase (case ho_path (bi_host s) of None \<Rightarrow> missing | Some n \<Rightarrow> if nd_identity n = i then same else other) s"

text \<open>Where the exception of a failing system call leads.\<close>

definition raised :: "bind_phase \<Rightarrow> bind_phase" where
  "raised ph =
     (case ph of
        B_chown i \<Rightarrow> B_cleanup i System_error
      | B_chmod i \<Rightarrow> B_cleanup i System_error
      | B_listen i \<Rightarrow> B_cleanup i System_error
      | B_close i \<Rightarrow> B_close_raised
      | B_close_unlink i \<Rightarrow> B_close_raised
      | B_ready i \<Rightarrow> B_ready i
      | B_closed \<Rightarrow> B_closed
      | B_close_raised \<Rightarrow> B_close_raised
      | B_failed e \<Rightarrow> B_failed e
      | _ \<Rightarrow> B_failed System_error)"

definition bind_step :: "unix_listener \<Rightarrow> kernel \<Rightarrow> listener \<Rightarrow> listener" where
  "bind_step cfg answer s =
     (if answer = K_fails then at_phase (raised (bi_phase s)) s
      else case bi_phase s of
        B_mkdir \<Rightarrow> make_directory answer s
      | B_directory \<Rightarrow>
          at_phase (case validate_unix_directory (bi_host s) of None \<Rightarrow> B_exists | Some e \<Rightarrow> B_failed e) s
      | B_exists \<Rightarrow> at_phase (if ho_path (bi_host s) = None then B_bind else B_info) s
      | B_info \<Rightarrow> inspect_path cfg s
      | B_probe i \<Rightarrow> probe_step Socket_is_live (B_probe_again i) answer s
      | B_probe_again i \<Rightarrow> probe_step Address_in_use (B_current i) answer s
      | B_current i \<Rightarrow> look_again i B_bind (B_unlink i) (B_failed Address_in_use) s
      | B_unlink i \<Rightarrow> unlink_path B_bind (B_failed System_error) s
      | B_bind \<Rightarrow> bind_socket answer s
      | B_bound \<Rightarrow>
          (case ho_path (bi_host s) of
             None \<Rightarrow> at_phase (B_failed System_error) s
           | Some n \<Rightarrow> at_phase (if ul_owner_uid cfg \<noteq> VNone \<or> ul_owner_gid cfg \<noteq> VNone then B_chown (nd_identity n)
                                else B_chmod (nd_identity n)) (s\<lparr>bi_adopted := Some (nd_identity n)\<rparr>))
      | B_chown i \<Rightarrow> change_node (chown_node cfg) i (B_chmod i) answer s
      | B_chmod i \<Rightarrow> change_node (\<lambda>n. n\<lparr>nd_mode := int_value (ul_mode cfg)\<rparr>) i (B_listen i) answer s
      | B_listen i \<Rightarrow>
          if answer = K_ok
          then at_phase (B_ready i) (s\<lparr>bi_host := (bi_host s)\<lparr>ho_live := (case bi_own s of None \<Rightarrow> [] | Some own \<Rightarrow> [own]) @ ho_live (bi_host s)\<rparr>\<rparr>)
          else at_phase (B_cleanup i System_error) s
      | B_cleanup i e \<Rightarrow> look_again i (B_failed e) (B_cleanup_unlink i e) (B_failed e) s
      | B_cleanup_unlink i e \<Rightarrow> unlink_path (B_failed e) (B_failed System_error) s
      | B_close i \<Rightarrow> look_again i B_closed (B_close_unlink i) B_closed s
      | B_close_unlink i \<Rightarrow> unlink_path B_closed B_close_raised s
      | _ \<Rightarrow> s)"

text \<open>\<open>BoundListener.close\<close> up to its \<open>lstat\<close>: the socket no longer answers.\<close>

definition close_listener :: "listener \<Rightarrow> listener" where
  "close_listener s =
     (case bi_phase s of
        B_ready i \<Rightarrow>
          at_phase (B_close i) (s\<lparr>bi_host := (bi_host s)\<lparr>ho_live := filter (\<lambda>x. Some x \<noteq> bi_own s) (ho_live (bi_host s))\<rparr>\<rparr>)
      | _ \<Rightarrow> s)"

text \<open>Other processes replace or remove what is at the pathnames, and start and stop listening.\<close>

datatype listener_event = Le_step kernel | Le_close | Le_others "node option" "node option" "identity list"

definition listener_step :: "unix_listener \<Rightarrow> listener_event \<Rightarrow> listener \<Rightarrow> listener" where
  "listener_step cfg ev s =
     (case ev of
        Le_step answer \<Rightarrow> bind_step cfg answer s
      | Le_close \<Rightarrow> close_listener s
      | Le_others n d live \<Rightarrow> s\<lparr>bi_host := (bi_host s)\<lparr>ho_path := n, ho_directory := d, ho_live := live\<rparr>\<rparr>)"

definition listener_run :: "unix_listener \<Rightarrow> listener_event list \<Rightarrow> listener \<Rightarrow> listener" where
  "listener_run cfg evs s = fold (listener_step cfg) evs s"

definition bind_unix :: "host \<Rightarrow> listener" where
  "bind_unix h = \<lparr>bi_host = h, bi_phase = B_mkdir, bi_own = None, bi_first = None, bi_unanswered = 0, bi_adopted = None, bi_removed = []\<rparr>"

subsection \<open>What a listener removes\<close>

text \<open>
  Other processes may replace the pathname at any moment.  In two kinds of window the code cannot notice it: between the
  \<open>lstat\<close> that has found an identity and the \<open>unlink\<close>, which the code documents as unavoidable, and between the bind
  and the \<open>lstat\<close> that is to find the identity of the new socket.
\<close>

definition unlink_window :: "bind_phase \<Rightarrow> bool" where
  "unlink_window ph \<longleftrightarrow> (case ph of B_unlink _ \<Rightarrow> True | B_cleanup_unlink _ _ \<Rightarrow> True | B_close_unlink _ \<Rightarrow> True | _ \<Rightarrow> False)"

definition bind_window :: "bind_phase \<Rightarrow> bool" where
  "bind_window ph \<longleftrightarrow> ph = B_bound"

text \<open>No other process acts while the listener is in a phase of the given kind.\<close>

fun undisturbed :: "(bind_phase \<Rightarrow> bool) \<Rightarrow> unix_listener \<Rightarrow> listener_event list \<Rightarrow> listener \<Rightarrow> bool" where
  "undisturbed W cfg [] s = True"
| "undisturbed W cfg (ev # evs) s =
     ((case ev of Le_others _ _ _ \<Rightarrow> \<not> W (bi_phase s) | _ \<Rightarrow> True) \<and> undisturbed W cfg evs (listener_step cfg ev s))"

definition path_is :: "identity \<Rightarrow> listener \<Rightarrow> bool" where
  "path_is i s \<longleftrightarrow> (\<exists>n. ho_path (bi_host s) = Some n \<and> nd_identity n = i)"

text \<open>
  The socket at the pathname when it was first looked at, after two probes of the pathname have found nobody, and only under the
  policy \<open>force_unlink\<close>.
\<close>

definition stale :: "unix_listener \<Rightarrow> listener \<Rightarrow> identity \<Rightarrow> bool" where
  "stale cfg s i \<longleftrightarrow> ul_stale_policy cfg = lit ''force_unlink'' \<and> bi_first s = Some i \<and> bi_unanswered s = 2"

definition early :: "listener \<Rightarrow> bool" where
  "early s \<longleftrightarrow> bi_adopted s = None \<and> bi_own s = None"

definition listener_inv :: "unix_listener \<Rightarrow> listener \<Rightarrow> bool" where
  "listener_inv cfg s \<longleftrightarrow>
     (\<forall>n \<in> set (bi_removed s). stale cfg s (nd_identity n) \<or> bi_adopted s = Some (nd_identity n)) \<and>
     (case bi_phase s of
        B_mkdir \<Rightarrow> early s \<and> bi_removed s = []
      | B_directory \<Rightarrow> early s \<and> bi_removed s = []
      | B_exists \<Rightarrow> early s \<and> bi_removed s = []
      | B_info \<Rightarrow> early s \<and> bi_removed s = []
      | B_probe i \<Rightarrow> early s \<and> bi_removed s = [] \<and> ul_stale_policy cfg = lit ''force_unlink'' \<and> bi_first s = Some i \<and> bi_unanswered s = 0
      | B_probe_again i \<Rightarrow> early s \<and> bi_removed s = [] \<and> ul_stale_policy cfg = lit ''force_unlink'' \<and> bi_first s = Some i \<and> bi_unanswered s = 1
      | B_current i \<Rightarrow> early s \<and> stale cfg s i
      | B_unlink i \<Rightarrow> early s \<and> stale cfg s i \<and> path_is i s
      | B_bind \<Rightarrow> early s
      | B_bound \<Rightarrow> bi_adopted s = None
      | B_chown i \<Rightarrow> bi_adopted s = Some i
      | B_chmod i \<Rightarrow> bi_adopted s = Some i
      | B_listen i \<Rightarrow> bi_adopted s = Some i
      | B_ready i \<Rightarrow> bi_adopted s = Some i
      | B_cleanup i e \<Rightarrow> bi_adopted s = Some i
      | B_cleanup_unlink i e \<Rightarrow> bi_adopted s = Some i \<and> path_is i s
      | B_close i \<Rightarrow> bi_adopted s = Some i
      | B_close_unlink i \<Rightarrow> bi_adopted s = Some i \<and> path_is i s
      | _ \<Rightarrow> True)"

definition adopted_inv :: "listener \<Rightarrow> bool" where
  "adopted_inv s \<longleftrightarrow>
     (bi_phase s = B_bound \<longrightarrow> (\<exists>i. bi_own s = Some i \<and> path_is i s)) \<and> (bi_adopted s = None \<or> bi_adopted s = bi_own s)"

lemmas bind_defs = bind_step_def raised_def at_phase_def make_directory_def inspect_path_def probe_step_def look_again_def
  unlink_path_def bind_socket_def change_node_def set_path_def

lemma bind_step_inv:
  assumes "listener_inv cfg s"
  shows "listener_inv cfg (bind_step cfg answer s)"
  using assms
  by (cases "bi_phase s")
    (auto simp: bind_defs listener_inv_def stale_def early_def path_is_def split: option.splits kernel.splits bool.splits)

lemma bind_step_adopted:
  assumes "listener_inv cfg s" and "adopted_inv s"
  shows "adopted_inv (bind_step cfg answer s)"
  using assms
  by (cases "bi_phase s")
    (auto simp: bind_defs listener_inv_def adopted_inv_def early_def path_is_def split: option.splits kernel.splits bool.splits)

lemma close_listener_inv:
  "listener_inv cfg s \<Longrightarrow> listener_inv cfg (close_listener s)" "adopted_inv s \<Longrightarrow> adopted_inv (close_listener s)"
  by (auto simp: close_listener_def listener_inv_def adopted_inv_def at_phase_def stale_def split: bind_phase.split)

lemma others_inv:
  "listener_inv cfg s \<Longrightarrow> \<not> unlink_window (bi_phase s) \<Longrightarrow> listener_inv cfg (s\<lparr>bi_host := h\<rparr>)"
  "adopted_inv s \<Longrightarrow> \<not> bind_window (bi_phase s) \<Longrightarrow> adopted_inv (s\<lparr>bi_host := h\<rparr>)"
  by (auto simp: listener_inv_def adopted_inv_def unlink_window_def bind_window_def stale_def early_def split: bind_phase.splits)

lemma listener_run_inv:
  "undisturbed unlink_window cfg evs s \<Longrightarrow> listener_inv cfg s \<Longrightarrow> listener_inv cfg (listener_run cfg evs s)"
proof (induction evs arbitrary: s)
  case (Cons ev evs)
  have "listener_inv cfg (listener_step cfg ev s)"
    using Cons.prems bind_step_inv close_listener_inv(1) others_inv(1) by (cases ev) (simp_all add: listener_step_def)
  then show ?case using Cons by (simp add: listener_run_def)
qed (simp add: listener_run_def)

lemma adopted_run:
  "undisturbed unlink_window cfg evs s \<Longrightarrow> undisturbed bind_window cfg evs s \<Longrightarrow> listener_inv cfg s \<Longrightarrow> adopted_inv s \<Longrightarrow>
   adopted_inv (listener_run cfg evs s)"
proof (induction evs arbitrary: s)
  case (Cons ev evs)
  have "listener_inv cfg (listener_step cfg ev s)"
    using Cons.prems bind_step_inv close_listener_inv(1) others_inv(1) by (cases ev) (simp_all add: listener_step_def)
  moreover have "adopted_inv (listener_step cfg ev s)"
    using Cons.prems bind_step_adopted close_listener_inv(2) others_inv(2) by (cases ev) (simp_all add: listener_step_def)
  ultimately show ?case using Cons by (simp add: listener_run_def)
qed (simp add: listener_run_def)

lemma bind_unix_inv [simp]: "listener_inv cfg (bind_unix h)" "adopted_inv (bind_unix h)"
  by (simp_all add: bind_unix_def listener_inv_def adopted_inv_def early_def)

subsection \<open>Binding undisturbed\<close>

text \<open>The answers of a kernel that refuses nothing; the probe is answered by whoever listens at the pathname.\<close>

definition calm_answer :: "identity \<Rightarrow> listener \<Rightarrow> kernel" where
  "calm_answer i s =
     (case bi_phase s of
        B_mkdir \<Rightarrow> K_inode i
      | B_bind \<Rightarrow> K_inode i
      | B_probe _ \<Rightarrow> K_probe (case ho_path (bi_host s) of None \<Rightarrow> Pr_missing
                               | Some n \<Rightarrow> if nd_identity n \<in> set (ho_live (bi_host s)) then Pr_connected else Pr_refused)
      | B_probe_again _ \<Rightarrow> K_probe (case ho_path (bi_host s) of None \<Rightarrow> Pr_missing
                               | Some n \<Rightarrow> if nd_identity n \<in> set (ho_live (bi_host s)) then Pr_connected else Pr_refused)
      | _ \<Rightarrow> K_ok)"

lemma calm_never_fails [simp]: "calm_answer i s \<noteq> K_fails"
  by (simp add: calm_answer_def split: bind_phase.split)

fun calm_run :: "unix_listener \<Rightarrow> identity \<Rightarrow> nat \<Rightarrow> listener \<Rightarrow> listener" where
  "calm_run cfg i 0 s = s"
| "calm_run cfg i (Suc n) s = calm_run cfg i n (bind_step cfg (calm_answer i s) s)"

lemma calm_settled: "bi_phase s = B_failed e \<or> bi_phase s = B_ready j \<Longrightarrow> calm_run cfg i n s = s"
  by (induction n) (auto simp: bind_step_def)

definition ready_host :: "unix_listener \<Rightarrow> identity \<Rightarrow> host \<Rightarrow> host" where
  "ready_host cfg i h =
     h\<lparr>ho_path := Some (chown_node cfg \<lparr>nd_identity = i, nd_kind = N_socket, nd_mode = int_value (ul_mode cfg), nd_uid = ho_uid h, nd_gid = ho_gid h\<rparr>),
       ho_live := i # ho_live h\<rparr>"

lemma calm_bind:
  assumes "bi_phase s = B_bind" and "ho_path (bi_host s) = None"
  shows "bi_phase (calm_run cfg i 5 s) = B_ready i \<and> bi_host (calm_run cfg i 5 s) = ready_host cfg i (bi_host s)"
proof (cases "ul_owner_uid cfg \<noteq> VNone \<or> ul_owner_gid cfg \<noteq> VNone")
  case True
  then show ?thesis
    using assms by (simp add: numeral_eq_Suc calm_answer_def bind_step_def bind_socket_def at_phase_def set_path_def change_node_def
        chown_node_def ready_host_def)
next
  case False
  then show ?thesis
    using assms by (simp add: numeral_eq_Suc calm_answer_def bind_step_def bind_socket_def at_phase_def set_path_def change_node_def
        chown_node_def ready_host_def)
qed


lemma calm_add: "calm_run cfg i (m + n) s = calm_run cfg i n (calm_run cfg i m s)"
  by (induction m arbitrary: s) simp_all

text \<open>The steps from the first look at the pathname to the bind.\<close>

lemma calm_inspect:
  assumes "ho_directory h \<noteq> None" and "validate_unix_directory h = None"
  shows "bi_host (calm_run cfg i 3 (bind_unix h)) = h \<and>
    bi_phase (calm_run cfg i 3 (bind_unix h)) = (if ho_path h = None then B_bind else B_info)"
proof -
  obtain d where d: "ho_directory h = Some d" "nd_kind d = N_directory"
    using assms by (auto simp: validate_unix_directory_def split: if_splits)
  then show ?thesis
    using assms(2)
    by (simp add: numeral_eq_Suc bind_unix_def bind_step_def calm_answer_def make_directory_def at_phase_def)
qed

lemma calm_Suc: "0 < n \<Longrightarrow> calm_run cfg i n s = calm_run cfg i (n - 1) (bind_step cfg (calm_answer i s) s)"
  by (cases n) simp_all

lemma calm_stale:
  assumes s: "bi_phase s = B_info" "ho_path (bi_host s) = Some n"
  shows "nd_kind n \<noteq> N_socket \<Longrightarrow> calm_run cfg i 5 s = at_phase (B_failed Unexpected_path) s"
    and "nd_kind n = N_socket \<Longrightarrow> ul_stale_policy cfg \<noteq> lit ''force_unlink'' \<Longrightarrow> calm_run cfg i 5 s = at_phase (B_failed Path_exists) s"
    and "nd_kind n = N_socket \<Longrightarrow> ul_stale_policy cfg = lit ''force_unlink'' \<Longrightarrow> nd_identity n \<in> set (ho_live (bi_host s)) \<Longrightarrow>
      bi_phase (calm_run cfg i 5 s) = B_failed Socket_is_live \<and> bi_host (calm_run cfg i 5 s) = bi_host s"
    and "nd_kind n = N_socket \<Longrightarrow> ul_stale_policy cfg = lit ''force_unlink'' \<Longrightarrow> nd_identity n \<notin> set (ho_live (bi_host s)) \<Longrightarrow>
      bi_phase (calm_run cfg i 5 s) = B_bind \<and> bi_host (calm_run cfg i 5 s) = (bi_host s)\<lparr>ho_path := None\<rparr>"
proof -
  have first: "bind_step cfg (calm_answer i s) s = inspect_path cfg s" using s by (simp add: bind_step_def)
  have settled: "calm_run cfg i k (at_phase (B_failed e) t) = at_phase (B_failed e) t" for k e t
    by (rule calm_settled) (simp add: at_phase_def)
  show "calm_run cfg i 5 s = at_phase (B_failed Unexpected_path) s" if "nd_kind n \<noteq> N_socket"
    using that s by (subst calm_Suc) (simp_all add: first inspect_path_def settled)
  show "calm_run cfg i 5 s = at_phase (B_failed Path_exists) s" if "nd_kind n = N_socket" "ul_stale_policy cfg \<noteq> lit ''force_unlink''"
    using that s by (subst calm_Suc) (simp_all add: first inspect_path_def settled)
  assume k: "nd_kind n = N_socket" "ul_stale_policy cfg = lit ''force_unlink''"
  let ?i = "nd_identity n" and ?s = "s\<lparr>bi_first := Some (nd_identity n), bi_unanswered := 0\<rparr>"
  let ?t = "at_phase (B_probe ?i) ?s"
  have t: "calm_run cfg i 5 s = calm_run cfg i 4 ?t" using k s by (subst calm_Suc) (simp_all add: first inspect_path_def)
  show "bi_phase (calm_run cfg i 5 s) = B_failed Socket_is_live \<and> bi_host (calm_run cfg i 5 s) = bi_host s"
    if live: "?i \<in> set (ho_live (bi_host s))"
  proof -
    have "bind_step cfg (calm_answer i ?t) ?t = at_phase (B_failed Socket_is_live) ?s"
      using live s by (simp add: bind_step_def calm_answer_def probe_step_def unix_socket_is_live_def at_phase_def)
    then have "calm_run cfg i 5 s = at_phase (B_failed Socket_is_live) ?s" unfolding t by (subst calm_Suc) (simp_all add: settled)
    then show ?thesis by (simp add: at_phase_def)
  qed
  show "bi_phase (calm_run cfg i 5 s) = B_bind \<and> bi_host (calm_run cfg i 5 s) = (bi_host s)\<lparr>ho_path := None\<rparr>"
    if dead: "?i \<notin> set (ho_live (bi_host s))"
  proof -
    let ?u = "at_phase (B_probe_again ?i) (?s\<lparr>bi_unanswered := 1\<rparr>)" and ?v = "at_phase (B_current ?i) (?s\<lparr>bi_unanswered := 2\<rparr>)"
    have "bind_step cfg (calm_answer i ?t) ?t = ?u"
      using dead s by (simp add: bind_step_def calm_answer_def probe_step_def unix_socket_is_live_def at_phase_def)
    moreover have "bind_step cfg (calm_answer i ?u) ?u = ?v"
      using dead s by (simp add: bind_step_def calm_answer_def probe_step_def unix_socket_is_live_def at_phase_def numeral_2_eq_2)
    moreover have "bind_step cfg (calm_answer i ?v) ?v = at_phase (B_unlink ?i) ?v" (is "_ = ?w")
      using s by (simp add: bind_step_def look_again_def at_phase_def)
    moreover have "bi_phase (bind_step cfg (calm_answer i ?w) ?w) = B_bind \<and>
        bi_host (bind_step cfg (calm_answer i ?w) ?w) = (bi_host s)\<lparr>ho_path := None\<rparr>"
      using s by (simp add: bind_step_def unlink_path_def at_phase_def set_path_def)
    ultimately show ?thesis unfolding t by (simp add: numeral_eq_Suc)
  qed
qed

subsection \<open>Properties\<close>

text \<open>
  (C17) What a listener takes away.  Whatever other processes do to the pathname between its system calls, unless they act between
  a \<open>lstat\<close> that has found an identity and the \<open>unlink\<close> that follows it, every node the listener unlinks while binding, cleaning
  up after a failure or closing either has the identity that the \<open>lstat\<close> after its own bind has found, or is, under the policy
  \<open>force_unlink\<close> only, the socket that was at the pathname at the first look, unlinked after two probes of the pathname have found nobody.
  If moreover nobody acts between the bind and that \<open>lstat\<close>, the identity found there is that of the socket it has bound itself.
\<close>

theorem listener_removes_only_its_own:
  assumes "undisturbed unlink_window cfg evs (bind_unix h)" and "s = listener_run cfg evs (bind_unix h)"
  shows "(\<forall>n \<in> set (bi_removed s).
            (ul_stale_policy cfg = lit ''force_unlink'' \<and> bi_first s = Some (nd_identity n) \<and> bi_unanswered s = 2) \<or>
            bi_adopted s = Some (nd_identity n)) \<and>
         (undisturbed bind_window cfg evs (bind_unix h) \<longrightarrow> bi_adopted s = None \<or> bi_adopted s = bi_own s)"
proof -
  have "listener_inv cfg s" unfolding assms(2) by (rule listener_run_inv [OF assms(1)]) simp
  moreover have "adopted_inv s" if "undisturbed bind_window cfg evs (bind_unix h)"
    unfolding assms(2) by (rule adopted_run [OF assms(1) that]) simp_all
  ultimately show ?thesis by (auto simp: listener_inv_def adopted_inv_def stale_def)
qed

definition example_listener :: unix_listener where
  "example_listener =
     \<lparr>ul_path = lit ''/run/pool'', ul_mode = VInt 384, ul_owner_uid = VNone, ul_owner_gid = VNone, ul_backlog = VInt 8,
      ul_stale_policy = lit ''force_unlink'', ul_optional = False\<rparr>"

definition example_node :: "identity \<Rightarrow> node_kind \<Rightarrow> int \<Rightarrow> node" where
  "example_node i kind mode = \<lparr>nd_identity = i, nd_kind = kind, nd_mode = mode, nd_uid = 7, nd_gid = 7\<rparr>"

definition example_host :: host where
  "example_host =
     \<lparr>ho_path = Some (example_node (1, 5) N_socket 448), ho_directory = Some (example_node (1, 2) N_directory 448), ho_live = [],
      ho_uid = 7, ho_gid = 7\<rparr>"

text \<open>A stale socket is replaced and the new listener closed, after somebody else has taken over the pathname.\<close>

definition takeover_run :: "listener_event list" where
  "takeover_run =
     [Le_step K_ok, Le_step K_ok, Le_step K_ok, Le_step K_ok, Le_step (K_probe Pr_refused), Le_step (K_probe Pr_refused), Le_step K_ok,
      Le_step K_ok, Le_step (K_inode (1, 6)), Le_step K_ok, Le_step K_ok, Le_step K_ok,
      Le_others (Some (example_node (1, 9) N_socket 448)) (ho_directory example_host) [(1, 9)], Le_close, Le_step K_ok, Le_step K_ok]"

lemma takeover_values:
  "(let s = listener_run example_listener takeover_run (bind_unix example_host)
    in (undisturbed unlink_window example_listener takeover_run (bind_unix example_host),
        undisturbed bind_window example_listener takeover_run (bind_unix example_host), map nd_identity (bi_removed s), bi_phase s, bi_own s,
        bi_first s, bi_unanswered s, map_option nd_identity (ho_path (bi_host s)))) =
   (True, True, [(1, 5)], B_closed, Some (1, 6), Some (1, 5), 2, Some (1, 9))"
  by code_simp

theorem listener_removes_only_its_own_witness:
  "let s = listener_run example_listener takeover_run (bind_unix example_host)
   in list_all (\<lambda>n. nd_identity n \<in> {(1, 5), (1, 6)}) (bi_removed s)"
  using listener_removes_only_its_own [of example_listener takeover_run example_host, OF _ refl] takeover_values
  by (auto simp: Let_def list_all_iff)

text \<open>
  In the second window the listener adopts a foreign socket: somebody replaces the pathname between the bind and the \<open>lstat\<close>, the
  listener takes over the identity it finds, changes its mode and, when it is closed, unlinks it.
\<close>

definition adoption_run :: "listener_event list" where
  "adoption_run =
     [Le_step K_ok, Le_step K_ok, Le_step K_ok, Le_step K_ok, Le_step (K_probe Pr_refused), Le_step (K_probe Pr_refused), Le_step K_ok,
      Le_step K_ok, Le_step (K_inode (1, 6)), Le_others (Some (example_node (1, 9) N_socket 448)) (ho_directory example_host) [(1, 9)],
      Le_step K_ok, Le_step K_ok, Le_step K_ok, Le_close, Le_step K_ok, Le_step K_ok]"

lemma adopts_foreign_socket:
  "(let s = listener_run example_listener adoption_run (bind_unix example_host)
    in (undisturbed unlink_window example_listener adoption_run (bind_unix example_host), map nd_identity (bi_removed s), bi_own s, bi_phase s,
        ho_path (bi_host s))) =
   (True, [(1, 9), (1, 5)], Some (1, 6), B_closed, None)"
  by code_simp

text \<open>
  (C18) Binding with nobody interfering.  In a directory that passes the checks, the listener ends ready, with a socket of
  its own at the pathname that has the configured mode and owner and accepts connections, if the pathname was free
  or held a dead socket under the policy \<open>force_unlink\<close>; for a node that is no socket, a socket without that policy,
  or a live socket it fails with the respective error and leaves the file system as it was.
\<close>

theorem bind_unix_outcome:
  assumes "ho_directory h \<noteq> None" and "validate_unix_directory h = None"
  shows "let s = calm_run cfg i 13 (bind_unix h);
             fails = (\<lambda>e. bi_phase s = B_failed e \<and> bi_host s = h);
             ready = (bi_phase s = B_ready i \<and> bi_host s = ready_host cfg i h)
    in case ho_path h of
         None \<Rightarrow> ready
       | Some n \<Rightarrow>
           if nd_kind n \<noteq> N_socket then fails Unexpected_path
           else if ul_stale_policy cfg \<noteq> lit ''force_unlink'' then fails Path_exists
           else if nd_identity n \<in> set (ho_live h) then fails Socket_is_live
           else ready"
proof -
  let ?s = "calm_run cfg i 3 (bind_unix h)"
  note s = calm_inspect [OF assms, of cfg i]
  have long: "calm_run cfg i 13 (bind_unix h) = calm_run cfg i 5 (calm_run cfg i 5 ?s)"
    using calm_add [of cfg i 3 10 "bind_unix h"] calm_add [of cfg i 5 5 ?s] by simp
  show ?thesis
  proof (cases "ho_path h")
    case None
    then show ?thesis
      using s calm_bind [of ?s cfg i] calm_settled [of "calm_run cfg i 5 ?s" _ i cfg i 5] unfolding long by (simp add: Let_def)
  next
    case (Some n)
    then have info: "bi_phase ?s = B_info" "ho_path (bi_host ?s) = Some n" "bi_host ?s = h" using s by simp_all
    note stale = calm_stale [OF info(1,2), of cfg i, unfolded info(3)]
    show ?thesis
    proof (cases "nd_kind n = N_socket \<and> ul_stale_policy cfg = lit ''force_unlink'' \<and> nd_identity n \<notin> set (ho_live h)")
      case True
      then have "bi_phase (calm_run cfg i 5 ?s) = B_bind" "bi_host (calm_run cfg i 5 ?s) = h\<lparr>ho_path := None\<rparr>" using stale(4) by simp_all
      then show ?thesis using calm_bind [of "calm_run cfg i 5 ?s" cfg i] True Some unfolding long by (simp add: Let_def ready_host_def)
    next
      case False
      have settled: "calm_run cfg i 5 (at_phase (B_failed e) t) = at_phase (B_failed e) t" for e t
        by (rule calm_settled) (simp add: at_phase_def)
      have "bi_host (at_phase ph ?s) = h" for ph using info(3) by (simp add: at_phase_def)
      moreover have "calm_run cfg i 5 (calm_run cfg i 5 ?s) = calm_run cfg i 5 ?s"
          if "bi_phase (calm_run cfg i 5 ?s) = B_failed Socket_is_live"
        using calm_settled that by blast
      ultimately show ?thesis using stale(1-3) False Some settled unfolding long by (auto simp: Let_def) (auto simp: at_phase_def)
    qed
  qed
qed

theorem bind_unix_outcome_witness:
  "bi_host (calm_run example_listener (1, 6) 13 (bind_unix example_host)) = ready_host example_listener (1, 6) example_host"
proof -
  have "ho_directory example_host \<noteq> None" "validate_unix_directory example_host = None"
      "ho_path example_host = Some (example_node (1, 5) N_socket 448)" "ho_live example_host = []"
    by code_simp+
  then show ?thesis
    using bind_unix_outcome [of example_host example_listener "(1, 6)"] by (simp add: Let_def example_node_def example_listener_def)
qed

end
