(* ===== verification/Startup.thy ===== *)
theory Startup
  imports Server "HOL-Library.Code_Target_Nat"
begin

text \<open>
  The start of a server (\<open>remote/server.py\<close>): \<open>start\<close>, \<open>serve_forever\<close>, \<open>_initialize\<close>, \<open>_discard_startup_resources\<close> and
  \<open>_close_bound\<close>, with a shutdown at any moment.  The model of the running server takes all of this as one event; here
  every lock region and every call that can fail is a step, and the pool and the listeners are resources that
  must not be left behind.
\<close>

subsection \<open>State\<close>

datatype serve_phase =
    U_none
  | U_enter
  | U_check
  | U_factory
  | U_bind "nat list" "nat list"
  | U_publish "nat list"
  | U_discard "nat list" bool
  | U_cancelled
  | U_failed
  | U_close "nat list"
  | U_settle
  | U_serving
  | U_end
  | U_crashed

text \<open>
  \<open>su_open\<close> are the listeners whose sockets are open, \<open>su_pool_running\<close> says that a pool was made and not shut down, and
  \<open>su_discard_failed\<close> that the shutdown of an unpublished pool has raised; the code keeps none of the three.  Listeners are numbered.
  \<open>U_crashed\<close> is the serving thread killed by an exception of its own handler.
\<close>

record startup =
  su_state :: server_state
  su_ready :: bool
  su_stopped :: bool
  su_error :: bool
  su_thread :: serve_phase
  su_pool :: bool
  su_bound :: "nat list"
  su_open :: "nat list"
  su_pool_running :: bool
  su_discard_failed :: bool

record startup_config =
  sc_listeners :: "nat list"
  sc_optional :: "nat \<Rightarrow> bool"

definition startup_init :: startup where
  "startup_init =
     \<lparr>su_state = CREATED, su_ready = False, su_stopped = False, su_error = False, su_thread = U_none, su_pool = False, su_bound = [],
      su_open = [], su_pool_running = False, su_discard_failed = False\<rparr>"

subsection \<open>Operations\<close>

text \<open>\<open>started\<close> says whether \<open>Thread.start\<close> succeeds; the answer says whether the call raises.\<close>

definition start_server :: "bool \<Rightarrow> startup \<Rightarrow> startup \<times> bool" where
  "start_server started s =
     (if su_thread s \<noteq> U_none then (s, False)
      else if su_state s \<noteq> CREATED then (s, True)
      else if started then (s\<lparr>su_state := STARTING, su_thread := U_enter\<rparr>, False)
      else (s\<lparr>su_state := STOPPED, su_error := True, su_ready := True, su_stopped := True, su_thread := U_end\<rparr>, True))"

text \<open>\<open>serve_forever\<close> called without \<open>start\<close>.\<close>

definition serve_in_foreground :: "startup \<Rightarrow> startup \<times> bool" where
  "serve_in_foreground s =
     (if su_thread s \<noteq> U_none \<or> su_state s \<noteq> CREATED then (s, True)
      else (s\<lparr>su_state := STARTING, su_thread := U_check\<rparr>, False))"

text \<open>The answer of \<open>wait_ready\<close> once the event is set: \<open>None\<close> when it raises the error of the start.\<close>

definition wait_ready :: "startup \<Rightarrow> bool option" where
  "wait_ready s = (if su_error s then None else Some (su_pool s))"

definition bind_next :: "startup_config \<Rightarrow> nat list \<Rightarrow> nat list \<Rightarrow> bool \<Rightarrow> startup \<Rightarrow> startup" where
  "bind_next cfg todo bound ok s =
     (case todo of
        [] \<Rightarrow> s\<lparr>su_thread := (if bound = [] then U_discard [] True else U_publish bound)\<rparr>
      | l # rest \<Rightarrow>
          if ok then s\<lparr>su_thread := U_bind rest (bound @ [l]), su_open := su_open s @ [l]\<rparr>
          else if sc_optional cfg l then s\<lparr>su_thread := U_bind rest bound\<rparr>
          else s\<lparr>su_thread := U_discard bound True\<rparr>)"

text \<open>
  \<open>BoundListener.close\<close> closes its socket in any case; what may raise is the \<open>lstat\<close> or the \<open>unlink\<close> of the pathname after it.
\<close>

definition close_one :: "nat \<Rightarrow> startup \<Rightarrow> startup" where
  "close_one l s = s\<lparr>su_open := removeAll l (su_open s)\<rparr>"

text \<open>
  One step of the serving thread.  \<open>ok\<close> says whether the call of the step returns: the pool factory, the binding of a
  listener, the start of the threads of a published server, the shutdown of an unpublished pool, the closing of a
  listener.  \<open>_discard_startup_resources\<close> logs the exceptions of both; \<open>_close_bound\<close>, in the handler of \<open>serve_forever\<close>, does not catch
  them, so that the thread dies before \<open>ready\<close> is set.
\<close>

definition serve_step :: "startup_config \<Rightarrow> bool \<Rightarrow> startup \<Rightarrow> startup" where
  "serve_step cfg ok s =
     (case su_thread s of
        U_enter \<Rightarrow> s\<lparr>su_thread := U_check\<rparr>
      | U_check \<Rightarrow>
          if su_state s = STARTING then s\<lparr>su_thread := U_factory\<rparr>
          else if su_state s = STOPPING then s\<lparr>su_state := STOPPED, su_ready := True, su_stopped := True, su_thread := U_serving\<rparr>
          else s\<lparr>su_thread := U_serving\<rparr>
      | U_factory \<Rightarrow>
          if ok then s\<lparr>su_pool_running := True, su_thread := U_bind (sc_listeners cfg) []\<rparr> else s\<lparr>su_thread := U_failed\<rparr>
      | U_bind todo bound \<Rightarrow> bind_next cfg todo bound ok s
      | U_publish bound \<Rightarrow>
          if su_state s \<noteq> STARTING then s\<lparr>su_thread := U_discard bound False\<rparr>
          else let s' = s\<lparr>su_pool := True, su_bound := bound, su_state := SRV_RUNNING\<rparr>
               in if ok then s'\<lparr>su_ready := True, su_thread := U_serving\<rparr> else s'\<lparr>su_thread := U_failed\<rparr>
      | U_discard (l # rest) raised \<Rightarrow> (close_one l s)\<lparr>su_thread := U_discard rest raised\<rparr>
      | U_discard [] raised \<Rightarrow>
          (if ok then s\<lparr>su_pool_running := False\<rparr> else s\<lparr>su_discard_failed := True\<rparr>)
            \<lparr>su_thread := (if raised then U_failed else U_cancelled)\<rparr>
      | U_cancelled \<Rightarrow> s\<lparr>su_state := STOPPED, su_ready := True, su_stopped := True, su_thread := U_serving\<rparr>
      | U_failed \<Rightarrow> s\<lparr>su_error := True, su_state := STOPPED, su_thread := U_close (su_bound s)\<rparr>
      | U_close (l # rest) \<Rightarrow> (close_one l s)\<lparr>su_thread := (if ok then U_close rest else U_crashed)\<rparr>
      | U_close [] \<Rightarrow> s\<lparr>su_bound := [], su_thread := U_settle\<rparr>
      | U_settle \<Rightarrow> s\<lparr>su_ready := True, su_stopped := True, su_thread := U_end\<rparr>
      | _ \<Rightarrow> s)"

text \<open>
  The locked part of \<open>shutdown\<close>, as far as the start is concerned: the thread that finishes the shutdown of a published
  server is part of the theory of the running server.
\<close>

definition shutdown_requested :: "startup \<Rightarrow> startup" where
  "shutdown_requested s =
     (case su_state s of
        CREATED \<Rightarrow> s\<lparr>su_state := STOPPED, su_ready := True, su_stopped := True\<rparr>
      | STARTING \<Rightarrow> s\<lparr>su_state := STOPPING\<rparr>
      | SRV_RUNNING \<Rightarrow> s\<lparr>su_state := DRAINING\<rparr>
      | _ \<Rightarrow> s)"

datatype startup_event = Su_start bool | Su_foreground | Su_serve bool | Su_shutdown

definition startup_step :: "startup_config \<Rightarrow> startup_event \<Rightarrow> startup \<Rightarrow> startup" where
  "startup_step cfg ev s =
     (case ev of
        Su_start started \<Rightarrow> fst (start_server started s)
      | Su_foreground \<Rightarrow> fst (serve_in_foreground s)
      | Su_serve ok \<Rightarrow> serve_step cfg ok s
      | Su_shutdown \<Rightarrow> shutdown_requested s)"

definition startup_run :: "startup_config \<Rightarrow> startup_event list \<Rightarrow> startup \<Rightarrow> startup" where
  "startup_run cfg evs s = fold (startup_step cfg) evs s"

subsection \<open>Invariant\<close>

definition unpublished :: "startup \<Rightarrow> bool" where
  "unpublished s \<longleftrightarrow> \<not> su_pool s \<and> su_bound s = [] \<and> su_state s \<in> {STARTING, STOPPING} \<and> \<not> su_ready s \<and> \<not> su_stopped s \<and> \<not> su_error s"

text \<open>What the serving thread leaves behind: a published server, or nothing that is open.\<close>

definition settled_ok :: "startup \<Rightarrow> bool" where
  "settled_ok s \<longleftrightarrow>
     su_ready s \<and>
     (if su_pool s \<and> \<not> su_error s
      then su_state s \<in> {SRV_RUNNING, DRAINING} \<and> su_bound s \<noteq> [] \<and> set (su_open s) = set (su_bound s) \<and> su_pool_running s
      else su_state s = STOPPED \<and> su_stopped s \<and> su_bound s = [] \<and> su_open s = [] \<and> (su_pool_running s \<longrightarrow> su_pool s \<or> su_discard_failed s))"

definition startup_inv :: "startup \<Rightarrow> bool" where
  "startup_inv s \<longleftrightarrow>
     (case su_thread s of
        U_none \<Rightarrow> \<not> su_pool s \<and> su_bound s = [] \<and> su_open s = [] \<and> \<not> su_pool_running s \<and> \<not> su_error s \<and> su_state s \<in> {CREATED, STOPPED} \<and>
                  (su_state s = STOPPED \<longrightarrow> su_ready s \<and> su_stopped s) \<and> (su_state s = CREATED \<longrightarrow> \<not> su_ready s \<and> \<not> su_stopped s)
      | U_enter \<Rightarrow> unpublished s \<and> su_open s = [] \<and> \<not> su_pool_running s
      | U_check \<Rightarrow> unpublished s \<and> su_open s = [] \<and> \<not> su_pool_running s
      | U_factory \<Rightarrow> unpublished s \<and> su_open s = [] \<and> \<not> su_pool_running s
      | U_bind todo bound \<Rightarrow> unpublished s \<and> set (su_open s) = set bound \<and> su_pool_running s
      | U_publish bound \<Rightarrow> unpublished s \<and> set (su_open s) = set bound \<and> su_pool_running s \<and> bound \<noteq> []
      | U_discard bound raised \<Rightarrow> unpublished s \<and> set (su_open s) \<subseteq> set bound \<and> su_pool_running s
      | U_cancelled \<Rightarrow> unpublished s \<and> su_open s = [] \<and> (su_pool_running s \<longrightarrow> su_discard_failed s)
      | U_failed \<Rightarrow> su_state s \<noteq> CREATED \<and> set (su_open s) = set (su_bound s) \<and> (su_pool_running s \<longrightarrow> su_pool s \<or> su_discard_failed s) \<and> \<not> su_ready s
      | U_close rest \<Rightarrow> \<not> su_ready s \<and> set (su_open s) \<subseteq> set rest \<and> su_error s \<and> su_state s = STOPPED \<and> (su_pool_running s \<longrightarrow> su_pool s \<or> su_discard_failed s)
      | U_settle \<Rightarrow> su_open s = [] \<and> su_bound s = [] \<and> su_error s \<and> su_state s = STOPPED \<and> (su_pool_running s \<longrightarrow> su_pool s \<or> su_discard_failed s)
      | U_serving \<Rightarrow> settled_ok s
      | U_end \<Rightarrow> settled_ok s
      | U_crashed \<Rightarrow> \<not> su_ready s \<and> su_state s = STOPPED)"

lemma serve_step_inv: "startup_inv s \<Longrightarrow> startup_inv (serve_step cfg ok s)"
  by (cases "su_thread s")
    (auto simp: startup_inv_def serve_step_def bind_next_def close_one_def unpublished_def settled_ok_def Let_def split: list.splits if_splits)


lemma shutdown_requested_inv: "startup_inv s \<Longrightarrow> startup_inv (shutdown_requested s)"
  by (cases "su_thread s"; cases "su_state s") (auto simp: shutdown_requested_def startup_inv_def unpublished_def settled_ok_def split: if_splits)

lemma start_server_inv: "startup_inv s \<Longrightarrow> startup_inv (fst (start_server started s))"
  by (cases "su_thread s = U_none \<and> su_state s = CREATED")
    (simp_all add: start_server_def, auto simp: startup_inv_def unpublished_def settled_ok_def)

lemma serve_in_foreground_inv: "startup_inv s \<Longrightarrow> startup_inv (fst (serve_in_foreground s))"
  by (cases "su_thread s = U_none \<and> su_state s = CREATED")
    (auto simp: serve_in_foreground_def, auto simp: startup_inv_def unpublished_def settled_ok_def)

lemmas startup_ops_inv = serve_step_inv shutdown_requested_inv start_server_inv serve_in_foreground_inv

lemma startup_step_inv: "startup_inv s \<Longrightarrow> startup_inv (startup_step cfg ev s)"
  by (cases ev) (simp_all add: startup_step_def startup_ops_inv)

interpretation su: stepwise "startup_step cfg" startup_inv for cfg
  by unfold_locales (rule startup_step_inv)

lemma startup_run_inv: "startup_inv s \<Longrightarrow> startup_inv (startup_run cfg evs s)"
  unfolding startup_run_def by (rule su.run_kept)

lemma startup_init_inv [simp]: "startup_inv startup_init"
  by (simp add: startup_inv_def startup_init_def)

lemma startup_run_append: "startup_run cfg (evs @ evs') s = startup_run cfg evs' (startup_run cfg evs s)"
  by (simp add: startup_run_def)

subsection \<open>The number of steps of a start\<close>

definition startup_rank :: "startup_config \<Rightarrow> startup \<Rightarrow> nat" where
  "startup_rank cfg s =
     (case su_thread s of
        U_enter \<Rightarrow> 2 * length (sc_listeners cfg) + length (su_bound s) + 9
      | U_check \<Rightarrow> 2 * length (sc_listeners cfg) + length (su_bound s) + 8
      | U_factory \<Rightarrow> 2 * length (sc_listeners cfg) + length (su_bound s) + 7
      | U_bind todo bound \<Rightarrow> 2 * length todo + length bound + length (su_bound s) + 6
      | U_publish bound \<Rightarrow> length bound + length (su_bound s) + 5
      | U_discard bound raised \<Rightarrow> length bound + length (su_bound s) + 4
      | U_cancelled \<Rightarrow> 1
      | U_failed \<Rightarrow> length (su_bound s) + 3
      | U_close rest \<Rightarrow> length rest + 2
      | U_settle \<Rightarrow> 1
      | _ \<Rightarrow> 0)"

fun is_serve :: "startup_event \<Rightarrow> bool" where
  "is_serve (Su_serve ok) = True"
| "is_serve _ = False"

lemma serve_step_rank: "startup_rank cfg (serve_step cfg ok s) \<le> startup_rank cfg s - 1"
  by (cases "su_thread s") (auto simp: startup_rank_def serve_step_def bind_next_def close_one_def Let_def split: list.splits if_splits)

lemma startup_step_started:
  "su_thread s \<noteq> U_none \<Longrightarrow> su_thread (startup_step cfg ev s) \<noteq> U_none"
  by (cases ev) (auto simp: startup_step_def start_server_def serve_in_foreground_def shutdown_requested_def serve_step_def bind_next_def close_one_def Let_def
      split: serve_phase.splits server_state.splits list.splits)

lemma shutdown_requested_rank [simp]: "startup_rank cfg (shutdown_requested s) = startup_rank cfg s"
  by (cases "su_state s") (auto simp: shutdown_requested_def startup_rank_def split: serve_phase.split)

lemma startup_step_rank:
  "su_thread s \<noteq> U_none \<Longrightarrow> startup_rank cfg (startup_step cfg ev s) \<le> startup_rank cfg s - (if is_serve ev then 1 else 0)"
  using serve_step_rank [of cfg _ s]
  by (cases ev) (auto simp: startup_step_def start_server_def serve_in_foreground_def)

lemma startup_run_rank:
  "su_thread s \<noteq> U_none \<Longrightarrow>
   su_thread (startup_run cfg evs s) \<noteq> U_none \<and>
   startup_rank cfg (startup_run cfg evs s) \<le> startup_rank cfg s - length (filter is_serve evs)"
proof (induction evs arbitrary: s)
  case Nil
  then show ?case by (simp add: startup_run_def)
next
  case (Cons ev evs)
  have "su_thread (startup_step cfg ev s) \<noteq> U_none" by (rule startup_step_started) (rule Cons.prems)
  from Cons.IH [OF this] startup_step_rank [OF Cons.prems, of cfg ev] show ?case
    by (auto simp: startup_run_def split: if_splits)
qed

text \<open>No phase of a reachable state is further from the end than the entry of \<open>serve_forever\<close>.\<close>

definition startup_budget :: "startup_config \<Rightarrow> nat" where
  "startup_budget cfg = 2 * length (sc_listeners cfg) + 9"

definition rank_bounded :: "startup_config \<Rightarrow> startup \<Rightarrow> bool" where
  "rank_bounded cfg s \<longleftrightarrow> (su_thread s = U_none \<longrightarrow> su_bound s = []) \<and> startup_rank cfg s \<le> startup_budget cfg"

lemma startup_step_bounded:
  assumes "rank_bounded cfg s"
  shows "rank_bounded cfg (startup_step cfg ev s)"
proof (cases "su_thread s = U_none")
  case True
  with assms show ?thesis
    by (cases ev) (auto simp: rank_bounded_def startup_budget_def startup_rank_def startup_step_def start_server_def serve_in_foreground_def
        shutdown_requested_def serve_step_def split: server_state.splits)
next
  case False
  with assms startup_step_rank [OF False, of cfg ev] startup_step_started [OF False, of cfg ev] show ?thesis
    by (auto simp: rank_bounded_def split: if_splits)
qed

interpretation ra: stepwise "startup_step cfg" "rank_bounded cfg" for cfg
  by unfold_locales (rule startup_step_bounded)

lemma startup_run_bounded: "rank_bounded cfg s \<Longrightarrow> rank_bounded cfg (startup_run cfg evs s)"
  unfolding startup_run_def by (rule ra.run_kept)

lemma startup_init_bounded [simp]: "rank_bounded cfg startup_init"
  by (simp add: rank_bounded_def startup_rank_def startup_init_def startup_budget_def)

lemma startup_rank_zero:
  "startup_rank cfg s = 0 \<Longrightarrow> su_thread s \<noteq> U_none \<Longrightarrow> su_thread s = U_serving \<or> su_thread s = U_end \<or> su_thread s = U_crashed"
  by (auto simp: startup_rank_def split: serve_phase.splits)

text \<open>The handler of \<open>serve_forever\<close> gets its listeners closed without an exception.\<close>

fun closes_return :: "startup_config \<Rightarrow> startup_event list \<Rightarrow> startup \<Rightarrow> bool" where
  "closes_return cfg [] s = True"
| "closes_return cfg (ev # evs) s =
     ((case ev of Su_serve ok \<Rightarrow> (case su_thread s of U_close rest \<Rightarrow> ok | _ \<Rightarrow> True) | _ \<Rightarrow> True) \<and>
      closes_return cfg evs (startup_step cfg ev s))"

lemma not_crashed_step:
  assumes "closes_return cfg [ev] s" and "su_thread s \<noteq> U_crashed"
  shows "su_thread (startup_step cfg ev s) \<noteq> U_crashed"
  using assms
  by (cases ev; cases "su_thread s"; cases "su_state s")
    (auto simp: startup_step_def start_server_def serve_in_foreground_def shutdown_requested_def serve_step_def bind_next_def close_one_def Let_def
      split: list.splits if_splits)

lemma not_crashed_run:
  "closes_return cfg evs s \<Longrightarrow> su_thread s \<noteq> U_crashed \<Longrightarrow> su_thread (startup_run cfg evs s) \<noteq> U_crashed"
proof (induction evs arbitrary: s)
  case (Cons ev evs)
  then show ?case using not_crashed_step [of cfg ev s] by (simp add: startup_run_def)
qed (simp add: startup_run_def)

lemma settled_after_budget:
  assumes "startup_inv s" "rank_bounded cfg s" "su_thread s \<noteq> U_none" "startup_budget cfg \<le> length (filter is_serve evs)"
    and "su_thread (startup_run cfg evs s) \<noteq> U_crashed"
  shows "settled_ok (startup_run cfg evs s)"
proof -
  from startup_run_rank [OF assms(3), of cfg evs] assms(2,4)
  have "startup_rank cfg (startup_run cfg evs s) = 0" "su_thread (startup_run cfg evs s) \<noteq> U_none"
    by (auto simp: rank_bounded_def)
  from startup_rank_zero [OF this] startup_run_inv [OF assms(1), of cfg evs] assms(5) show ?thesis
    by (auto simp: startup_inv_def)
qed

text \<open>
  (C14) Once a start has begun, whichever of the pool factory, the bindings, the thread starts, the shutdown of the discarded pool and
  the closing of discarded listeners fail and however a shutdown is interleaved, the serving thread settles within twice the number of listeners plus
  nine of its own steps, provided that no listener of a published server raises when the handler of \<open>serve_forever\<close> closes it: \<open>ready\<close> is
  set, so that no caller of \<open>start\<close> or \<open>wait_ready\<close> waits for ever, and either the server is published with its pool and at least one
  listener, all of them open, or it is stopped with no listener open and no pool running that was neither published nor failed to shut
  down.
\<close>

theorem startup_settles:
  assumes "su_thread (startup_run cfg evs startup_init) \<noteq> U_none"
    and "2 * length (sc_listeners cfg) + 9 \<le> length (filter is_serve evs')"
    and "closes_return cfg (evs @ evs') startup_init"
    and "s = startup_run cfg (evs @ evs') startup_init"
  shows "su_ready s \<and>
         (if wait_ready s = Some True
          then su_state s \<in> {SRV_RUNNING, DRAINING} \<and> su_bound s \<noteq> [] \<and> set (su_open s) = set (su_bound s) \<and> su_pool_running s
          else su_state s = STOPPED \<and> su_stopped s \<and> su_open s = [] \<and> (su_pool_running s \<longrightarrow> su_pool s \<or> su_discard_failed s))"
proof -
  have "su_thread s \<noteq> U_crashed" unfolding assms(4) by (rule not_crashed_run [OF assms(3)]) (simp add: startup_init_def)
  then have "settled_ok s"
    unfolding assms(4) startup_run_append
    by (intro settled_after_budget) (use assms(1,2) in \<open>simp_all add: startup_run_inv startup_run_bounded startup_budget_def\<close>)
  then show ?thesis by (auto simp: settled_ok_def wait_ready_def split: if_splits)
qed

definition two_listeners :: startup_config where
  "two_listeners = \<lparr>sc_listeners = [0, 1], sc_optional = (\<lambda>l. l = 0)\<rparr>"

text \<open>The first listener is optional and fails to bind.\<close>

definition optional_fails :: "startup_event list" where
  "optional_fails = [Su_serve True, Su_serve True, Su_serve True, Su_serve False] @ replicate 9 (Su_serve True)"

theorem startup_settles_witness:
  "su_thread (startup_run two_listeners [Su_start True] startup_init) = U_enter \<and>
   wait_ready (startup_run two_listeners ([Su_start True] @ optional_fails) startup_init) = Some True \<and>
   su_open (startup_run two_listeners ([Su_start True] @ optional_fails) startup_init) = [1] \<and>
   su_ready (startup_run two_listeners ([Su_start True] @ optional_fails) startup_init)"
proof -
  have 1: "su_thread (startup_run two_listeners [Su_start True] startup_init) = U_enter"
    "wait_ready (startup_run two_listeners ([Su_start True] @ optional_fails) startup_init) = Some True"
    "su_open (startup_run two_listeners ([Su_start True] @ optional_fails) startup_init) = [1]"
    by code_simp+
  have 2: "2 * length (sc_listeners two_listeners) + 9 \<le> length (filter is_serve optional_fails)" by code_simp
  have 3: "closes_return two_listeners ([Su_start True] @ optional_fails) startup_init" by code_simp
  from startup_settles [OF _ 2 3 refl] 1 show ?thesis by simp
qed

subsection \<open>What a failing thread start leaves behind\<close>

definition leaked :: "startup \<Rightarrow> bool" where
  "leaked s \<longleftrightarrow>
     su_state s = STOPPED \<and> su_pool_running s \<and>
     (case su_thread s of U_close rest \<Rightarrow> True | U_settle \<Rightarrow> True | U_end \<Rightarrow> True | U_crashed \<Rightarrow> True | _ \<Rightarrow> False)"

lemma leaked_step: "leaked s \<Longrightarrow> leaked (startup_step cfg ev s)"
  by (cases ev; cases "su_thread s")
    (auto simp: leaked_def startup_step_def start_server_def serve_in_foreground_def shutdown_requested_def serve_step_def close_one_def
      split: list.splits)

interpretation lk: stepwise "startup_step cfg" leaked for cfg
  by unfold_locales (rule leaked_step)

lemma leaked_run: "leaked s \<Longrightarrow> leaked (startup_run cfg evs s)"
  unfolding startup_run_def by (rule lk.run_kept)

text \<open>
  When one of the threads of a server that has just been published cannot be started, the pool is never shut down: the
  listeners are closed and the server is \<open>STOPPED\<close>, where \<open>shutdown\<close> returns at once, and the pool of the server
  runs on.
\<close>

theorem thread_start_failure_leaks_pool:
  assumes "su_thread (startup_run cfg evs startup_init) = U_publish bound"
    and "su_state (startup_run cfg evs startup_init) = STARTING"
    and "s = startup_run cfg (evs @ [Su_serve False, Su_serve True] @ evs') startup_init"
  shows "su_state s = STOPPED \<and> su_pool_running s"
proof -
  let ?s = "startup_run cfg evs startup_init"
  have "startup_inv ?s" by (simp add: startup_run_inv)
  with assms(1) have "su_pool_running ?s" by (simp add: startup_inv_def)
  with assms(1,2) have "leaked (startup_run cfg [Su_serve False, Su_serve True] ?s)"
    by (simp add: startup_run_def startup_step_def serve_step_def leaked_def Let_def)
  then have "leaked s" unfolding assms(3) startup_run_append by (rule leaked_run)
  then show ?thesis by (simp add: leaked_def)
qed

text \<open>
  When, after that, one of the listeners raises while it is closed, the serving thread dies: \<open>ready\<close> is never set, so that \<open>start\<close>
  and \<open>wait_ready\<close> wait for ever, and the listeners after it stay open.
\<close>

definition crashed :: "nat list \<Rightarrow> startup \<Rightarrow> bool" where
  "crashed still_open s \<longleftrightarrow> su_thread s = U_crashed \<and> \<not> su_ready s \<and> su_state s = STOPPED \<and> su_open s = still_open"

lemma crashed_step: "crashed ls s \<Longrightarrow> crashed ls (startup_step cfg ev s)"
  by (cases ev) (auto simp: crashed_def startup_step_def start_server_def serve_in_foreground_def shutdown_requested_def serve_step_def)

interpretation cr: stepwise "startup_step cfg" "crashed ls" for cfg ls
  by unfold_locales (rule crashed_step)

theorem raising_close_hangs_start:
  assumes "su_thread (startup_run cfg evs startup_init) = U_close (l # rest)"
    and "s = startup_run cfg (evs @ [Su_serve False] @ evs') startup_init"
  shows "\<not> su_ready s \<and> su_open s = removeAll l (su_open (startup_run cfg evs startup_init))"
proof -
  let ?s = "startup_run cfg evs startup_init"
  have "startup_inv ?s" by (simp add: startup_run_inv)
  with assms(1) have "crashed (removeAll l (su_open ?s)) (startup_step cfg (Su_serve False) ?s)"
    by (simp add: startup_inv_def crashed_def startup_step_def serve_step_def close_one_def)
  from cr.run_kept [OF this, of cfg evs'] have "crashed (removeAll l (su_open ?s)) s"
    unfolding assms(2) startup_run_append by (simp add: startup_run_def)
  then show ?thesis by (simp add: crashed_def)
qed

subsection \<open>The start as the running server sees it\<close>

text \<open>The events in which a thread cannot be started, which the model of the running server leaves out.\<close>

fun threads_start :: "startup_config \<Rightarrow> startup_event list \<Rightarrow> startup \<Rightarrow> bool" where
  "threads_start cfg [] s = True"
| "threads_start cfg (ev # evs) s =
     ((case ev of
         Su_start started \<Rightarrow> started
       | Su_serve ok \<Rightarrow> (case su_thread s of U_publish bound \<Rightarrow> ok | _ \<Rightarrow> True)
       | _ \<Rightarrow> True) \<and> threads_start cfg evs (startup_step cfg ev s))"

text \<open>
  The events of the running server that a step of the start stands for.  A call of \<open>start\<close>, or of \<open>serve_forever\<close>, on a new server
  is a start, every shutdown is a shutdown, and the initialization ends with success at the publication and without at
  the three places that give the start up.
\<close>

definition abstract_event :: "startup_event \<Rightarrow> startup \<Rightarrow> server_event list" where
  "abstract_event ev s =
     (case ev of
        Su_start started \<Rightarrow> if su_thread s = U_none \<and> su_state s = CREATED then [Ev_start] else []
      | Su_foreground \<Rightarrow> if su_thread s = U_none \<and> su_state s = CREATED then [Ev_start] else []
      | Su_shutdown \<Rightarrow> [Ev_shutdown False VNone 0]
      | Su_serve ok \<Rightarrow>
          (case su_thread s of
             U_check \<Rightarrow> if su_state s = STOPPING then [Ev_initialize False] else []
           | U_publish bound \<Rightarrow> if su_state s = STARTING then [Ev_initialize True] else []
           | U_cancelled \<Rightarrow> [Ev_initialize False]
           | U_failed \<Rightarrow> [Ev_initialize False]
           | _ \<Rightarrow> []))"

fun abstract_events :: "startup_config \<Rightarrow> startup_event list \<Rightarrow> startup \<Rightarrow> server_event list" where
  "abstract_events cfg [] s = []"
| "abstract_events cfg (ev # evs) s = abstract_event ev s @ abstract_events cfg evs (startup_step cfg ev s)"

definition failing :: "startup \<Rightarrow> bool" where
  "failing s = (case su_thread s of U_close rest \<Rightarrow> True | U_settle \<Rightarrow> True | U_crashed \<Rightarrow> True | _ \<Rightarrow> False)"

text \<open>The state is the same; a start that fails is over for the running server before \<open>ready\<close> is set.\<close>

definition startup_view :: "startup \<Rightarrow> broker \<Rightarrow> bool" where
  "startup_view s b \<longleftrightarrow>
     br_state b = su_state s \<and> (br_ready b \<longleftrightarrow> su_ready s \<or> failing s) \<and> (su_thread s = U_failed \<longrightarrow> su_state s \<in> {STARTING, STOPPING})"

lemmas view_defs = startup_view_def failing_def startup_inv_def unpublished_def settled_ok_def

lemma serve_view:
  assumes "startup_inv s" and "startup_view s b" and "threads_start cfg [Su_serve ok] s"
  shows "startup_view (serve_step cfg ok s) (server_run sv (abstract_event (Su_serve ok) s) b)"
  using assms
  by (cases "su_thread s")
    (auto simp: view_defs abstract_event_def server_run_def serve_step_def bind_next_def close_one_def server_initialize_def Let_def
      split: list.splits if_splits)

lemma start_view:
  assumes "startup_inv s" and "startup_view s b"
  shows "startup_view (fst (start_server True s)) (server_run sv (abstract_event (Su_start True) s) b)"
    and "startup_view (fst (serve_in_foreground s)) (server_run sv (abstract_event Su_foreground s) b)"
proof -
  have "startup_view (fst (start_server True s)) (server_run sv (abstract_event (Su_start True) s) b) \<and>
      startup_view (fst (serve_in_foreground s)) (server_run sv (abstract_event Su_foreground s) b)"
  proof (cases "su_thread s = U_none \<and> su_state s = CREATED")
    case True
    then show ?thesis
      using assms by (auto simp: start_server_def serve_in_foreground_def abstract_event_def server_run_def server_start_def view_defs)
  next
    case False
    then show ?thesis using assms(2) by (auto simp: start_server_def serve_in_foreground_def abstract_event_def server_run_def)
  qed
  then show "startup_view (fst (start_server True s)) (server_run sv (abstract_event (Su_start True) s) b)"
    and "startup_view (fst (serve_in_foreground s)) (server_run sv (abstract_event Su_foreground s) b)" by simp_all
qed

lemma shutdown_view:
  "startup_inv s \<Longrightarrow> startup_view s b \<Longrightarrow> startup_view (shutdown_requested s) (server_run sv (abstract_event Su_shutdown s) b)"
  by (cases "su_state s"; cases "su_thread s")
    (auto simp: view_defs abstract_event_def server_run_def shutdown_requested_def shutdown_def validate_shutdown_deadline_def split: if_splits)

lemma startup_step_view:
  assumes "startup_inv s" and "startup_view s b" and "threads_start cfg [ev] s"
  shows "startup_view (startup_step cfg ev s) (server_run sv (abstract_event ev s) b)"
proof (cases ev)
  case (Su_serve ok)
  then show ?thesis using serve_view [OF assms(1,2)] assms(3) by (simp add: startup_step_def)
qed (use assms(3) start_view [OF assms(1,2)] shutdown_view [OF assms(1,2)] in \<open>auto simp: startup_step_def\<close>)

lemma startup_run_view:
  "startup_inv s \<Longrightarrow> startup_view s b \<Longrightarrow> threads_start cfg evs s \<Longrightarrow>
     startup_view (startup_run cfg evs s) (server_run sv (abstract_events cfg evs s) b)"
proof (induction evs arbitrary: s b)
  case Nil
  then show ?case by (simp add: startup_run_def server_run_def)
next
  case (Cons ev evs)
  have "startup_view (startup_step cfg ev s) (server_run sv (abstract_event ev s) b)"
    using Cons.prems by (intro startup_step_view) simp_all
  from Cons.IH [OF startup_step_inv [OF Cons.prems(1)] this] Cons.prems(3) show ?case
    by (simp add: startup_run_def server_run_def)
qed


text \<open>A shutdown arrives while the listeners are being bound.\<close>

definition cancelled_start :: "startup_event list" where
  "cancelled_start = [Su_start True, Su_serve True, Su_serve True, Su_serve True, Su_shutdown] @ replicate 8 (Su_serve True)"


end
