(* ===== verification/Spec2Isabelle.thy ===== *)
theory Spec2Isabelle
  imports Guarantees PoolGuarantees PoolApi ClientGuarantees ClientApi Session Worker Transport Sockets Startup
begin

text \<open>
  \<^bold>\<open>deadpool\<close> is a process pool for Python with a remote mode: clients in other processes or on other hosts submit jobs
  to a server that owns one local pool.  This development models its code, all of it but the package exports, and proves
  what its parts promise.

  \<^bold>\<open>The parts and how they interact.\<close>  A user of the local executor (\<open>src/deadpool/_pool.py\<close>) submits jobs to a bounded priority queue;
  a runner thread starts one thread per job, which takes an idle worker process, sends it the job over a pipe and
  polls for the answer; the worker process loops over its pipe.  In remote mode (\<open>src/deadpool/remote\<close>) a client connects over a Unix or TCP
  socket (\<open>_transport.py\<close>, \<open>config.py\<close>), exchanges framed JSON control messages and payloads (\<open>_protocol.py\<close>), and keeps a future per request
  (\<open>client.py\<close>, \<open>_future.py\<close>, \<open>errors.py\<close>).  The server (\<open>server.py\<close>) authenticates the session, admits requests against limits, queues them fairly
  (\<open>_scheduler.py\<close>), stages them into the local pool, whose workers run \<open>execute_opaque\<close> (\<open>_worker.py\<close>, \<open>serializer.py\<close>), and sends the
  terminal outcome back, for which it reserves memory at admission.

  \<^bold>\<open>How the code is modelled.\<close>  A class with mutable fields is a record, an enumeration a datatype, a \<open>dict\<close> an association list in
  insertion order (theory \<open>Prelude\<close>), a Python \<open>int\<close> an \<open>int\<close>, a \<open>str\<close> a list of code points, a time a rational number.  Operations that
  raise return a sum.  Objects shared by reference are entries of heaps.  Threads are interleaved: each has a program counter,
  an event is one lock region or one step of one thread up to its next access to shared state, and what the environment decides
  (a clock, a system call, an answer of a pool or a peer, a user function) is an argument of the event; a theorem about
  all event lists therefore speaks about all interleavings and all behaviours of the environment.

  \<^bold>\<open>Theories.\<close>
  \<^item> \<open>Prelude\<close>: strings, exceptions, dictionaries, and the locale \<open>stepwise\<close> for components that keep an invariant step by step.
  \<^item> \<open>Heapq\<close>: CPython's \<open>heapq\<close> on lists, with the locale \<open>min_heap\<close>.  \<open>Scheduler\<close>: \<open>FairScheduler\<close> of \<open>_scheduler.py\<close>; its abstraction is
    the rotation of principals per priority (locale \<open>fair_queue\<close>): strict priority, round robin, bounded waiting.
  \<^item> \<open>Config\<close>: the validated classes of \<open>config.py\<close>.  \<open>Json\<close>, \<open>Protocol\<close>: \<open>_protocol.py\<close>: the bounds on control objects, the nesting guard,
    frames, \<open>send_message\<close> and \<open>MessageReader\<close>; reassembly of interleaved messages, memory bounds, authenticity.
  \<^item> \<open>Descriptor\<close>: the fitting of diagnostics at the end of \<open>server.py\<close>.
  \<^item> \<open>Broker\<close>: the state of \<open>DeadpoolServer\<close> and every operation under its lock, from \<open>_submit\<close> to \<open>_disconnect\<close>; \<open>Server\<close>: connections,
    shutdown and the step function \<open>server_step\<close> over all threads; \<open>Startup\<close>: \<open>start\<close>, \<open>serve_forever\<close> and \<open>_initialize\<close> call by call,
    closing of listeners that raises included; each of its steps is the matching event of \<open>Server\<close> or none.  \<open>Lane\<close> (no request is lost; locale \<open>work_set\<close> is what the broker needs of a
    scheduler), \<open>Accounts\<close> (reservations are exact), \<open>Micro\<close> and \<open>Lifecycle\<close> (every event is a sequence of small changes; life of a request) carry the
    invariants, \<open>Guarantees\<close> states what holds in every reachable state, and two runs that leak a reservation.
  \<^item> \<open>Pool\<close>: \<open>Deadpool\<close> with the runner, the \<open>run_task\<close> threads, the submitters and shutdown; \<open>PoolApi\<close>: statistics, process ids, the \<open>with\<close>
    statement; \<open>PoolInv\<close>, \<open>PoolLive\<close>, \<open>PoolProps\<close>: where every job and worker is, progress, finality (locale \<open>pool_kept\<close>); \<open>PoolGuarantees\<close>: the results,
    and runs that strand a job, leak a worker or hang shutdown.
  \<^item> \<open>Worker\<close>: \<open>raw_runner2\<close> with its timers, a pipe that can break and its watch over the parent, \<open>_LimitedWriter\<close> and \<open>PickleSerializer.dumps\<close> (locale
    \<open>bounded_serializer\<close>), \<open>execute_opaque\<close>, \<open>kill_proc_tree\<close>, \<open>format_death_message\<close>, \<open>initializer_environ_propagator\<close>.
  \<^item> \<open>RemoteFuture\<close>: \<open>errors.py\<close> and \<open>_future.py\<close>; \<open>Client\<close>: \<open>DeadpoolClient\<close> with its sender, receiver and completion lane; \<open>ClientApi\<close>: connecting, callback
    dispatcher, answers of control calls, forks; \<open>ClientInv\<close>, \<open>ClientCallbacks\<close> (no callback is lost or handed over twice), \<open>ClientProps\<close>,
    \<open>ClientGuarantees\<close>: futures are final, errors are truthful, no future is lost, and two runs that hang.
  \<^item> \<open>Transport\<close>: the Unix listener of \<open>_transport.py\<close>, one step per system call, against other processes; \<open>Sockets\<close>: connecting, TCP
    listeners, TLS, \<open>peer_info\<close>.
  \<^item> \<open>Session\<close> and this theory: properties of two parts together: handshake and submissions between client and server, and a job
    between the executor and its worker process.

  \<^bold>\<open>Bounds.\<close>  No operation runs on fuel: loops are recursive functions with termination proofs, and waiting loops are steps that
  may be repeated.  A task thread moves at most 103 times (ten attempts of ten moves and an end of three; waiting for a worker and polls that hear
  nothing are not moves and are not bounded); a start settles in \<open>2n + 9\<close> steps for \<open>n\<close> listeners, which covers binding and closing each, unless
  closing one raises in the handler of \<open>serve_forever\<close>, which hangs it; a shutdown with a deadline ends its waiting at the first pass after it.

  \<^bold>\<open>Parameters.\<close>  \<open>json\<close>, \<open>hashlib\<close>, \<open>pickle\<close>, \<open>psutil\<close>, the UTF-8 codec, TLS contexts, authenticators, authorizers and user functions are
  arguments.  The server sees the local pool through its answers to \<open>submit\<close> and the callbacks of its futures, and the local executor
  sees worker processes through pipe answers; the theories \<open>Pool\<close> and \<open>Worker\<close> are the two other sides.

  \<^bold>\<open>Not modelled.\<close>  The package exports (\<open>__init__.py\<close>) and the examples have no logic.  Logging, process titles, \<open>malloc_trim\<close>, garbage collection of
  worker objects and the names of threads are left out.  System calls are taken to be atomic.  Rendering an exception as text does
  not raise.  Closing a socket raises in \<open>Transport\<close> and \<open>Startup\<close>; in the end of a shutdown (\<open>Server\<close>) closing the listeners and shutting down the pool
  are taken to return.  In \<open>Pool\<close>, starting a worker process or a thread succeeds and \<open>kill_proc_tree\<close> returns.  In \<open>Client\<close>, the branch of
  \<open>_schedule_completion\<close> for a closed executor is left out.  The start models the beginning of a shutdown; what follows it on a published
  server is part of \<open>Server\<close>.  The client's serialization executor is an input of its submission.
\<close>

section \<open>Properties that span the client and the server\<close>

text \<open>
  (C11) Client and server agree on the handshake.  The \<open>HELLO\<close> a client builds is well formed for the server; the server
  finds it compatible exactly if the wire limits, the serializer, the Python version and the fingerprints the
  server insists on agree; an authenticated peer with a new instance id and a free connection then gets its
  session; and the \<open>WELCOME\<close> it is sent passes the checks of the client, with the server's wire limits.
\<close>

theorem handshake_agrees:
  assumes "hello_ok cc" and "limits_ok (sv_limits sv)"
  shows "validate_hello (msg_control (client_hello cc)) = Inr () \<and>
     (incompatible sv (msg_control (client_hello cc)) = None \<longleftrightarrow> compatible cc sv) \<and>
     (compatible cc sv \<and>
        authenticate sv (cn_transport (br_conn b c)) peer (msg_control (client_hello cc)) = Some who \<and>
        cc_client_id cc \<notin> set (dkeys (br_client_sessions b)) \<and>
        int (length (filter (\<lambda>x. ss_principal (br_sess b x) = who) (br_sessions b))) < max_connections_per_principal (sv_limits sv) \<longrightarrow>
      handshake sv c peer s (msg_control (client_hello cc)) b =
        (open_session sv c s (cc_client_id cc) who (effective_result_limit sv (max_result_bytes (cc_limits cc))) b, Inr ()) \<and>
      check_welcome cc \<lparr>msg_kind = M_WELCOME,
          msg_control = welcome_control sv s (effective_result_limit sv (max_result_bytes (cc_limits cc))), msg_payload = []\<rparr> =
        Inr (wire_limits (sv_limits sv)))"
proof -
  note hello = hello_valid [OF assms(1)] hello_compatible [of sv cc]
  have fields: "json_int (jget (msg_control (client_hello cc)) ''max_result_bytes'') = Some (max_result_bytes (cc_limits cc))"
      "json_str (jget (msg_control (client_hello cc)) ''client_instance_id'') = Some (cc_client_id cc)"
    by (simp_all add: client_hello_def jget_ctl)
  have wire: "compatible cc sv \<Longrightarrow> wire_compatible (sv_limits sv) (cc_limits cc)"
    by (simp add: compatible_def wire_compatible_def)
  show ?thesis
    using hello fields wire welcome_accepted [OF assms(2), of cc s] by (auto simp: handshake_def)
qed


text \<open>A server that reads decimal digits and shares the client's digest, and its state once the client has connected.\<close>

definition small_server :: server_config where
  "small_server = example_cfg\<lparr>sv_int := (\<lambda>ds. Some (int (digits_value ds))), sv_sha256 := cc_sha256 small_client\<rparr>"

definition connected :: broker where
  "connected = server_run small_server
     [Ev_start, Ev_initialize True, Ev_accept 3, Ev_prepare 3 True UNIX,
      Ev_hello 0 example_peer (lit ''S'') (client_hello small_client)] server_init"

lemma connected_values:
  "(cn_session (br_conn connected 0), ss_client_id (br_sess connected (lit ''S'')), ss_requests (br_sess connected (lit ''S'')),
    br_state connected, queue_full small_server (lit ''S'') connected, ss_watermark (br_sess connected (lit ''S'')),
    cn_transport (br_conn connected 0), ss_principal (br_sess connected (lit ''S'')), br_nreq connected) =
   (Some (lit ''S''), lit ''c'', [], SRV_RUNNING, False, 0, UNIX, lit ''uid:7'', 0)"
  by code_simp

lemma small_hello: "hello_ok small_client"
  by code_simp

lemma small_limits_ok: "limits_ok (sv_limits small_server)"
  by code_simp

theorem handshake_agrees_witness:
  "handshake small_server 0 example_peer (lit ''S'') (msg_control (client_hello small_client)) server_init =
     (open_session small_server 0 (lit ''S'') (lit ''c'') (lit ''uid:7'') 64 server_init, Inr ())"
proof -
  have "compatible small_client small_server" by code_simp
  moreover have "authenticate small_server (cn_transport (br_conn server_init 0)) example_peer (msg_control (client_hello small_client)) = Some (lit ''uid:7'')"
      "cc_client_id small_client = lit ''c''" "br_client_sessions server_init = []" "br_sessions server_init = []"
      "max_connections_per_principal (sv_limits small_server) = 4"
      "effective_result_limit small_server (max_result_bytes (cc_limits small_client)) = 64"
    by code_simp+
  ultimately show ?thesis
    using handshake_agrees [OF small_hello small_limits_ok, where b = server_init and c = 0 and peer = example_peer and who = "lit ''uid:7''" and s = "lit ''S''"]
    by simp
qed

text \<open>
  (C12) A submission a client makes for its session is never an error on the server, as long as the server's authorizer, if it has one,
  answers instead of raising: the session is not dropped.  If moreover the server runs and has room, the number is new, the payload and the
  operation are allowed and the authorizer permits the action, the request is registered: the next request record has the client's id and payload
  and waits, the session and the server find it under its id, and it is put into the scheduler with its priority and principal.
\<close>

theorem client_submissions_admitted:
  assumes "paired cc sv c s b" and "check_options opts = Inr ()"
    and "map_of (ss_requests (br_sess b s)) (request_id_of cc n) = None"
    and "authorized sv c (submit_action operation) (submit_control cc (request_id_of cc n) operation opts payload) b = Inr permitted"
    and "(b', r) = submit sv c (submit_message cc n operation opts payload) now b"
  shows "r = Inr () \<and>
     (br_state b = SRV_RUNNING \<and> \<not> queue_full sv s b \<and> ss_watermark (br_sess b s) < int n \<and>
      int (length payload) \<le> max_invocation_bytes (sv_limits sv) \<and> set_option operation \<subseteq> set (sv_task_registry sv) \<and> permitted \<longrightarrow>
      (let q = br_req b' (br_nreq b) in
         br_nreq b' = Suc (br_nreq b) \<and> rq_request_id q = request_id_of cc n \<and> rq_payload q = payload \<and>
         rq_state q = request_state.ACCEPTED_QUEUED \<and> rq_session_id q = s \<and>
         map_of (ss_requests (br_sess b' s)) (request_id_of cc n) = Some (br_nreq b) \<and>
         map_of (br_requests b') (request_id_of cc n) = Some (br_nreq b) \<and>
         br_scheduler b' = sched_put (br_nreq b) (rq_priority q) (rq_principal q) (br_scheduler b)))"
proof -
  let ?st = "upd_stats (\<lambda>st. st\<lparr>st_received := st_received st + 1\<rparr>) b"
  define b1 where "b1 = upd_sess s (\<lambda>ss. ss\<lparr>ss_watermark := int n\<rparr>) ?st"
  let ?m = "submit_message cc n operation opts payload" and ?d = "cc_sha256 cc payload" and ?rid = "request_id_of cc n"
  have b1: "br_nreq b1 = br_nreq b" "br_state b1 = br_state b" "queue_full sv s b1 = queue_full sv s b" "br_scheduler b1 = br_scheduler b"
      "authorized sv c a x b1 = authorized sv c a x b" for a x
    by (simp_all add: b1_def queue_full_frame authorized_frame) (simp_all add: upd_sess_def upd_stats_def)
  have sub: "(b', r) =
      (if int n \<le> ss_watermark (br_sess b s) then (reject sv c ?rid ''stale_request'' ?st, Inr ()) else submit_new sv c s ?rid ?d ?m now b1)"
    using assms(3) unfolding assms(5) submit_reaches_admission [OF assms(1)] by (simp add: submit_locked_def b1_def upd_stats_def)
  show ?thesis
  proof (cases "int n \<le> ss_watermark (br_sess b s)")
    case False
    then have new: "(b', r) = submit_new sv c s ?rid ?d ?m now b1" using sub by simp
    note adm = submit_new_client [OF assms(2) _ new, of permitted, unfolded b1, OF assms(4)]
    show ?thesis using adm(1) adm(2) by (auto simp: registered_def b1 Let_def)
  qed (use sub in simp)
qed

theorem client_submissions_admitted_witness:
  "let b' = fst (submit small_server 0 (submit_message small_client 1 None plain_options [5]) 0 connected)
   in map_of (br_requests b') (request_id_of small_client 1) = Some 0 \<and> rq_payload (br_req b' 0) = [5]"
proof -
  have p: "paired small_client small_server 0 (lit ''S'') connected"
    using connected_values by (simp add: paired_def small_server_def digits_value_nat_digits del: nat_digits.simps) (simp add: small_client_def)
  have o: "check_options plain_options = Inr ()" by code_simp
  have "int_digits (sv_uid small_server) = lit ''7''" "sv_authorizer small_server = None" and max: "max_invocation_bytes (sv_limits small_server) = 64"
    by code_simp+
  moreover have "lit ''uid:'' @ lit ''7'' = lit ''uid:7''" by code_simp
  ultimately have a: "authorized small_server 0 (submit_action None) x connected = Inr True" for x
    using connected_values by (simp add: authorized_def)
  show ?thesis
    using client_submissions_admitted [OF p o _ a, where n = 1 and payload = "[5]" and now = 0] connected_values max
    by (simp add: Let_def prod_eq_iff)
qed

section \<open>Properties that span the executor and its worker processes\<close>

text \<open>
  (C40) A result that cannot be sent strands its job.  When a job without timeout returns a value that \<open>conn.send\<close> cannot
  pickle, the worker swallows the error and waits for its next job; no answer for that job ever enters the
  pipe, whatever happens to the worker later; and a task thread that polls the pipe of a worker
  that is alive and hears nothing never leaves its loop, so that the future is never done.
\<close>

theorem unsent_result_strands_job:
  assumes "\<not> rc_sends cfg (A_result v)"
    and "rw_phase (raw_runner2 cfg evs raw_start) = W_wait"
    and "j = rw_jobs (raw_runner2 cfg evs raw_start)"
    and "w = raw_runner2 cfg (evs @ [Re_recv (In_job None), Re_call (Call_returns v), Re_main rss, Re_main rss]) raw_start"
    and "pl_task p f = T_poll k" and "wk_alive (pl_worker p k)"
  shows "rw_phase w = W_wait \<and> rw_jobs w = Suc j \<and>
     filter (\<lambda>x. fst x = j) (rw_answers (raw_runner2 cfg later w)) = [] \<and>
     (run_task_step pcfg f In_nothing ^^ n) p = p"
proof -
  let ?w = "raw_runner2 cfg evs raw_start"
  have run: "w = raw_runner2 cfg [Re_recv (In_job None), Re_call (Call_returns v), Re_main rss, Re_main rss] ?w"
    unfolding assms(4) by (simp add: raw_runner2_def)
  note left = unsent_result [OF assms(1,2) worker_run_inv [OF worker_start_inv] run]
  have "rw_jobs w = Suc j"
    using assms(2,3) unfolding run
    by (simp add: raw_runner2_def raw_step_def raw_recv_def raw_call_def conn_send_safe_def raw_finally_def)
  moreover have "filter (\<lambda>x. fst x = j) (rw_answers (raw_runner2 cfg later w)) = []"
    using left_behind_run [OF left(4,3), of later] left(5) assms(3) by simp
  moreover have "(run_task_step pcfg f In_nothing ^^ n) p = p"
    using assms(5,6) by (induction n) (simp_all add: run_task_step_def poll_step_def)
  ultimately show ?thesis using left(1) by simp
qed

text \<open>A worker that cannot send the value 5.\<close>

definition picky :: raw_config where
  "picky = \<lparr>rc_pickles = (\<lambda>_. True), rc_sends = (\<lambda>a. a \<noteq> A_result 5), rc_mem_clear_threshold = None\<rparr>"

text \<open>A pool of one worker whose first job has been sent to the worker.\<close>

definition polling :: pool where
  "polling = pool_at 1 1 (enter 5 0 @ launch @ steps 4 0 @ [Pv_task 0 In_submitted])"

lemma polling_values: "(pl_task polling 0, wk_alive (pl_worker polling 0)) = (T_poll 0, True)"
  by code_simp

theorem unsent_result_strands_job_witness:
  "rw_phase (raw_runner2 picky [Re_main 0, Re_recv (In_job None), Re_call (Call_returns 5), Re_main 0, Re_main 0] raw_start) = W_wait \<and>
   (run_task_step (small_pool 1 1) 0 In_nothing ^^ 7) polling = polling"
proof -
  have start: "rw_phase (raw_runner2 picky [Re_main 0] raw_start) = W_wait" by code_simp
  have "\<not> rc_sends picky (A_result 5)" by (simp add: picky_def)
  from unsent_result_strands_job [OF this start refl refl, where p = polling and f = 0 and k = 0 and rss = 0 and pcfg = "small_pool 1 1" and n = 7] polling_values
  show ?thesis by simp
qed

end
